(* ===== verification/Prelude.thy ===== *)
theory Prelude
  imports Complex_Main "HOL-Library.Sublist"
begin

text \<open>
  Shared vocabulary of the development.

  \<^item> Python values as the untyped entry points of the program see them, and the few string
    operations (whitespace, strip, decimal printing) those entry points use.
  \<^item> Operations on mutable objects: an operation maps the state to an outcome and the state the
    object is left in. A raised exception is an \<open>Inl\<close> outcome and keeps every mutation made
    before the raise, as Python does.
  \<^item> Three locales that lift a fact about one operation to every sequence of operations, that is
    to every interleaving of the atomic sections the model has as operations.
\<close>

section \<open>Proof automation shared by the components\<close>

named_theorems op_defs \<open>definitions of the operations of a component\<close>
named_theorems outcome_simps \<open>rules that take the outcome of an operation apart\<close>

section \<open>Python values and strings\<close>

text \<open>
  Characters are code points below 256. \<open>py_isspace\<close> is \<^verbatim>\<open>str.isspace\<close> on that range: the
  separators that \<^verbatim>\<open>str.strip\<close> removes.
\<close>

definition py_isspace :: "char \<Rightarrow> bool" where
  "py_isspace c \<longleftrightarrow>
     (let n = (of_char c :: nat) in
      (9 \<le> n \<and> n \<le> 13) \<or> (28 \<le> n \<and> n \<le> 32) \<or> n = 133 \<or> n = 160)"

definition py_strip :: "string \<Rightarrow> string" where
  "py_strip s = rev (dropWhile py_isspace (rev (dropWhile py_isspace s)))"

text \<open>\<^verbatim>\<open>not value.strip()\<close>\<close>

definition py_blank :: "string \<Rightarrow> bool" where
  "py_blank s \<longleftrightarrow> py_strip s = []"

text \<open>The empty string and decimal printing, as \<^verbatim>\<open>str(n)\<close> prints an \<^verbatim>\<open>int\<close>.\<close>

fun show_nat :: "nat \<Rightarrow> string" where
  "show_nat n = (if n < 10 then [char_of (48 + n)] else show_nat (n div 10) @ [char_of (48 + n mod 10)])"

declare show_nat.simps [simp del]

definition show_int :: "int \<Rightarrow> string" where
  "show_int i = (if i < 0 then ''-'' @ show_nat (nat (- i)) else show_nat (nat i))"

text \<open>
  A double. A finite one is the rational number it stands for, so comparisons with integers and
  with each other are exact, as Python's are.
\<close>

datatype pyfloat = Finite rat | PosInf | NegInf | NaN

text \<open>
  A value of unknown type, as a function annotated \<^verbatim>\<open>object\<close> receives it. \<open>PyDict\<close> is a mapping
  with string keys in insertion order, \<open>PySet\<close> a set or frozenset, \<open>PyType\<close> a class by its name;
  \<open>PyObj\<close> is an instance of any other class, of which only the class name is visible.
\<close>

datatype pyval =
    PyNone
  | PyBool bool
  | PyInt int
  | PyFloat pyfloat
  | PyStr string
  | PyList "pyval list"
  | PyTuple "pyval list"
  | PySet "pyval list"
  | PyDict "(string \<times> pyval) list"
  | PyType string
  | PyObj string

definition py_get :: "(string \<times> pyval) list \<Rightarrow> string \<Rightarrow> pyval \<Rightarrow> pyval" where
  "py_get d k dflt = (case map_of d k of None \<Rightarrow> dflt | Some v \<Rightarrow> v)"

lemma dropWhile_space_idem: "dropWhile P (dropWhile P xs) = dropWhile P xs"
  by (induction xs) auto

lemma py_blank_Nil [simp]: "py_blank []"
  by (simp add: py_blank_def py_strip_def)

lemma dropWhile_eq_Nil_rev: "dropWhile P (rev xs) = [] \<longleftrightarrow> (\<forall>x\<in>set xs. P x)"
  by (simp add: dropWhile_eq_Nil_conv)

lemma py_blank_iff: "py_blank s \<longleftrightarrow> (\<forall>c\<in>set s. py_isspace c)"
proof -
  have "py_blank s \<longleftrightarrow> (\<forall>c\<in>set (dropWhile py_isspace s). py_isspace c)"
    by (simp add: py_blank_def py_strip_def dropWhile_eq_Nil_conv)
  also have "\<dots> \<longleftrightarrow> (\<forall>c\<in>set s. py_isspace c)"
    by (induction s) auto
  finally show ?thesis .
qed

section \<open>Operations on mutable objects\<close>

text \<open>
  \<open>('s, 'e, 'a) action\<close>: a method of an object with state \<open>'s\<close> that returns an \<open>'a\<close> or
  raises an \<open>'e\<close>. The state is returned in both cases.
\<close>

type_synonym ('s, 'e, 'a) action = "'s \<Rightarrow> ('e + 'a) \<times> 's"

abbreviation raise :: "'e \<Rightarrow> ('s, 'e, 'a) action" where
  "raise e s \<equiv> (Inl e, s)"

abbreviation return :: "'a \<Rightarrow> ('s, 'e, 'a) action" where
  "return a s \<equiv> (Inr a, s)"

text \<open>Sequencing: the first raise ends the method, with the state reached so far.\<close>

definition and_then :: "('s, 'e, 'a) action \<Rightarrow> ('a \<Rightarrow> ('s, 'e, 'b) action) \<Rightarrow> ('s, 'e, 'b) action" where
  "and_then m f s = (case m s of (Inl e, s') \<Rightarrow> (Inl e, s') | (Inr a, s') \<Rightarrow> f a s')"

lemma and_then_return [simp]: "and_then (\<lambda>s. (Inr a, g s)) f s = f a (g s)"
  by (simp add: and_then_def)

lemma and_then_raise [simp]: "and_then (\<lambda>s. (Inl e, g s)) f s = (Inl e, g s)"
  by (simp add: and_then_def)

lemma and_then_assoc: "and_then (and_then m f) g = and_then m (\<lambda>a. and_then (f a) g)"
  by (rule ext) (simp add: and_then_def split: prod.split sum.split)

lemma and_then_Inr [outcome_simps]:
  "and_then m f s = (Inr b, t) \<longleftrightarrow> (\<exists>a u. m s = (Inr a, u) \<and> f a u = (Inr b, t))"
  by (auto simp: and_then_def split: prod.split sum.split)

section \<open>From one operation to every sequence of operations\<close>

text \<open>
  \<open>step op s\<close> is the state after the operation \<open>op\<close>, whatever it returned or raised.
  \<open>fold step ops s\<close> is the state after the operations \<open>ops\<close> in that order.
\<close>

locale machine_invariant =
  fixes step :: "'op \<Rightarrow> 's \<Rightarrow> 's"
    and inv :: "'s \<Rightarrow> bool"
  assumes inv_step: "inv s \<Longrightarrow> inv (step op s)"
begin

lemma inv_run: "inv s \<Longrightarrow> inv (fold step ops s)"
  by (induction ops arbitrary: s) (auto intro: inv_step)

end

locale machine_relation =
  fixes step :: "'op \<Rightarrow> 's \<Rightarrow> 's"
    and rel :: "'s \<Rightarrow> 's \<Rightarrow> bool"
  assumes rel_refl: "rel s s"
    and rel_trans: "rel s t \<Longrightarrow> rel t u \<Longrightarrow> rel s u"
    and rel_step: "rel s (step op s)"
begin

lemma rel_run: "rel s (fold step ops s)"
proof (induction ops arbitrary: s)
  case Nil
  show ?case by (simp add: rel_refl)
next
  case (Cons op ops)
  have "rel s (step op s)" by (rule rel_step)
  moreover have "rel (step op s) (fold step ops (step op s))" by (rule Cons.IH)
  ultimately show ?case by (auto intro: rel_trans)
qed

text \<open>A relation that steps keep gives an invariant for every state it is anchored at.\<close>

sublocale anchored: machine_invariant step "rel s0"
  by unfold_locales (blast intro: rel_trans rel_step)

end

text \<open>
  A machine whose state carries an invariant under which steps are related: the relation need
  only hold from states that satisfy the invariant.
\<close>

locale machine_safety = machine_invariant step inv
  for step :: "'op \<Rightarrow> 's \<Rightarrow> 's" and inv :: "'s \<Rightarrow> bool" +
  fixes rel :: "'s \<Rightarrow> 's \<Rightarrow> bool"
  assumes safe_refl: "rel s s"
    and safe_trans: "rel s t \<Longrightarrow> rel t u \<Longrightarrow> rel s u"
    and safe_step: "inv s \<Longrightarrow> rel s (step op s)"
begin

lemma safe_run: "inv s \<Longrightarrow> rel s (fold step ops s)"
proof (induction ops arbitrary: s)
  case Nil
  show ?case by (simp add: safe_refl)
next
  case (Cons op ops)
  have "rel s (step op s)" using Cons.prems by (rule safe_step)
  moreover have "rel (step op s) (fold step ops (step op s))"
    using Cons.prems by (intro Cons.IH inv_step)
  ultimately show ?case by (auto intro: safe_trans)
qed

end

section \<open>Lists\<close>

lemma filter_le_length_remove1: "x \<in> set xs \<Longrightarrow> length (remove1 x xs) < length xs"
  by (induction xs) auto

lemma distinct_map_filter: "distinct (map f xs) \<Longrightarrow> distinct (map f (filter P xs))"
  by (induction xs) auto

lemma sorted_wrt_snoc: "sorted_wrt R (xs @ [x]) \<longleftrightarrow> sorted_wrt R xs \<and> (\<forall>y\<in>set xs. R y x)"
  by (auto simp: sorted_wrt_append)

lemma map_of_keyed_None [simp]: "map_of (map (\<lambda>x. (k x, f x)) xs) n = None \<longleftrightarrow> n \<notin> k ` set xs"
  by (induction xs) auto

section \<open>Numbered streams\<close>

text \<open>\<open>upfrom k n\<close> is \<open>k, k + 1, \<dots>\<close>, \<open>n\<close> numbers.\<close>

fun upfrom :: "int \<Rightarrow> nat \<Rightarrow> int list" where
  "upfrom k 0 = []"
| "upfrom k (Suc n) = k # upfrom (k + 1) n"

lemma length_upfrom [simp]: "length (upfrom k n) = n"
  by (induction n arbitrary: k) auto

lemma upfrom_append: "upfrom k (m + n) = upfrom k m @ upfrom (k + int m) n"
  by (induction m arbitrary: k) (auto simp: algebra_simps)

lemma set_upfrom: "set (upfrom k n) = {k..<k + int n}"
  by (induction n arbitrary: k) auto

lemma upfrom_prefix:
  assumes "xs @ ys = upfrom k n"
  shows "xs = upfrom k (length xs)" and "ys = upfrom (k + int (length xs)) (length ys)"
proof -
  have "n = length xs + length ys" using assms by (metis length_append length_upfrom)
  with assms have "xs @ ys = upfrom k (length xs) @ upfrom (k + int (length xs)) (length ys)"
    by (simp add: upfrom_append)
  then show "xs = upfrom k (length xs)" "ys = upfrom (k + int (length xs)) (length ys)"
    by simp_all
qed

text \<open>What a consumer receives over a sequence of operations.\<close>

fun deliveries :: "('op \<Rightarrow> 's \<Rightarrow> 's) \<Rightarrow> ('op \<Rightarrow> 's \<Rightarrow> 'e list) \<Rightarrow> 'op list \<Rightarrow> 's \<Rightarrow> 'e list" where
  "deliveries step out [] s = []"
| "deliveries step out (op # ops) s = out op s @ deliveries step out ops (step op s)"

text \<open>
  A producer that numbers its items and hands them over first in, first out. Until it is shut,
  an operation delivers from the front of the pending items and queues freshly numbered ones at
  the back; shutting it drops what is pending and ends the deliveries.
\<close>

locale numbered_stream =
  fixes step :: "'op \<Rightarrow> 's \<Rightarrow> 's"
    and out :: "'op \<Rightarrow> 's \<Rightarrow> int list"
    and pending :: "'s \<Rightarrow> int list"
    and issued :: "'s \<Rightarrow> int"
    and shut :: "'s \<Rightarrow> bool"
    and good :: "'s \<Rightarrow> bool"
  assumes good_step: "good s \<Longrightarrow> good (step op s)"
    and shut_step: "good s \<Longrightarrow> shut s \<Longrightarrow> shut (step op s) \<and> out op s = []"
    and live_step: "good s \<Longrightarrow> \<not> shut s \<Longrightarrow>
      shut (step op s) \<and> out op s = []
      \<or> (\<exists>n. issued (step op s) = issued s + int n
            \<and> out op s @ pending (step op s) = pending s @ upfrom (issued s) n)"
begin

lemma shut_deliveries: "good s \<Longrightarrow> shut s \<Longrightarrow> deliveries step out ops s = []"
  by (induction ops arbitrary: s) (use shut_step good_step in auto)

lemma consecutive_deliveries:
  assumes "good s" "pending s = upfrom k m" "issued s = k + int m"
  shows "deliveries step out ops s = upfrom k (length (deliveries step out ops s))"
  using assms
proof (induction ops arbitrary: s k m)
  case Nil
  then show ?case by simp
next
  case (Cons op ops)
  have good': "good (step op s)" using Cons.prems(1) by (rule good_step)
  show ?case
  proof (cases "shut s \<or> shut (step op s) \<and> out op s = []")
    case True
    then have "shut (step op s)" "out op s = []"
      using shut_step Cons.prems(1) by blast+
    then show ?thesis using shut_deliveries good' by simp
  next
    case False
    then obtain n where iss: "issued (step op s) = issued s + int n"
      and eq: "out op s @ pending (step op s) = pending s @ upfrom (issued s) n"
      using live_step [OF Cons.prems(1), of op] by blast
    have all: "out op s @ pending (step op s) = upfrom k (m + n)"
      using eq Cons.prems by (simp add: upfrom_append)
    let ?d = "length (out op s)"
    note parts = upfrom_prefix [OF all]
    have len: "?d + length (pending (step op s)) = m + n"
      using arg_cong [OF all, of length] by simp
    have "issued (step op s) = k + int ?d + int (length (pending (step op s)))"
      using iss Cons.prems(3) len by linarith
    then have IH: "deliveries step out ops (step op s)
        = upfrom (k + int ?d) (length (deliveries step out ops (step op s)))"
      using parts(2) by (intro Cons.IH good')
    show ?thesis using parts(1) IH by (simp add: upfrom_append)
  qed
qed

end

section \<open>Histories\<close>

text \<open>
  A relation between what happened so far and the state, kept by every operation, holds of the
  whole history of every sequence of operations.
\<close>

locale machine_history =
  fixes step :: "'op \<Rightarrow> 's \<Rightarrow> 's"
    and out :: "'op \<Rightarrow> 's \<Rightarrow> 'e list"
    and hist :: "'e list \<Rightarrow> 's \<Rightarrow> bool"
  assumes hist_step: "hist h s \<Longrightarrow> hist (h @ out op s) (step op s)"
begin

lemma hist_run: "hist h s \<Longrightarrow> hist (h @ deliveries step out ops s) (fold step ops s)"
proof (induction ops arbitrary: h s)
  case Nil
  then show ?case by simp
next
  case (Cons op ops)
  from hist_step [OF Cons.prems] show ?case using Cons.IH by fastforce
qed

lemma hist_deliveries: "hist [] s \<Longrightarrow> hist (deliveries step out ops s) (fold step ops s)"
  using hist_run [of "[]"] by simp

end

text \<open>\<open>justified need h\<close>: every event of \<open>h\<close> comes after the events it needs.\<close>

definition justified :: "('e \<Rightarrow> 'e list) \<Rightarrow> 'e list \<Rightarrow> bool" where
  "justified need h \<longleftrightarrow> (\<forall>i<length h. set (need (h ! i)) \<subseteq> set (take i h))"

lemma justified_Nil [simp]: "justified need []"
  by (simp add: justified_def)

lemma justified_snoc [simp]:
  "justified need (h @ [e]) \<longleftrightarrow> justified need h \<and> set (need e) \<subseteq> set h"
  by (auto simp: justified_def nth_append less_Suc_eq)

section \<open>Insertion-ordered dictionaries\<close>

text \<open>
  A Python dictionary from a key that the values carry themselves: the values in insertion order.
  \<open>key_put\<close> is assignment to a key, which keeps the place of a key that is present.
\<close>

definition key_find :: "('v \<Rightarrow> 'k) \<Rightarrow> 'k \<Rightarrow> 'v list \<Rightarrow> 'v option" where
  "key_find k i xs = find (\<lambda>x. k x = i) xs"

definition key_update :: "('v \<Rightarrow> 'k) \<Rightarrow> 'k \<Rightarrow> ('v \<Rightarrow> 'v) \<Rightarrow> 'v list \<Rightarrow> 'v list" where
  "key_update k i f xs = map (\<lambda>x. if k x = i then f x else x) xs"

definition key_remove :: "('v \<Rightarrow> 'k) \<Rightarrow> 'k \<Rightarrow> 'v list \<Rightarrow> 'v list" where
  "key_remove k i xs = filter (\<lambda>x. k x \<noteq> i) xs"

definition key_put :: "('v \<Rightarrow> 'k) \<Rightarrow> 'v \<Rightarrow> 'v list \<Rightarrow> 'v list" where
  "key_put k v xs =
     (if k v \<in> k ` set xs then key_update k (k v) (\<lambda>_. v) xs else xs @ [v])"

lemma key_find_SomeD: "key_find k i xs = Some x \<Longrightarrow> x \<in> set xs \<and> k x = i"
  by (induction xs) (auto simp: key_find_def split: if_splits)

lemma key_find_None: "key_find k i xs = None \<longleftrightarrow> i \<notin> k ` set xs"
  by (auto simp: key_find_def find_None_iff)

lemma key_find_mem: "distinct (map k xs) \<Longrightarrow> x \<in> set xs \<Longrightarrow> key_find k (k x) xs = Some x"
  by (induction xs) (auto simp: key_find_def)

lemma key_find_eq_Some:
  "distinct (map k xs) \<Longrightarrow> key_find k i xs = Some x \<longleftrightarrow> x \<in> set xs \<and> k x = i"
  by (auto dest: key_find_SomeD intro: key_find_mem)

lemma set_key_update:
  "set (key_update k i f xs) = {x \<in> set xs. k x \<noteq> i} \<union> f ` {x \<in> set xs. k x = i}"
  by (auto simp: key_update_def)

lemma set_key_remove [simp]: "set (key_remove k i xs) = {x \<in> set xs. k x \<noteq> i}"
  by (auto simp: key_remove_def)

lemma map_key_update [simp]:
  "(\<And>x. k x = i \<Longrightarrow> k (f x) = i) \<Longrightarrow> map k (key_update k i f xs) = map k xs"
  by (simp add: key_update_def)

lemma length_key_update [simp]: "length (key_update k i f xs) = length xs"
  by (simp add: key_update_def)

lemma length_key_remove: "length (key_remove k i xs) \<le> length xs"
  by (simp add: key_remove_def)

lemma distinct_key_remove: "distinct (map k xs) \<Longrightarrow> distinct (map k (key_remove k i xs))"
  by (simp add: key_remove_def distinct_map_filter)

lemma key_put_fresh: "k v \<notin> k ` set xs \<Longrightarrow> key_put k v xs = xs @ [v]"
  by (simp add: key_put_def)

lemma key_put_present: "k v \<in> k ` set xs \<Longrightarrow> key_put k v xs = key_update k (k v) (\<lambda>_. v) xs"
  by (simp add: key_put_def)

section \<open>Code that raises without state\<close>

definition and_try :: "'e + 'a \<Rightarrow> ('a \<Rightarrow> 'e + 'b) \<Rightarrow> 'e + 'b" where
  "and_try m f = (case m of Inl e \<Rightarrow> Inl e | Inr a \<Rightarrow> f a)"

text \<open>\<^verbatim>\<open>if not ok: raise e\<close>, then go on.\<close>

definition require :: "bool \<Rightarrow> 'e \<Rightarrow> 'e + 'b \<Rightarrow> 'e + 'b" where
  "require good e m = (if good then m else Inl e)"

lemma and_try_Inr [outcome_simps]: "and_try m f = Inr b \<longleftrightarrow> (\<exists>a. m = Inr a \<and> f a = Inr b)"
  by (cases m) (auto simp: and_try_def)

lemma and_try_Inl: "and_try m f = Inl e \<longleftrightarrow> m = Inl e \<or> (\<exists>a. m = Inr a \<and> f a = Inl e)"
  by (cases m) (auto simp: and_try_def)

lemma and_try_simps [simp]: "and_try (Inr a) f = f a" "and_try (Inl e) f = Inl e"
  by (simp_all add: and_try_def)

lemma require_Inr [outcome_simps]: "require good e m = Inr b \<longleftrightarrow> good \<and> m = Inr b"
  by (simp add: require_def)

text \<open>The first failure of a loop over a list.\<close>

fun for_each :: "('a \<Rightarrow> 'e + unit) \<Rightarrow> 'a list \<Rightarrow> 'e + unit" where
  "for_each f [] = Inr ()"
| "for_each f (x # xs) = and_try (f x) (\<lambda>_. for_each f xs)"

lemma for_each_Inr [outcome_simps]: "for_each f xs = Inr u \<longleftrightarrow> (\<forall>x\<in>set xs. f x = Inr ())"
  by (induction xs) (auto simp: and_try_Inr)

text \<open>The results of a loop over a list, joined in order, unless one step raises.\<close>

fun gather :: "('a \<Rightarrow> 'e + 'b list) \<Rightarrow> 'a list \<Rightarrow> 'e + 'b list" where
  "gather f [] = Inr []"
| "gather f (x # xs) = and_try (f x) (\<lambda>ys. and_try (gather f xs) (\<lambda>zs. Inr (ys @ zs)))"

text \<open>The result of every step of a loop over a list, unless one raises.\<close>

fun traverse :: "('a \<Rightarrow> 'e + 'b) \<Rightarrow> 'a list \<Rightarrow> 'e + 'b list" where
  "traverse f [] = Inr []"
| "traverse f (x # xs) = and_try (f x) (\<lambda>y. and_try (traverse f xs) (\<lambda>ys. Inr (y # ys)))"

lemma traverse_Inr [outcome_simps]:
  "traverse f xs = Inr ys \<longleftrightarrow> list_all2 (\<lambda>x y. f x = Inr y) xs ys"
  by (induction xs arbitrary: ys) (auto simp: and_try_Inr list_all2_Cons1)

text \<open>A loop that carries a state and stops at the first error.\<close>

fun try_fold :: "('s \<Rightarrow> 'a \<Rightarrow> 'e + 's) \<Rightarrow> 's \<Rightarrow> 'a list \<Rightarrow> 'e + 's" where
  "try_fold f s [] = Inr s"
| "try_fold f s (x # xs) = and_try (f s x) (\<lambda>s'. try_fold f s' xs)"

lemma try_fold_append: "try_fold f s (xs @ ys) = and_try (try_fold f s xs) (\<lambda>s'. try_fold f s' ys)"
  by (induction xs arbitrary: s) (auto simp: and_try_def split: sum.split)

lemma gather_total: "(\<And>x. x \<in> set xs \<Longrightarrow> \<exists>ys. f x = Inr ys) \<Longrightarrow> \<exists>ys. gather f xs = Inr ys"
  by (induction xs) (auto simp: and_try_def split: sum.split, metis sum.distinct(1))

lemma gather_Nil: "gather f xs = Inr [] \<longleftrightarrow> (\<forall>x\<in>set xs. f x = Inr [])"
  by (induction xs) (auto simp: and_try_Inr)

section \<open>Numbers\<close>

text \<open>
  The value of a number, Booleans included, and \<^verbatim>\<open><\<close> on two numbers; \<open>None\<close> is the
  \<^verbatim>\<open>TypeError\<close> of a comparison with something that is not a number.
\<close>

fun py_num :: "pyval \<Rightarrow> pyfloat option" where
  "py_num (PyBool b) = Some (Finite (if b then 1 else 0))"
| "py_num (PyInt i) = Some (Finite (of_int i))"
| "py_num (PyFloat f) = Some f"
| "py_num _ = None"

fun float_less :: "pyfloat \<Rightarrow> pyfloat \<Rightarrow> bool" where
  "float_less (Finite a) (Finite b) = (a < b)"
| "float_less (Finite a) PosInf = True"
| "float_less NegInf (Finite b) = True"
| "float_less NegInf PosInf = True"
| "float_less _ _ = False"

definition py_less :: "pyval \<Rightarrow> pyval \<Rightarrow> bool option" where
  "py_less a b =
     (case (py_num a, py_num b) of (Some x, Some y) \<Rightarrow> Some (float_less x y) | _ \<Rightarrow> None)"

fun py_truthy :: "pyval \<Rightarrow> bool" where
  "py_truthy PyNone = False"
| "py_truthy (PyBool b) = b"
| "py_truthy (PyInt i) = (i \<noteq> 0)"
| "py_truthy (PyFloat f) = (f \<noteq> Finite 0)"
| "py_truthy (PyStr s) = (s \<noteq> [])"
| "py_truthy (PyList xs) = (xs \<noteq> [])"
| "py_truthy (PyTuple xs) = (xs \<noteq> [])"
| "py_truthy (PySet xs) = (xs \<noteq> [])"
| "py_truthy (PyDict d) = (d \<noteq> [])"
| "py_truthy (PyType c) = True"
| "py_truthy (PyObj c) = True"

end
