(* ===== verification/Recovery.thy ===== *)
theory Recovery
  imports Prelude
begin

text \<open>
  The bounded recovery policy and its ledger,
  \<^verbatim>\<open>services/agent_runtime/workbench_agent_runtime/recovery.py\<close>.

  A policy is parsed fail-closed from a manifest value. A ledger holds one task's recovery
  state; its inputs are observations, verifications and acknowledgements of runtime-owned
  actions. Every raise is an \<open>Inl\<close> outcome; the ledger keeps what was assigned before it.
\<close>

section \<open>Vocabulary\<close>

datatype recovery_code =
    RECOVERY_POLICY_MALFORMED
  | RECOVERY_POLICY_UNKNOWN_ACTION
  | RECOVERY_POLICY_EMPTY_ACTIONS
  | RECOVERY_POLICY_INVALID_BUDGET
  | RECOVERY_POLICY_ILLEGAL_TRANSITION
  | RECOVERY_POLICY_BUDGET_EXHAUSTED
  | RECOVERY_POLICY_EVIDENCE_NOT_FRESH
  | RECOVERY_POLICY_EVIDENCE_UNOBSERVED
  | RECOVERY_POLICY_RUNTIME_OWNED_ACTION
  | RECOVERY_POLICY_TERMINAL
  | RECOVERY_SELECTED \<comment> \<open>the literal \<^verbatim>\<open>"recovery_selected"\<close> of a granted request\<close>

definition MIN_MAX_ATTEMPTS :: int where "MIN_MAX_ATTEMPTS = 1"
definition MAX_MAX_ATTEMPTS :: int where "MAX_MAX_ATTEMPTS = 10"
definition MIN_MAX_TICKS :: int where "MIN_MAX_TICKS = 1"
definition MAX_MAX_TICKS :: int where "MAX_MAX_TICKS = 100"
definition DEFAULT_MAX_ATTEMPTS :: int where "DEFAULT_MAX_ATTEMPTS = 3"
definition DEFAULT_MAX_TICKS :: int where "DEFAULT_MAX_TICKS = 30"
definition RUNTIME_AUTHORITY :: string where "RUNTIME_AUTHORITY = ''trusted-runtime''"
definition POLICY_VERSION :: string where "POLICY_VERSION = ''recovery-policy-v1''"

lemmas recovery_constants =
  MIN_MAX_ATTEMPTS_def MAX_MAX_ATTEMPTS_def MIN_MAX_TICKS_def MAX_MAX_TICKS_def
  DEFAULT_MAX_ATTEMPTS_def DEFAULT_MAX_TICKS_def RUNTIME_AUTHORITY_def POLICY_VERSION_def

datatype recovery_action =
  RETRY_OBSERVATION | RETRY_ACTION | ASK_CONFIRM | SAFE_STOP | ABORT

datatype recovery_hint =
  HINT_RE_OBSERVE | HINT_RETRY_ACTION | HINT_ASK_CONFIRM | HINT_ABORT | HINT_NONE

datatype recovery_state =
  IDLE | OBSERVING | ACTING | AWAITING_CONFIRMATION | STOPPING | ABORTED | COMPLETE

text \<open>The string values of the enumerations, and the constructor calls that read them back.\<close>

fun recovery_action_value :: "recovery_action \<Rightarrow> string" where
  "recovery_action_value RETRY_OBSERVATION = ''retry_observation''"
| "recovery_action_value RETRY_ACTION = ''retry_action''"
| "recovery_action_value ASK_CONFIRM = ''ask_confirm''"
| "recovery_action_value SAFE_STOP = ''safe_stop''"
| "recovery_action_value ABORT = ''abort''"

fun recovery_hint_value :: "recovery_hint \<Rightarrow> string" where
  "recovery_hint_value HINT_RE_OBSERVE = ''re_observe''"
| "recovery_hint_value HINT_RETRY_ACTION = ''retry_action''"
| "recovery_hint_value HINT_ASK_CONFIRM = ''ask_confirm''"
| "recovery_hint_value HINT_ABORT = ''abort''"
| "recovery_hint_value HINT_NONE = ''none''"

definition recovery_action_of :: "string \<Rightarrow> recovery_action option" where
  "recovery_action_of s =
     List.find (\<lambda>a. recovery_action_value a = s)
       [RETRY_OBSERVATION, RETRY_ACTION, ASK_CONFIRM, SAFE_STOP, ABORT]"

definition recovery_hint_of :: "string \<Rightarrow> recovery_hint option" where
  "recovery_hint_of s =
     List.find (\<lambda>h. recovery_hint_value h = s)
       [HINT_RE_OBSERVE, HINT_RETRY_ACTION, HINT_ASK_CONFIRM, HINT_ABORT, HINT_NONE]"

definition MANIFEST_ALIASES :: "string \<rightharpoonup> string" where
  "MANIFEST_ALIASES =
     [''re_observe'' \<mapsto> recovery_action_value RETRY_OBSERVATION,
      ''reobserve'' \<mapsto> recovery_action_value RETRY_OBSERVATION]"

fun HINT_TO_ACTION :: "recovery_hint \<Rightarrow> recovery_action option" where
  "HINT_TO_ACTION HINT_RE_OBSERVE = Some RETRY_OBSERVATION"
| "HINT_TO_ACTION HINT_RETRY_ACTION = Some RETRY_ACTION"
| "HINT_TO_ACTION HINT_ASK_CONFIRM = Some ASK_CONFIRM"
| "HINT_TO_ACTION HINT_ABORT = Some ABORT"
| "HINT_TO_ACTION HINT_NONE = None"

definition ACTION_PREFERENCE :: "recovery_action list" where
  "ACTION_PREFERENCE = [RETRY_OBSERVATION, RETRY_ACTION, ASK_CONFIRM, SAFE_STOP, ABORT]"

definition RUNTIME_OWNED_ACTIONS :: "recovery_action set" where
  "RUNTIME_OWNED_ACTIONS = {SAFE_STOP}"

definition EVIDENCE_REASON_CODES :: "string set" where
  "EVIDENCE_REASON_CODES =
     {''stale_observation'', ''evidence_missing'', ''target_not_observed'',
      ''confidence_below_threshold'', ''conflicting_observations''}"

definition TERMINAL_ACTIONS :: "recovery_action set" where
  "TERMINAL_ACTIONS = {SAFE_STOP, ABORT}"

fun STATE_FOR_ACTION :: "recovery_action \<Rightarrow> recovery_state" where
  "STATE_FOR_ACTION RETRY_OBSERVATION = OBSERVING"
| "STATE_FOR_ACTION RETRY_ACTION = ACTING"
| "STATE_FOR_ACTION ASK_CONFIRM = AWAITING_CONFIRMATION"
| "STATE_FOR_ACTION SAFE_STOP = STOPPING"
| "STATE_FOR_ACTION ABORT = ABORTED"

definition DEFAULT_SUCCESSORS :: "recovery_state set" where
  "DEFAULT_SUCCESSORS = {OBSERVING, ACTING, AWAITING_CONFIRMATION, COMPLETE, STOPPING, ABORTED}"

fun LEGAL_TRANSITIONS :: "recovery_state \<Rightarrow> recovery_state set" where
  "LEGAL_TRANSITIONS IDLE = DEFAULT_SUCCESSORS"
| "LEGAL_TRANSITIONS OBSERVING = DEFAULT_SUCCESSORS"
| "LEGAL_TRANSITIONS ACTING = DEFAULT_SUCCESSORS"
| "LEGAL_TRANSITIONS AWAITING_CONFIRMATION = {OBSERVING, ACTING, COMPLETE, STOPPING, ABORTED}"
| "LEGAL_TRANSITIONS STOPPING = {}"
| "LEGAL_TRANSITIONS ABORTED = {}"
| "LEGAL_TRANSITIONS COMPLETE = {IDLE}"

definition transition_is_legal :: "recovery_state \<Rightarrow> recovery_state \<Rightarrow> bool" where
  "transition_is_legal current following \<longleftrightarrow> following \<in> LEGAL_TRANSITIONS current"

section \<open>Policy\<close>

record recovery_policy =
  rp_actions :: "recovery_action set"
  rp_max_attempts :: int
  rp_max_recovery_ticks :: int
  rp_requires_fresh_evidence :: bool
  rp_enabled :: bool
  rp_policy_version :: string

definition ordered_actions :: "recovery_policy \<Rightarrow> recovery_action list" where
  "ordered_actions p = filter (\<lambda>a. a \<in> rp_actions p) ACTION_PREFERENCE"

definition runtime_owned_actions :: "recovery_policy \<Rightarrow> recovery_action set" where
  "runtime_owned_actions p = rp_actions p \<inter> RUNTIME_OWNED_ACTIONS"

definition disabled :: recovery_policy where
  "disabled =
     \<lparr>rp_actions = {}, rp_max_attempts = DEFAULT_MAX_ATTEMPTS,
      rp_max_recovery_ticks = DEFAULT_MAX_TICKS, rp_requires_fresh_evidence = True,
      rp_enabled = False, rp_policy_version = POLICY_VERSION\<rparr>"

definition bounded_int :: "pyval \<Rightarrow> int \<Rightarrow> int \<Rightarrow> recovery_code + int" where
  "bounded_int value minimum maximum =
     (case value of
        PyInt n \<Rightarrow>
          if minimum \<le> n \<and> n \<le> maximum then Inr n else Inl RECOVERY_POLICY_INVALID_BUDGET
      | _ \<Rightarrow> Inl RECOVERY_POLICY_INVALID_BUDGET)"

text \<open>The loop over \<^verbatim>\<open>raw_actions\<close>; the accumulator is the set built so far.\<close>

fun parse_actions :: "pyval list \<Rightarrow> recovery_action set \<Rightarrow> recovery_code + recovery_action set" where
  "parse_actions [] actions = Inr actions"
| "parse_actions (entry # rest) actions =
     (case entry of
        PyStr s \<Rightarrow>
          (let normalized = (case MANIFEST_ALIASES s of Some t \<Rightarrow> t | None \<Rightarrow> s) in
           case recovery_action_of normalized of
             None \<Rightarrow> Inl RECOVERY_POLICY_UNKNOWN_ACTION
           | Some a \<Rightarrow> parse_actions rest (insert a actions))
      | _ \<Rightarrow> Inl RECOVERY_POLICY_UNKNOWN_ACTION)"

text \<open>What a \<^verbatim>\<open>for\<close> loop over the value yields; \<open>None\<close> where the guard refuses the value.\<close>

fun raw_entries :: "pyval \<Rightarrow> pyval list option" where
  "raw_entries (PyList xs) = Some xs"
| "raw_entries (PyTuple xs) = Some xs"
| "raw_entries (PySet xs) = Some xs"
| "raw_entries (PyDict kvs) = Some (map (PyStr \<circ> fst) kvs)"
| "raw_entries _ = None"

definition POLICY_KEYS :: "string set" where
  "POLICY_KEYS =
     {''allowed'', ''max_attempts'', ''requires_fresh_evidence'', ''max_recovery_ticks'',
      ''allow_safe_stop''}"

definition parse_mapping :: "(string \<times> pyval) list \<Rightarrow> recovery_code + recovery_policy" where
  "parse_mapping payload =
     (if \<exists>kv\<in>set payload. fst kv \<notin> POLICY_KEYS then Inl RECOVERY_POLICY_MALFORMED
      else case raw_entries (py_get payload ''allowed'' (PyTuple [])) of
        None \<Rightarrow> Inl RECOVERY_POLICY_MALFORMED
      | Some raw_actions \<Rightarrow>
        (case parse_actions raw_actions {} of
           Inl c \<Rightarrow> Inl c
         | Inr actions \<Rightarrow>
           if actions = {} then Inl RECOVERY_POLICY_EMPTY_ACTIONS
           else if actions \<inter> RUNTIME_OWNED_ACTIONS \<noteq> {}
                \<and> py_get payload ''allow_safe_stop'' (PyBool True) \<noteq> PyBool True
           then Inl RECOVERY_POLICY_RUNTIME_OWNED_ACTION
           else case bounded_int (py_get payload ''max_attempts'' (PyInt DEFAULT_MAX_ATTEMPTS))
                       MIN_MAX_ATTEMPTS MAX_MAX_ATTEMPTS of
             Inl c \<Rightarrow> Inl c
           | Inr max_attempts \<Rightarrow>
             (case bounded_int (py_get payload ''max_recovery_ticks'' (PyInt DEFAULT_MAX_TICKS))
                     MIN_MAX_TICKS MAX_MAX_TICKS of
                Inl c \<Rightarrow> Inl c
              | Inr max_ticks \<Rightarrow>
                (case py_get payload ''requires_fresh_evidence'' (PyBool True) of
                   PyBool requires_fresh \<Rightarrow>
                     Inr \<lparr>rp_actions = actions, rp_max_attempts = max_attempts,
                          rp_max_recovery_ticks = max_ticks,
                          rp_requires_fresh_evidence = requires_fresh, rp_enabled = True,
                          rp_policy_version = POLICY_VERSION\<rparr>
                 | _ \<Rightarrow> Inl RECOVERY_POLICY_MALFORMED))))"

fun parse :: "pyval \<Rightarrow> recovery_code + recovery_policy" where
  "parse PyNone = Inr disabled"
| "parse (PyDict payload) = parse_mapping payload"
| "parse _ = Inl RECOVERY_POLICY_MALFORMED"

section \<open>Evidence and decisions\<close>

record evidence_stamp =
  es_observed_at :: string
  es_fresh :: bool
  es_provenance_valid :: bool
  es_sequence_no :: int
  es_evidence_refs :: "string list"

record recovery_decision =
  rd_recovery_id :: string
  rd_task_id :: string
  rd_action :: recovery_action
  rd_state :: recovery_state
  rd_attempt :: int
  rd_max_attempts :: int
  rd_ticks :: int
  rd_max_recovery_ticks :: int
  rd_reason_code :: recovery_code
  rd_reason :: string
  rd_policy_version :: string
  rd_terminal :: bool
  rd_runtime_owned :: bool
  rd_evidence_refs :: "string list"

definition event_type :: "recovery_decision \<Rightarrow> string" where
  "event_type d = (if rd_terminal d then ''recovery_complete'' else ''recovery_started'')"

text \<open>
  What \<^verbatim>\<open>record_verification\<close> reads of its argument through \<^verbatim>\<open>getattr\<close>. A status or reason is
  the member of a string enumeration or any other object, of which the code takes \<^verbatim>\<open>str(..)\<close>.
\<close>

datatype enum_or_object = EnumMember string | OtherObject string

datatype hint_object =
    HintNone
  | HintAction recovery_action
  | HintMember recovery_hint
  | HintString string
  | HintOther

record verification_view =
  vv_status :: enum_or_object
  vv_verification_id :: pyval
  vv_evidence_refs :: "string list"
  vv_verified_at :: string
  vv_recovery_hint :: hint_object
  vv_reason_code :: "enum_or_object option"

fun status_value :: "enum_or_object \<Rightarrow> string" where
  "status_value (EnumMember v) = v"
| "status_value (OtherObject s) = s"

fun reason_value :: "enum_or_object option \<Rightarrow> string" where
  "reason_value None = ''''"
| "reason_value (Some (EnumMember v)) = v"
| "reason_value (Some (OtherObject s)) = s"

fun hint_to_action :: "hint_object \<Rightarrow> recovery_action option" where
  "hint_to_action HintNone = None"
| "hint_to_action (HintAction a) = Some a"
| "hint_to_action (HintMember h) = HINT_TO_ACTION h"
| "hint_to_action (HintString s) =
     (case recovery_action_of s of
        Some a \<Rightarrow> Some a
      | None \<Rightarrow> (case recovery_hint_of s of Some h \<Rightarrow> HINT_TO_ACTION h | None \<Rightarrow> None))"
| "hint_to_action HintOther = None"

section \<open>The ledger\<close>

record recovery_ledger =
  rl_policy :: recovery_policy
  rl_recovery_id :: string
  rl_task_id :: string
  rl_state :: recovery_state
  rl_attempt :: int
  rl_ticks :: int
  rl_evidence :: "evidence_stamp option"
  rl_failed_at :: string
  rl_failed_sequence :: int
  rl_failed_frontier :: int
  rl_completed_by :: "string option"

definition non_blank :: "pyval \<Rightarrow> recovery_code + string" where
  "non_blank value =
     (case value of
        PyStr s \<Rightarrow> if py_blank s then Inl RECOVERY_POLICY_MALFORMED else Inr s
      | _ \<Rightarrow> Inl RECOVERY_POLICY_MALFORMED)"

definition new_ledger :: "recovery_policy \<Rightarrow> pyval \<Rightarrow> pyval \<Rightarrow> recovery_code + recovery_ledger" where
  "new_ledger policy rid tid =
     (case non_blank rid of
        Inl c \<Rightarrow> Inl c
      | Inr r \<Rightarrow>
        (case non_blank tid of
           Inl c \<Rightarrow> Inl c
         | Inr t \<Rightarrow>
           Inr \<lparr>rl_policy = policy, rl_recovery_id = r, rl_task_id = t, rl_state = IDLE,
                rl_attempt = 0, rl_ticks = 0, rl_evidence = None, rl_failed_at = '''',
                rl_failed_sequence = -1, rl_failed_frontier = -1, rl_completed_by = None\<rparr>))"

definition terminal :: "recovery_ledger \<Rightarrow> bool" where
  "terminal l \<longleftrightarrow> rl_state l \<in> {STOPPING, ABORTED}"

definition record_observation :: "evidence_stamp \<Rightarrow> (recovery_ledger, recovery_code, unit) action" where
  "record_observation stamp l =
     (case rl_evidence l of
        Some e \<Rightarrow>
          if es_sequence_no stamp < es_sequence_no e then return () l
          else return () (l\<lparr>rl_evidence := Some stamp\<rparr>)
      | None \<Rightarrow> return () (l\<lparr>rl_evidence := Some stamp\<rparr>))"

definition advance :: "recovery_state \<Rightarrow> (recovery_ledger, recovery_code, unit) action" where
  "advance following l =
     (if transition_is_legal (rl_state l) following then return () (l\<lparr>rl_state := following\<rparr>)
      else raise RECOVERY_POLICY_ILLEGAL_TRANSITION l)"

definition acknowledge_runtime_action ::
    "recovery_action \<Rightarrow> string \<Rightarrow> (recovery_ledger, recovery_code, unit) action" where
  "acknowledge_runtime_action act authority l =
     (if act \<in> RUNTIME_OWNED_ACTIONS \<and> authority \<noteq> RUNTIME_AUTHORITY
      then raise RECOVERY_POLICY_RUNTIME_OWNED_ACTION l
      else if act \<in> TERMINAL_ACTIONS \<and> rl_state l \<noteq> STATE_FOR_ACTION act
      then advance (STATE_FOR_ACTION act) l
      else return () l)"

definition evidence_is_new :: "recovery_ledger \<Rightarrow> bool" where
  "evidence_is_new l \<longleftrightarrow>
     (case rl_evidence l of
        None \<Rightarrow> False
      | Some stamp \<Rightarrow>
          es_fresh stamp \<and> es_provenance_valid stamp
          \<and> es_sequence_no stamp > rl_failed_sequence l)"

definition completion_gate :: "string list \<Rightarrow> recovery_ledger \<Rightarrow> recovery_code option" where
  "completion_gate refs l =
     (if rl_attempt l > 0 then
        (case rl_evidence l of
           None \<Rightarrow> Some RECOVERY_POLICY_EVIDENCE_NOT_FRESH
         | Some stamp \<Rightarrow>
             if es_sequence_no stamp \<le> rl_failed_frontier l
             then Some RECOVERY_POLICY_EVIDENCE_NOT_FRESH
             else if \<not> (es_fresh stamp \<and> es_provenance_valid stamp)
             then Some RECOVERY_POLICY_EVIDENCE_NOT_FRESH
             else if set refs \<inter> set (es_evidence_refs stamp) = {}
             then Some RECOVERY_POLICY_EVIDENCE_UNOBSERVED
             else None)
      else None)"

definition complete :: "pyval \<Rightarrow> string list \<Rightarrow> (recovery_ledger, recovery_code, unit) action" where
  "complete verification_id refs l =
     (if rl_state l = COMPLETE then return () l
      else case completion_gate refs l of
        Some c \<Rightarrow> raise c l
      | None \<Rightarrow>
          and_then (advance COMPLETE)
            (\<lambda>_ l'. return () (l'\<lparr>rl_completed_by :=
               (case verification_id of PyStr s \<Rightarrow> Some s | _ \<Rightarrow> None)\<rparr>)) l)"

definition make_decision ::
    "recovery_action \<Rightarrow> recovery_code \<Rightarrow> string \<Rightarrow> recovery_ledger \<Rightarrow> recovery_decision" where
  "make_decision act code reason l =
     \<lparr>rd_recovery_id = rl_recovery_id l, rd_task_id = rl_task_id l, rd_action = act,
      rd_state = rl_state l, rd_attempt = rl_attempt l,
      rd_max_attempts = rp_max_attempts (rl_policy l), rd_ticks = rl_ticks l,
      rd_max_recovery_ticks = rp_max_recovery_ticks (rl_policy l), rd_reason_code = code,
      rd_reason = reason, rd_policy_version = POLICY_VERSION,
      rd_terminal = (act \<in> TERMINAL_ACTIONS), rd_runtime_owned = (act \<in> RUNTIME_OWNED_ACTIONS),
      rd_evidence_refs = (case rl_evidence l of Some e \<Rightarrow> es_evidence_refs e | None \<Rightarrow> [])\<rparr>"

definition consume_evidence :: "recovery_ledger \<Rightarrow> recovery_ledger" where
  "consume_evidence l =
     (case rl_evidence l of
        Some e \<Rightarrow> l\<lparr>rl_failed_sequence := es_sequence_no e\<rparr>
      | None \<Rightarrow> l)"

definition decide ::
    "recovery_action \<Rightarrow> recovery_code \<Rightarrow> string
       \<Rightarrow> (recovery_ledger, recovery_code, recovery_decision option) action" where
  "decide act code reason =
     and_then (advance (STATE_FOR_ACTION act))
       (\<lambda>_ l. let l' = consume_evidence l in return (Some (make_decision act code reason l')) l')"

text \<open>The part of \<^verbatim>\<open>record_verification\<close> that books a failed attempt.\<close>

definition book_failure :: "verification_view \<Rightarrow> recovery_ledger \<Rightarrow> recovery_ledger" where
  "book_failure v l =
     (let l1 = l\<lparr>rl_attempt := rl_attempt l + 1, rl_ticks := rl_ticks l + 1,
                 rl_failed_at := vv_verified_at v\<rparr>
      in case rl_evidence l1 of
           Some e \<Rightarrow> l1\<lparr>rl_failed_frontier := es_sequence_no e\<rparr>
         | None \<Rightarrow> l1)"

definition budget_exhausted :: "recovery_ledger \<Rightarrow> bool" where
  "budget_exhausted l \<longleftrightarrow>
     rl_attempt l > rp_max_attempts (rl_policy l)
     \<or> rl_ticks l > rp_max_recovery_ticks (rl_policy l)"

definition exhausted_reason :: "recovery_ledger \<Rightarrow> string" where
  "exhausted_reason l =
     ''recovery budget exhausted at attempt '' @ show_int (rl_attempt l) @ '' of ''
     @ show_int (rp_max_attempts (rl_policy l)) @ '' and tick '' @ show_int (rl_ticks l)
     @ '' of '' @ show_int (rp_max_recovery_ticks (rl_policy l))"

definition disallowed_reason :: "recovery_action \<Rightarrow> string" where
  "disallowed_reason candidate =
     ''the policy does not allow '' @ recovery_action_value candidate"

definition requested_reason :: "recovery_action \<Rightarrow> string" where
  "requested_reason candidate =
     ''the verification requested '' @ recovery_action_value candidate"

definition observe_first_reason :: string where
  "observe_first_reason =
     ''an action retry was refused because no fresh provenance-valid observation '' @
     ''arrived after the failed attempt; observing again first''"

definition no_observation_reason :: string where
  "no_observation_reason =
     ''an action retry needs fresh provenance-valid evidence and the policy allows '' @
     ''no observation retry''"

text \<open>The part that chooses the next step once the failure is booked.\<close>

definition choose_step ::
    "verification_view \<Rightarrow> (recovery_ledger, recovery_code, recovery_decision option) action" where
  "choose_step v l =
     (if budget_exhausted l
      then decide ABORT RECOVERY_POLICY_BUDGET_EXHAUSTED (exhausted_reason l) l
      else case hint_to_action (vv_recovery_hint v) of
        None \<Rightarrow> return None l
      | Some candidate \<Rightarrow>
          if candidate \<notin> rp_actions (rl_policy l)
          then decide ABORT RECOVERY_POLICY_UNKNOWN_ACTION
                 (disallowed_reason candidate) l
          else if candidate = RETRY_ACTION \<and> rp_requires_fresh_evidence (rl_policy l)
                  \<and> reason_value (vv_reason_code v) \<in> EVIDENCE_REASON_CODES
                  \<and> \<not> evidence_is_new l
          then (if RETRY_OBSERVATION \<in> rp_actions (rl_policy l)
                then decide RETRY_OBSERVATION RECOVERY_POLICY_EVIDENCE_NOT_FRESH
                       observe_first_reason l
                else decide ABORT RECOVERY_POLICY_EVIDENCE_NOT_FRESH
                       no_observation_reason l)
          else decide candidate RECOVERY_SELECTED
                 (requested_reason candidate) l)"

definition record_verification ::
    "verification_view \<Rightarrow> (recovery_ledger, recovery_code, recovery_decision option) action" where
  "record_verification v l =
     (if status_value (vv_status v) = ''confirmed''
      then and_then (complete (vv_verification_id v) (vv_evidence_refs v)) (\<lambda>_. return None) l
      else if \<not> rp_enabled (rl_policy l) then return None l
      else if terminal l then raise RECOVERY_POLICY_TERMINAL l
      else choose_step v (book_failure v l))"

section \<open>Operation sequences\<close>

text \<open>A caller's use of one ledger: the three inputs in any order.\<close>

datatype ledger_op =
    RecordObservation evidence_stamp
  | Acknowledge recovery_action string
  | RecordVerification verification_view

fun ledger_exec ::
    "ledger_op \<Rightarrow> (recovery_ledger, recovery_code, recovery_decision option) action" where
  "ledger_exec (RecordObservation e) l =
     and_then (record_observation e) (\<lambda>_. return None) l"
| "ledger_exec (Acknowledge a auth) l =
     and_then (acknowledge_runtime_action a auth) (\<lambda>_. return None) l"
| "ledger_exec (RecordVerification v) l = record_verification v l"

definition ledger_step :: "ledger_op \<Rightarrow> recovery_ledger \<Rightarrow> recovery_ledger" where
  "ledger_step op l = snd (ledger_exec op l)"

text \<open>The decisions handed to the caller, in order.\<close>

fun ledger_decisions :: "ledger_op list \<Rightarrow> recovery_ledger \<Rightarrow> recovery_decision list" where
  "ledger_decisions [] l = []"
| "ledger_decisions (op # ops) l =
     (case ledger_exec op l of
        (Inr (Some d), l') \<Rightarrow> d # ledger_decisions ops l'
      | (_, l') \<Rightarrow> ledger_decisions ops l')"

section \<open>What one operation does\<close>

lemmas ledger_defs =
  record_observation_def advance_def acknowledge_runtime_action_def complete_def
  decide_def choose_step_def record_verification_def ledger_step_def

text \<open>Closed states: recovery takes no step out of them.\<close>

definition closed :: "recovery_state \<Rightarrow> bool" where
  "closed st \<longleftrightarrow> st \<in> {STOPPING, ABORTED, COMPLETE}"

lemma legal_into_action_iff:
  "transition_is_legal st (STATE_FOR_ACTION act) \<longleftrightarrow>
     \<not> closed st \<and> \<not> (st = AWAITING_CONFIRMATION \<and> act = ASK_CONFIRM)"
  by (cases st; cases act)
    (auto simp: transition_is_legal_def DEFAULT_SUCCESSORS_def closed_def)

lemma legal_into_complete_iff: "transition_is_legal st COMPLETE \<longleftrightarrow> \<not> closed st"
  by (cases st) (auto simp: transition_is_legal_def DEFAULT_SUCCESSORS_def closed_def)

lemma consume_evidence_simps [simp]:
  "rl_policy (consume_evidence l) = rl_policy l"
  "rl_state (consume_evidence l) = rl_state l"
  "rl_attempt (consume_evidence l) = rl_attempt l"
  "rl_ticks (consume_evidence l) = rl_ticks l"
  "rl_evidence (consume_evidence l) = rl_evidence l"
  "rl_failed_frontier (consume_evidence l) = rl_failed_frontier l"
  "rl_failed_sequence (consume_evidence l) =
     (case rl_evidence l of Some e \<Rightarrow> es_sequence_no e | None \<Rightarrow> rl_failed_sequence l)"
  by (simp_all add: consume_evidence_def split: option.split)

lemma book_failure_simps [simp]:
  "rl_policy (book_failure v l) = rl_policy l"
  "rl_state (book_failure v l) = rl_state l"
  "rl_attempt (book_failure v l) = rl_attempt l + 1"
  "rl_ticks (book_failure v l) = rl_ticks l + 1"
  "rl_evidence (book_failure v l) = rl_evidence l"
  "rl_failed_sequence (book_failure v l) = rl_failed_sequence l"
  "rl_failed_frontier (book_failure v l) =
     (case rl_evidence l of Some e \<Rightarrow> es_sequence_no e | None \<Rightarrow> rl_failed_frontier l)"
  by (simp_all add: book_failure_def Let_def split: option.split)

lemma decide_eq:
  "decide act code reason l =
     (if closed (rl_state l) \<or> rl_state l = AWAITING_CONFIRMATION \<and> act = ASK_CONFIRM
      then (Inl RECOVERY_POLICY_ILLEGAL_TRANSITION, l)
      else let l' = consume_evidence (l\<lparr>rl_state := STATE_FOR_ACTION act\<rparr>)
           in (Inr (Some (make_decision act code reason l')), l'))"
  by (auto simp: decide_def advance_def and_then_def legal_into_action_iff Let_def)

lemma decide_frame:
  assumes "decide act code reason l = (r, l')"
  shows "rl_policy l' = rl_policy l" and "rl_attempt l' = rl_attempt l"
    and "rl_ticks l' = rl_ticks l" and "rl_evidence l' = rl_evidence l"
    and "rl_failed_frontier l' = rl_failed_frontier l"
  using assms by (auto simp: decide_eq Let_def split: if_splits)

lemma decide_result:
  assumes "decide act code reason l = (r, l')"
  shows "r = Inl RECOVERY_POLICY_ILLEGAL_TRANSITION \<and> l' = l
         \<or> \<not> closed (rl_state l) \<and> rl_state l' = STATE_FOR_ACTION act
           \<and> r = Inr (Some (make_decision act code reason l'))
           \<and> rl_failed_sequence l' =
               (case rl_evidence l of Some e \<Rightarrow> es_sequence_no e | None \<Rightarrow> rl_failed_sequence l)"
  using assms by (auto simp: decide_eq Let_def split: if_splits option.split)

text \<open>
  \<open>choose_step\<close> either asks for nothing or takes exactly one decision; an exhausted budget
  decides \<^const>\<open>ABORT\<close>, and an action retry on an evidence reason needs a new sample.
\<close>

lemma choose_step_cases:
  assumes "choose_step v l = (r, l')"
  obtains (nothing) "r = Inr None" "l' = l" "\<not> budget_exhausted l"
  | (decided) act code reason where "decide act code reason l = (r, l')"
      "budget_exhausted l \<Longrightarrow> act = ABORT"
      "act = RETRY_ACTION \<Longrightarrow> rp_requires_fresh_evidence (rl_policy l) \<Longrightarrow>
         reason_value (vv_reason_code v) \<in> EVIDENCE_REASON_CODES \<Longrightarrow> evidence_is_new l"
      "act \<noteq> ABORT \<Longrightarrow> act \<in> rp_actions (rl_policy l)"
proof (cases "budget_exhausted l")
  case True
  with assms have "decide ABORT RECOVERY_POLICY_BUDGET_EXHAUSTED (exhausted_reason l) l = (r, l')"
    by (simp add: choose_step_def)
  then show thesis by (rule decided) simp_all
next
  case within: False
  show thesis
  proof (cases "hint_to_action (vv_recovery_hint v)")
    case None
    with assms within show thesis by - (rule nothing, simp_all add: choose_step_def)
  next
    case (Some candidate)
    note hint = within Some
    consider (refused) "candidate \<notin> rp_actions (rl_policy l)"
      | (stale) "candidate \<in> rp_actions (rl_policy l)" "candidate = RETRY_ACTION"
          "rp_requires_fresh_evidence (rl_policy l)"
          "reason_value (vv_reason_code v) \<in> EVIDENCE_REASON_CODES" "\<not> evidence_is_new l"
      | (granted) "candidate \<in> rp_actions (rl_policy l)"
          "\<not> (candidate = RETRY_ACTION \<and> rp_requires_fresh_evidence (rl_policy l)
             \<and> reason_value (vv_reason_code v) \<in> EVIDENCE_REASON_CODES \<and> \<not> evidence_is_new l)"
      by blast
    then show thesis
    proof cases
      case refused
      with assms hint have "decide ABORT RECOVERY_POLICY_UNKNOWN_ACTION
          (disallowed_reason candidate) l = (r, l')"
        by (simp add: choose_step_def)
      then show thesis by (rule decided) simp_all
    next
      case stale
      show thesis
      proof (cases "RETRY_OBSERVATION \<in> rp_actions (rl_policy l)")
        case True
        with assms hint stale have "decide RETRY_OBSERVATION RECOVERY_POLICY_EVIDENCE_NOT_FRESH
            observe_first_reason l = (r, l')"
          by (simp add: choose_step_def)
        then show thesis by (rule decided) (simp_all add: hint True)
      next
        case False
        with assms hint stale have "decide ABORT RECOVERY_POLICY_EVIDENCE_NOT_FRESH
            no_observation_reason l = (r, l')"
          by (simp add: choose_step_def)
        then show thesis by (rule decided) simp_all
      qed
    next
      case granted
      then have "choose_step v l = decide candidate RECOVERY_SELECTED
          (requested_reason candidate) l"
        using hint by (auto simp: choose_step_def)
      with assms have "decide candidate RECOVERY_SELECTED
          (requested_reason candidate) l = (r, l')"
        by simp
      then show thesis by (rule decided) (use hint granted in auto)
    qed
  qed
qed

text \<open>The four ways a verification changes a ledger.\<close>

lemma record_verification_cases:
  assumes "record_verification v l = (r, l')"
  obtains (unchanged) "l' = l" "\<forall>d. r \<noteq> Inr (Some d)"
      "status_value (vv_status v) = ''confirmed'' \<or> \<not> rp_enabled (rl_policy l) \<or> terminal l"
  | (completed) "status_value (vv_status v) = ''confirmed''" "r = Inr None"
      "\<not> closed (rl_state l)" "completion_gate (vv_evidence_refs v) l = None"
      "l' = l\<lparr>rl_state := COMPLETE, rl_completed_by :=
               (case vv_verification_id v of PyStr s \<Rightarrow> Some s | _ \<Rightarrow> None)\<rparr>"
  | (failed) "status_value (vv_status v) \<noteq> ''confirmed''" "rp_enabled (rl_policy l)"
      "\<not> terminal l" "choose_step v (book_failure v l) = (r, l')"
proof (cases "status_value (vv_status v) = ''confirmed''")
  case True
  show thesis
  proof (cases "rl_state l = COMPLETE \<or> completion_gate (vv_evidence_refs v) l \<noteq> None
                \<or> closed (rl_state l)")
    case c: True
    have "l' = l" and "\<forall>d. r \<noteq> Inr (Some d)"
      using assms True c
      by (auto simp: record_verification_def complete_def advance_def and_then_def
          legal_into_complete_iff split: if_splits option.splits)
    with True show thesis by - (rule unchanged, auto)
  next
    case False
    with assms True show thesis
      by - (rule completed, auto simp: record_verification_def complete_def advance_def
          and_then_def legal_into_complete_iff split: pyval.splits)
  qed
next
  case False
  show thesis
  proof (cases "rp_enabled (rl_policy l) \<and> \<not> terminal l")
    case True
    with assms False show thesis by - (rule failed, auto simp: record_verification_def)
  next
    case c: False
    then have "l' = l" and "\<forall>d. r \<noteq> Inr (Some d)"
      using assms False by (auto simp: record_verification_def split: if_splits)
    with c show thesis by - (rule unchanged, auto)
  qed
qed

lemma ledger_exec_verification_step:
  "ledger_step (RecordVerification v) l = l' \<longleftrightarrow> (\<exists>r. record_verification v l = (r, l'))"
  by (cases "record_verification v l") (auto simp: ledger_step_def)

lemma observation_step:
  "ledger_step (RecordObservation e) l =
     (case rl_evidence l of
        Some e0 \<Rightarrow> if es_sequence_no e < es_sequence_no e0 then l else l\<lparr>rl_evidence := Some e\<rparr>
      | None \<Rightarrow> l\<lparr>rl_evidence := Some e\<rparr>)"
  by (simp add: ledger_step_def record_observation_def and_then_def split: option.split)

lemma acknowledge_step:
  obtains (same) "ledger_step (Acknowledge a auth) l = l"
  | (ended) "ledger_step (Acknowledge a auth) l = l\<lparr>rl_state := STATE_FOR_ACTION a\<rparr>"
      "a \<in> TERMINAL_ACTIONS" "\<not> closed (rl_state l)"
      "a = SAFE_STOP \<longrightarrow> auth = RUNTIME_AUTHORITY"
  by (cases "ledger_step (Acknowledge a auth) l = l")
    (auto simp: ledger_step_def acknowledge_runtime_action_def advance_def and_then_def
      legal_into_action_iff RUNTIME_OWNED_ACTIONS_def split: if_splits)

section \<open>What every operation keeps\<close>

text \<open>
  Between any two points of a ledger's life the policy is the same, the counters have not
  decreased, the newest sample has not been rewound and a closed state has not been left.
\<close>

definition ledger_rel :: "recovery_ledger \<Rightarrow> recovery_ledger \<Rightarrow> bool" where
  "ledger_rel l l' \<longleftrightarrow>
     rl_policy l' = rl_policy l \<and> rl_attempt l \<le> rl_attempt l' \<and> rl_ticks l \<le> rl_ticks l'
     \<and> (closed (rl_state l) \<longrightarrow> rl_state l' = rl_state l)
     \<and> (\<forall>e. rl_evidence l = Some e \<longrightarrow>
           (\<exists>e'. rl_evidence l' = Some e' \<and> es_sequence_no e \<le> es_sequence_no e'))"

lemma ledger_rel_refl: "ledger_rel l l"
  by (auto simp: ledger_rel_def)

lemma ledger_rel_trans: "ledger_rel l m \<Longrightarrow> ledger_rel m n \<Longrightarrow> ledger_rel l n"
  unfolding ledger_rel_def by (elim conjE) (intro conjI; force)

lemma terminal_closed: "terminal l \<Longrightarrow> closed (rl_state l)"
  by (auto simp: terminal_def closed_def)

lemma choose_step_rel:
  assumes "choose_step v l = (r, l')"
  shows "rl_policy l' = rl_policy l" "rl_attempt l' = rl_attempt l" "rl_ticks l' = rl_ticks l"
    "rl_evidence l' = rl_evidence l" "rl_failed_frontier l' = rl_failed_frontier l"
    "closed (rl_state l) \<longrightarrow> rl_state l' = rl_state l"
proof -
  from assms have "rl_policy l' = rl_policy l \<and> rl_attempt l' = rl_attempt l
      \<and> rl_ticks l' = rl_ticks l \<and> rl_evidence l' = rl_evidence l
      \<and> rl_failed_frontier l' = rl_failed_frontier l
      \<and> (closed (rl_state l) \<longrightarrow> rl_state l' = rl_state l)"
  proof (cases rule: choose_step_cases)
    case nothing
    then show ?thesis by simp
  next
    case (decided act code reason)
    then show ?thesis using decide_frame [OF decided(1)] decide_result [OF decided(1)] by auto
  qed
  then show "rl_policy l' = rl_policy l" "rl_attempt l' = rl_attempt l" "rl_ticks l' = rl_ticks l"
    "rl_evidence l' = rl_evidence l" "rl_failed_frontier l' = rl_failed_frontier l"
    "closed (rl_state l) \<longrightarrow> rl_state l' = rl_state l" by simp_all
qed

lemma record_verification_rel:
  assumes "record_verification v l = (r, l')"
  shows "ledger_rel l l'"
  using assms
proof (cases rule: record_verification_cases)
  case unchanged
  then show ?thesis by (simp add: ledger_rel_refl)
next
  case completed
  then show ?thesis by (auto simp: ledger_rel_def)
next
  case failed
  note ch = choose_step_rel [OF failed(4)]
  show ?thesis using ch by (auto simp: ledger_rel_def)
qed

lemma ledger_step_rel: "ledger_rel l (ledger_step op l)"
proof (cases op)
  case (RecordObservation e)
  then show ?thesis
    by (auto simp: observation_step ledger_rel_def split: option.split)
next
  case (Acknowledge a auth)
  then show ?thesis
    by (cases rule: acknowledge_step [of a auth l]) (auto simp: ledger_rel_def)
next
  case (RecordVerification v)
  obtain r l' where rv: "record_verification v l = (r, l')"
    by (cases "record_verification v l") auto
  with RecordVerification have "ledger_step op l = l'"
    by (simp add: ledger_step_def)
  with rv show ?thesis by (simp add: record_verification_rel)
qed

interpretation ledger: machine_relation ledger_step ledger_rel
  by unfold_locales (auto intro: ledger_rel_refl ledger_rel_trans ledger_step_rel)

text \<open>
  The budget invariant: both counters are equal and not negative, and once the attempts exceed
  the budget the ledger is closed.
\<close>

definition ledger_ok :: "recovery_ledger \<Rightarrow> bool" where
  "ledger_ok l \<longleftrightarrow>
     0 \<le> rl_attempt l \<and> rl_ticks l = rl_attempt l
     \<and> 0 \<le> rp_max_attempts (rl_policy l) \<and> 0 \<le> rp_max_recovery_ticks (rl_policy l)
     \<and> (budget_exhausted l \<longrightarrow> closed (rl_state l))"

lemma choose_step_ok:
  assumes "choose_step v l = (r, l')" and "0 \<le> rl_attempt l" "rl_ticks l = rl_attempt l"
    "0 \<le> rp_max_attempts (rl_policy l)" "0 \<le> rp_max_recovery_ticks (rl_policy l)"
  shows "ledger_ok l'"
  using assms(1)
proof (cases rule: choose_step_cases)
  case nothing
  with assms show ?thesis by (simp add: ledger_ok_def)
next
  case (decided act code reason)
  note fr = decide_frame [OF decided(1)]
  have "budget_exhausted l' \<longrightarrow> closed (rl_state l')"
  proof
    assume "budget_exhausted l'"
    then have "act = ABORT" using fr decided(2) by (simp add: budget_exhausted_def)
    then show "closed (rl_state l')"
      using decided(1) by (auto simp: decide_eq Let_def closed_def split: if_splits)
  qed
  with fr assms show ?thesis by (simp add: ledger_ok_def)
qed

lemma ledger_step_ok:
  assumes "ledger_ok l"
  shows "ledger_ok (ledger_step op l)"
proof (cases op)
  case (RecordObservation e)
  with assms show ?thesis
    by (auto simp: observation_step ledger_ok_def budget_exhausted_def split: option.split)
next
  case (Acknowledge a auth)
  with assms show ?thesis
    by (cases rule: acknowledge_step [of a auth l])
      (auto simp: ledger_ok_def budget_exhausted_def closed_def TERMINAL_ACTIONS_def)
next
  case (RecordVerification v)
  obtain r l' where rv: "record_verification v l = (r, l')"
    by (cases "record_verification v l") auto
  with RecordVerification have l': "ledger_step op l = l'"
    by (simp add: ledger_step_def)
  from rv have "ledger_ok l'"
  proof (cases rule: record_verification_cases)
    case unchanged
    with assms show ?thesis by simp
  next
    case completed
    with assms show ?thesis
      by (simp add: ledger_ok_def budget_exhausted_def closed_def)
  next
    case failed
    then show ?thesis
      using assms by (intro choose_step_ok [OF failed(4)]) (simp_all add: ledger_ok_def)
  qed
  with l' show ?thesis by simp
qed

interpretation ledger_budget: machine_safety ledger_step ledger_ok ledger_rel
  by unfold_locales (auto intro: ledger_step_ok ledger_rel_refl ledger_rel_trans ledger_step_rel)

section \<open>Parsing is bounded\<close>

lemma parse_mapping_ok:
  assumes "parse_mapping payload = Inr p"
  shows "rp_enabled p \<and> rp_actions p \<noteq> {} \<and> 1 \<le> rp_max_attempts p \<and> rp_max_attempts p \<le> 10
         \<and> 1 \<le> rp_max_recovery_ticks p \<and> rp_max_recovery_ticks p \<le> 100"
  using assms
  by (auto simp: parse_mapping_def bounded_int_def recovery_constants
      split: if_splits option.splits sum.splits pyval.splits)

lemma parse_Inr_cases:
  assumes "parse payload = Inr p"
  obtains "payload = PyNone" "p = disabled" | d where "payload = PyDict d" "parse_mapping d = Inr p"
  using assms by (cases payload) auto

lemma parse_bounds:
  assumes "parse payload = Inr p"
  shows "1 \<le> rp_max_attempts p \<and> rp_max_attempts p \<le> 10
    \<and> 1 \<le> rp_max_recovery_ticks p \<and> rp_max_recovery_ticks p \<le> 100"
  using assms
proof (cases rule: parse_Inr_cases)
  case 1
  then show ?thesis by (simp add: disabled_def recovery_constants)
next
  case (2 d)
  then show ?thesis by (blast dest: parse_mapping_ok)
qed

lemma new_ledger_Inr:
  assumes "new_ledger p rid tid = Inr l"
  shows "rl_policy l = p" "rl_state l = IDLE" "rl_attempt l = 0" "rl_ticks l = 0"
    "rl_evidence l = None" "rl_failed_sequence l = -1" "rl_failed_frontier l = -1"
  using assms by (auto simp: new_ledger_def split: sum.splits)

lemma new_ledger_ok:
  assumes "new_ledger p rid tid = Inr l" "1 \<le> rp_max_attempts p" "1 \<le> rp_max_recovery_ticks p"
  shows "ledger_ok l"
  using new_ledger_Inr [OF assms(1)] assms by (auto simp: ledger_ok_def budget_exhausted_def)

section \<open>Decisions\<close>

lemma ledger_exec_decision:
  assumes "ledger_exec op l = (Inr (Some d), l')"
  obtains v where "op = RecordVerification v" "rp_enabled (rl_policy l)" "\<not> closed (rl_state l)"
    "rl_attempt l' = rl_attempt l + 1" "rl_evidence l' = rl_evidence l"
    "rd_terminal d \<longleftrightarrow> closed (rl_state l')" "rl_state l' = STATE_FOR_ACTION (rd_action d)"
    "rl_failed_sequence l' =
       (case rl_evidence l of Some e \<Rightarrow> es_sequence_no e | None \<Rightarrow> rl_failed_sequence l)"
    "rd_action d = RETRY_ACTION \<longrightarrow> rp_requires_fresh_evidence (rl_policy l) \<longrightarrow>
       reason_value (vv_reason_code v) \<in> EVIDENCE_REASON_CODES \<longrightarrow> evidence_is_new l"
    "rd_action d \<noteq> ABORT \<longrightarrow> rd_action d \<in> rp_actions (rl_policy l)"
proof -
  from assms obtain v where op: "op = RecordVerification v"
    and rv: "record_verification v l = (Inr (Some d), l')"
    by (cases op) (auto simp: and_then_def split: prod.splits sum.splits)
  from rv have ne: "rp_enabled (rl_policy l)" "\<not> terminal l"
    and ch: "choose_step v (book_failure v l) = (Inr (Some d), l')"
    by (cases rule: record_verification_cases; simp)+
  from ch show thesis
  proof (cases rule: choose_step_cases)
    case nothing
    then show thesis by simp
  next
    case (decided act code reason)
    note fr = decide_frame [OF decided(1)] and rs = decide_result [OF decided(1)]
    from rs have nc: "\<not> closed (rl_state l)" and st: "rl_state l' = STATE_FOR_ACTION act"
      and d: "d = make_decision act code reason l'"
      and fs: "rl_failed_sequence l' =
        (case rl_evidence l of Some e \<Rightarrow> es_sequence_no e | None \<Rightarrow> rl_failed_sequence l)"
      by (auto split: option.splits)
    have new: "evidence_is_new (book_failure v l) = evidence_is_new l"
      by (simp add: evidence_is_new_def split: option.split)
    have ends: "rd_terminal d \<longleftrightarrow> closed (rl_state l')"
      unfolding st d by (cases act) (auto simp: make_decision_def TERMINAL_ACTIONS_def closed_def)
    have act: "rd_action d = act" by (simp add: d make_decision_def)
    show thesis
      by (rule that [OF op ne(1) nc _ _ ends]) (use fr fs st act decided(3,4) new in auto)
  qed
qed

lemma ledger_step_snd: "ledger_exec op l = (r, l') \<Longrightarrow> ledger_step op l = l'"
  by (simp add: ledger_step_def)

text \<open>How many decisions a ledger can still hand out.\<close>

definition decisions_left :: "recovery_ledger \<Rightarrow> nat" where
  "decisions_left l =
     (if closed (rl_state l) then 0 else nat (rp_max_attempts (rl_policy l) + 1 - rl_attempt l))"

lemma decisions_left_step: "decisions_left (ledger_step op l) \<le> decisions_left l"
  using ledger_step_rel [of l op] by (auto simp: ledger_rel_def decisions_left_def)

lemma decisions_left_decision:
  assumes "ledger_ok l" "ledger_exec op l = (Inr (Some d), l')"
  shows "decisions_left l' < decisions_left l"
proof -
  from assms(2) obtain v where nc: "\<not> closed (rl_state l)"
    and att: "rl_attempt l' = rl_attempt l + 1"
    by (cases rule: ledger_exec_decision) blast
  have pol: "rl_policy l' = rl_policy l"
    using ledger_step_rel [of l op] ledger_step_snd [OF assms(2)] by (simp add: ledger_rel_def)
  from assms(1) nc have "rl_attempt l \<le> rp_max_attempts (rl_policy l)"
    by (auto simp: ledger_ok_def budget_exhausted_def)
  then show ?thesis using nc att pol by (simp add: decisions_left_def)
qed

lemma ledger_decisions_bound:
  "ledger_ok l \<Longrightarrow> length (ledger_decisions ops l) \<le> decisions_left l"
proof (induction ops arbitrary: l)
  case Nil
  then show ?case by simp
next
  case (Cons op ops)
  obtain r l' where ex: "ledger_exec op l = (r, l')" by (cases "ledger_exec op l") auto
  then have l': "ledger_step op l = l'" by (rule ledger_step_snd)
  have ok': "ledger_ok l'" using ledger_step_ok [OF Cons.prems, of op] l' by simp
  note IH = Cons.IH [OF ok']
  show ?case
  proof (cases "\<exists>d. r = Inr (Some d)")
    case True
    then obtain d where r: "r = Inr (Some d)" by blast
    with ex have "decisions_left l' < decisions_left l"
      using decisions_left_decision [OF Cons.prems] by blast
    with IH show ?thesis by (simp add: ex r)
  next
    case False
    then have "ledger_decisions (op # ops) l = ledger_decisions ops l'"
      using ex by (auto split: sum.splits option.splits)
    with IH decisions_left_step [of op l] l' show ?thesis by simp
  qed
qed

lemma ledger_decisions_closed: "closed (rl_state l) \<Longrightarrow> ledger_decisions ops l = []"
proof (induction ops arbitrary: l)
  case Nil
  show ?case by simp
next
  case (Cons op ops)
  obtain r l' where ex: "ledger_exec op l = (r, l')" by (cases "ledger_exec op l") auto
  have "r \<noteq> Inr (Some d)" for d
    using Cons.prems ex by (auto elim: ledger_exec_decision)
  moreover have "closed (rl_state l')"
    using ledger_step_rel [of l op] ledger_step_snd [OF ex] Cons.prems
    by (simp add: ledger_rel_def)
  ultimately show ?case
    using ex Cons.IH by (auto split: sum.splits option.splits)
qed

lemma ledger_decisions_only_last_terminal:
  "\<forall>d\<in>set (butlast (ledger_decisions ops l)). \<not> rd_terminal d"
proof (induction ops arbitrary: l)
  case Nil
  show ?case by simp
next
  case (Cons op ops)
  obtain r l' where ex: "ledger_exec op l = (r, l')" by (cases "ledger_exec op l") auto
  show ?case
  proof (cases "\<exists>d. r = Inr (Some d)")
    case True
    then obtain d where r: "r = Inr (Some d)" by blast
    show ?thesis
    proof (cases "rd_terminal d")
      case True
      with ex r have "closed (rl_state l')" by (auto elim: ledger_exec_decision)
      then show ?thesis by (simp add: ex r ledger_decisions_closed)
    next
      case False
      with Cons.IH [of l'] show ?thesis by (auto simp: ex r)
    qed
  next
    case False
    then have "ledger_decisions (op # ops) l = ledger_decisions ops l'"
      using ex by (auto split: sum.splits option.splits)
    with Cons.IH show ?thesis by simp
  qed
qed

section \<open>Exhaustion\<close>

definition is_failure :: "ledger_op \<Rightarrow> bool" where
  "is_failure op =
     (case op of RecordVerification v \<Rightarrow> status_value (vv_status v) \<noteq> ''confirmed'' | _ \<Rightarrow> False)"

lemma failure_step_attempt:
  assumes "is_failure op" "rp_enabled (rl_policy l)" "\<not> closed (rl_state (ledger_step op l))"
  shows "rl_attempt (ledger_step op l) = rl_attempt l + 1"
proof -
  from assms(1) obtain v where op: "op = RecordVerification v"
    and nconf: "status_value (vv_status v) \<noteq> ''confirmed''"
    by (cases op) (auto simp: is_failure_def)
  obtain r l' where rv: "record_verification v l = (r, l')"
    by (cases "record_verification v l") auto
  then have l': "ledger_step op l = l'" by (simp add: op ledger_step_def)
  have "\<not> terminal l"
    using assms(3) ledger_step_rel [of l op] terminal_closed [of l] by (auto simp: ledger_rel_def)
  with rv nconf assms(2) have "choose_step v (book_failure v l) = (r, l')"
    by (simp add: record_verification_def)
  from choose_step_rel(2) [OF this] show ?thesis by (simp add: l')
qed

lemma failures_count_attempts:
  assumes "rp_enabled (rl_policy l)" "\<not> closed (rl_state (fold ledger_step ops l))"
  shows "rl_attempt l + int (length (filter is_failure ops)) \<le> rl_attempt (fold ledger_step ops l)"
  using assms
proof (induction ops arbitrary: l)
  case Nil
  then show ?case by simp
next
  case (Cons op ops)
  let ?l = "ledger_step op l"
  have pol: "rl_policy ?l = rl_policy l" and mono: "rl_attempt l \<le> rl_attempt ?l"
    using ledger_step_rel [of l op] by (simp_all add: ledger_rel_def)
  have nc: "\<not> closed (rl_state ?l)"
    using ledger.rel_run [of ?l ops] Cons.prems(2) by (auto simp: ledger_rel_def)
  have IH: "rl_attempt ?l + int (length (filter is_failure ops))
      \<le> rl_attempt (fold ledger_step ops ?l)"
    using Cons.prems pol by (intro Cons.IH) auto
  show ?case
  proof (cases "is_failure op")
    case True
    with failure_step_attempt [OF True Cons.prems(1) nc] IH show ?thesis by simp
  next
    case False
    with IH mono show ?thesis by simp
  qed
qed

section \<open>Evidence\<close>

text \<open>
  After a failed attempt the newest sample is one observed since, or it lies at or below the
  frontier the failure closed.
\<close>

definition since_failure :: "evidence_stamp set \<Rightarrow> recovery_ledger \<Rightarrow> bool" where
  "since_failure S l \<longleftrightarrow>
     0 < rl_attempt l
     \<and> (\<forall>e. rl_evidence l = Some e \<longrightarrow> e \<in> S \<or> es_sequence_no e \<le> rl_failed_frontier l)"

lemma since_failure_step:
  assumes "since_failure S l" "\<And>e. op = RecordObservation e \<Longrightarrow> e \<in> S"
  shows "since_failure S (ledger_step op l)"
proof (cases op)
  case (RecordObservation e)
  with assms show ?thesis
    by (auto simp: observation_step since_failure_def split: option.split)
next
  case (Acknowledge a auth)
  with assms(1) show ?thesis
    by (cases rule: acknowledge_step [of a auth l]) (auto simp: since_failure_def)
next
  case (RecordVerification v)
  obtain r l' where rv: "record_verification v l = (r, l')"
    by (cases "record_verification v l") auto
  with RecordVerification have l': "ledger_step op l = l'" by (simp add: ledger_step_def)
  from rv have "since_failure S l'"
  proof (cases rule: record_verification_cases)
    case failed
    from choose_step_rel [OF failed(4)] assms(1) show ?thesis
      by (auto simp: since_failure_def)
  qed (use assms(1) in \<open>auto simp: since_failure_def\<close>)
  with l' show ?thesis by simp
qed

lemma since_failure_run:
  assumes "since_failure S l" "\<And>e. RecordObservation e \<in> set ops \<Longrightarrow> e \<in> S"
  shows "since_failure S (fold ledger_step ops l)"
  using assms
proof (induction ops arbitrary: l)
  case Nil
  then show ?case by simp
next
  case (Cons op ops)
  have "since_failure S (ledger_step op l)"
    using Cons.prems by (intro since_failure_step) auto
  then show ?case using Cons.prems(2) Cons.IH by simp
qed

text \<open>
  The sequence numbers of the samples that unlocked an evidence-dependent action retry, in
  order.
\<close>

definition evidence_dependent :: "ledger_op \<Rightarrow> recovery_ledger \<Rightarrow> bool" where
  "evidence_dependent op l =
     (case op of
        RecordVerification v \<Rightarrow>
          rp_requires_fresh_evidence (rl_policy l)
          \<and> reason_value (vv_reason_code v) \<in> EVIDENCE_REASON_CODES
      | _ \<Rightarrow> False)"

fun retry_samples :: "ledger_op list \<Rightarrow> recovery_ledger \<Rightarrow> int list" where
  "retry_samples [] l = []"
| "retry_samples (op # ops) l =
     (case ledger_exec op l of
        (Inr (Some d), l') \<Rightarrow>
          (if rd_action d = RETRY_ACTION \<and> evidence_dependent op l
           then (case rl_evidence l of Some e \<Rightarrow> [es_sequence_no e] | None \<Rightarrow> []) else [])
          @ retry_samples ops l'
      | (_, l') \<Rightarrow> retry_samples ops l')"

definition consumed_up_to :: "int \<Rightarrow> recovery_ledger \<Rightarrow> bool" where
  "consumed_up_to b l \<longleftrightarrow>
     b \<le> rl_failed_sequence l \<and> (\<exists>e. rl_evidence l = Some e \<and> b \<le> es_sequence_no e)"

lemma consumed_up_to_step:
  assumes "consumed_up_to b l"
  shows "consumed_up_to b (ledger_step op l)"
proof (cases op)
  case (RecordObservation e)
  with assms show ?thesis by (auto simp: observation_step consumed_up_to_def split: option.split)
next
  case (Acknowledge a auth)
  with assms show ?thesis
    by (cases rule: acknowledge_step [of a auth l]) (auto simp: consumed_up_to_def)
next
  case (RecordVerification v)
  obtain r l' where rv: "record_verification v l = (r, l')"
    by (cases "record_verification v l") auto
  with RecordVerification have l': "ledger_step op l = l'" by (simp add: ledger_step_def)
  from rv have "consumed_up_to b l'"
  proof (cases rule: record_verification_cases)
    case failed
    from failed(4) show ?thesis
    proof (cases rule: choose_step_cases)
      case nothing
      with assms show ?thesis by (auto simp: consumed_up_to_def)
    next
      case (decided act code reason)
      from decide_frame [OF decided(1)] decide_result [OF decided(1)] assms show ?thesis
        by (auto simp: consumed_up_to_def)
    qed
  qed (use assms in \<open>auto simp: consumed_up_to_def\<close>)
  with l' show ?thesis by simp
qed

lemma retry_samples_Cons_cases:
  assumes "s \<in> set (retry_samples (op # ops) l)" "ledger_exec op l = (r, l')"
  shows "s \<in> set (retry_samples ops l')
    \<or> (\<exists>d e. r = Inr (Some d) \<and> rd_action d = RETRY_ACTION \<and> evidence_dependent op l
           \<and> rl_evidence l = Some e \<and> s = es_sequence_no e)"
proof (cases "\<exists>d. r = Inr (Some d)")
  case True
  with assms show ?thesis by (auto split: if_splits option.splits)
next
  case False
  then have "retry_samples (op # ops) l = retry_samples ops l'"
    using assms(2) by (auto split: sum.splits option.splits)
  with assms(1) show ?thesis by metis
qed

lemma retry_samples_above:
  "consumed_up_to b l \<Longrightarrow> s \<in> set (retry_samples ops l) \<Longrightarrow> b < s"
proof (induction ops arbitrary: l)
  case Nil
  then show ?case by simp
next
  case (Cons op ops)
  obtain r l' where ex: "ledger_exec op l = (r, l')" by (cases "ledger_exec op l") auto
  have cons': "consumed_up_to b l'"
    using consumed_up_to_step [OF Cons.prems(1), of op] ledger_step_snd [OF ex] by simp
  show ?case
  proof (cases "s \<in> set (retry_samples ops l')")
    case True
    with cons' show ?thesis by (rule Cons.IH)
  next
    case False
    with retry_samples_Cons_cases [OF Cons.prems(2) ex] obtain d e where r: "r = Inr (Some d)"
      and act: "rd_action d = RETRY_ACTION" "evidence_dependent op l"
      and e: "rl_evidence l = Some e" "s = es_sequence_no e"
      by blast
    from ex r have "ledger_exec op l = (Inr (Some d), l')" by simp
    then have "evidence_is_new l"
      by (cases rule: ledger_exec_decision) (use act in \<open>auto simp: evidence_dependent_def\<close>)
    then show ?thesis using e Cons.prems(1) by (auto simp: evidence_is_new_def consumed_up_to_def)
  qed
qed

section \<open>Properties\<close>

text \<open>
  C17: recovery is bounded. However a caller mixes observations, verifications and
  acknowledgements, a ledger with a parsed policy hands out at most one decision per permitted
  attempt and one final abort, never more than eleven, and only the last of them is terminal.
\<close>

theorem recovery_is_bounded:
  assumes "parse payload = Inr p" and "new_ledger p rid tid = Inr l"
  shows "length (ledger_decisions ops l) \<le> nat (rp_max_attempts p) + 1
         \<and> length (ledger_decisions ops l) \<le> 11
         \<and> (\<forall>d\<in>set (butlast (ledger_decisions ops l)). \<not> rd_terminal d)"
proof -
  note pb = parse_bounds [OF assms(1)]
  have "ledger_ok l" using new_ledger_ok [OF assms(2)] pb by simp
  then have "length (ledger_decisions ops l) \<le> decisions_left l" by (rule ledger_decisions_bound)
  also have "\<dots> = nat (rp_max_attempts p) + 1"
    using new_ledger_Inr [OF assms(2)] pb by (simp add: decisions_left_def closed_def nat_add_distrib)
  finally have "length (ledger_decisions ops l) \<le> nat (rp_max_attempts p) + 1" .
  moreover from this pb have "length (ledger_decisions ops l) \<le> 11" by linarith
  ultimately show ?thesis using ledger_decisions_only_last_terminal by blast
qed

text \<open>
  C19: a refused task stops. Once more verifications have failed than the parsed policy permits
  attempts, the ledger is stopping, aborted or complete, whatever else happened in between.
\<close>

theorem recovery_closes_when_exhausted:
  assumes "parse payload = Inr p" and "rp_enabled p" and "new_ledger p rid tid = Inr l"
    and "length (filter is_failure ops) > nat (rp_max_attempts p)"
  shows "rl_state (fold ledger_step ops l) \<in> {STOPPING, ABORTED, COMPLETE}"
proof (rule ccontr)
  let ?l = "fold ledger_step ops l"
  assume "rl_state ?l \<notin> {STOPPING, ABORTED, COMPLETE}"
  then have open_l: "\<not> closed (rl_state ?l)" by (simp add: closed_def)
  note nl = new_ledger_Inr [OF assms(3)] and pb = parse_bounds [OF assms(1)]
  have ok: "ledger_ok l" using new_ledger_ok [OF assms(3)] pb by simp
  have "rl_attempt l + int (length (filter is_failure ops)) \<le> rl_attempt ?l"
    using failures_count_attempts [of l ops] open_l assms(2) nl by simp
  with assms(4) nl pb have "rl_attempt ?l > rp_max_attempts p" by linarith
  moreover have "rl_policy ?l = p"
    using ledger.rel_run [of l ops] nl by (simp add: ledger_rel_def)
  ultimately have "budget_exhausted ?l" by (simp add: budget_exhausted_def)
  with ledger_budget.inv_run [OF ok, of ops] open_l show False by (simp add: ledger_ok_def)
qed

text \<open>
  C18: no laundered completion. If a verification fails and a later confirmation completes the
  recovery, then between the two the ledger was handed an observation that is fresh, has valid
  provenance and carries a reference the confirmation cites.
\<close>

theorem completion_cites_an_observation_after_the_failure:
  assumes "new_ledger p rid tid = Inr l0"
    and "l = fold ledger_step before l0"
    and "status_value (vv_status v) \<noteq> ''confirmed''" and "rp_enabled p" and "\<not> terminal l"
    and "l2 = fold ledger_step (RecordVerification v # between) l"
    and "rl_state l2 \<noteq> COMPLETE"
    and "rl_state (ledger_step (RecordVerification w) l2) = COMPLETE"
  shows "\<exists>e. RecordObservation e \<in> set between \<and> es_fresh e \<and> es_provenance_valid e
             \<and> set (vv_evidence_refs w) \<inter> set (es_evidence_refs e) \<noteq> {}"
proof -
  let ?S = "{e. RecordObservation e \<in> set between}"
  have rel: "ledger_rel l0 l" using ledger.rel_run [of l0 before] assms(2) by simp
  have pol: "rl_policy l = p" and att: "0 \<le> rl_attempt l"
    using rel new_ledger_Inr [OF assms(1)] by (simp_all add: ledger_rel_def)
  obtain r l1 where rv: "record_verification v l = (r, l1)"
    by (cases "record_verification v l") auto
  with assms(3,4,5) pol have ch: "choose_step v (book_failure v l) = (r, l1)"
    by (simp add: record_verification_def)
  have "since_failure ?S l1"
    using choose_step_rel [OF ch] att by (auto simp: since_failure_def)
  then have sf: "since_failure ?S l2"
    using since_failure_run [of ?S l1 between] rv assms(6) by (simp add: ledger_step_def)
  obtain r' l3 where rw: "record_verification w l2 = (r', l3)"
    by (cases "record_verification w l2") auto
  with assms(8) have l3: "rl_state l3 = COMPLETE" by (simp add: ledger_step_def)
  from rw have "completion_gate (vv_evidence_refs w) l2 = None"
  proof (cases rule: record_verification_cases)
    case failed
    from failed(4) have "rl_state l3 \<noteq> COMPLETE"
    proof (cases rule: choose_step_cases)
      case (decided act code reason)
      from decide_result [OF decided(1)] assms(7) show ?thesis by (cases act) auto
    qed (use assms(7) in simp)
    with l3 show ?thesis by simp
  qed (use assms(7) l3 in auto)
  then show ?thesis
    using sf by (force simp: completion_gate_def since_failure_def split: if_splits option.splits)
qed

text \<open>
  C20: one sample unlocks one retry. The samples on which evidence-dependent action retries were
  granted have strictly increasing sequence numbers, for every use of every ledger.
\<close>

theorem action_retries_consume_fresh_samples:
  "sorted_wrt (<) (retry_samples ops l)"
proof (induction ops arbitrary: l)
  case Nil
  show ?case by simp
next
  case (Cons op ops)
  obtain r l' where ex: "ledger_exec op l = (r, l')" by (cases "ledger_exec op l") auto
  have tail: "sorted_wrt (<) (retry_samples ops l')" by (rule Cons.IH)
  have "s < t" if r: "r = Inr (Some d)" and e: "rl_evidence l = Some e" "s = es_sequence_no e"
    and t: "t \<in> set (retry_samples ops l')" for d e s t
  proof -
    from ex r have "ledger_exec op l = (Inr (Some d), l')" by simp
    then have "consumed_up_to s l'"
      by (cases rule: ledger_exec_decision) (use e in \<open>auto simp: consumed_up_to_def\<close>)
    then show ?thesis using t by (rule retry_samples_above)
  qed
  then show ?case using tail by (auto simp: ex split: sum.splits option.splits)
qed

text \<open>
  C21: a stop belongs to the trusted runtime. A ledger enters the stopping state only when the
  runtime authority acknowledges the stop, or when a verification asks for one that the policy
  allows; and no later operation leaves it.
\<close>

theorem stop_is_runtime_owned_and_final:
  assumes "rl_state l \<noteq> STOPPING" and "rl_state (ledger_step op l) = STOPPING"
  shows "(op = Acknowledge SAFE_STOP RUNTIME_AUTHORITY
          \<or> (\<exists>v. op = RecordVerification v \<and> SAFE_STOP \<in> rp_actions (rl_policy l)))
         \<and> rl_state (fold ledger_step ops (ledger_step op l)) = STOPPING"
proof (rule conjI)
  show "rl_state (fold ledger_step ops (ledger_step op l)) = STOPPING"
    using ledger.rel_run [of "ledger_step op l" ops] assms(2)
    by (simp add: ledger_rel_def closed_def)
  show "op = Acknowledge SAFE_STOP RUNTIME_AUTHORITY
        \<or> (\<exists>v. op = RecordVerification v \<and> SAFE_STOP \<in> rp_actions (rl_policy l))"
  proof (cases op)
    case (RecordObservation e)
    with assms show ?thesis by (auto simp: observation_step split: option.splits if_splits)
  next
    case (Acknowledge a auth)
    with assms show ?thesis
      by (cases rule: acknowledge_step [of a auth l]) (auto simp: TERMINAL_ACTIONS_def)
  next
    case (RecordVerification v)
    obtain r l' where ex: "ledger_exec op l = (r, l')" by (cases "ledger_exec op l") auto
    with RecordVerification have rv: "record_verification v l = (r, l')" by simp
    from ledger_step_snd [OF ex] assms have l': "rl_state l' = STOPPING" by simp
    from rv have "SAFE_STOP \<in> rp_actions (rl_policy l)"
    proof (cases rule: record_verification_cases)
      case failed
      from failed(4) show ?thesis
      proof (cases rule: choose_step_cases)
        case (decided act code reason)
        from decide_result [OF decided(1)] l' assms(1) have "act = SAFE_STOP" by (cases act) auto
        with decided(4) show ?thesis by simp
      qed (use l' assms(1) in simp)
    qed (use l' assms(1) in auto)
    with RecordVerification show ?thesis by blast
  qed
qed

section \<open>A concrete ledger\<close>

definition demo_payload :: pyval where
  "demo_payload =
     PyDict [(''allowed'', PyList [PyStr ''re_observe'', PyStr ''retry_action'', PyStr ''safe_stop'']),
             (''max_attempts'', PyInt 2)]"

definition demo_policy :: recovery_policy where
  "demo_policy =
     \<lparr>rp_actions = {RETRY_OBSERVATION, RETRY_ACTION, SAFE_STOP}, rp_max_attempts = 2,
      rp_max_recovery_ticks = 30, rp_requires_fresh_evidence = True, rp_enabled = True,
      rp_policy_version = POLICY_VERSION\<rparr>"

definition demo_ledger :: recovery_ledger where
  "demo_ledger =
     \<lparr>rl_policy = demo_policy, rl_recovery_id = ''rec-1'', rl_task_id = ''task-1'',
      rl_state = IDLE, rl_attempt = 0, rl_ticks = 0, rl_evidence = None, rl_failed_at = '''',
      rl_failed_sequence = -1, rl_failed_frontier = -1, rl_completed_by = None\<rparr>"

definition demo_stamp :: evidence_stamp where
  "demo_stamp =
     \<lparr>es_observed_at = ''2026-01-01T00:00:00Z'', es_fresh = True, es_provenance_valid = True,
      es_sequence_no = 7, es_evidence_refs = [''frame-7'']\<rparr>"

definition demo_failure :: verification_view where
  "demo_failure =
     \<lparr>vv_status = EnumMember ''refuted'', vv_verification_id = PyStr ''v1'',
      vv_evidence_refs = [''frame-1''], vv_verified_at = '''',
      vv_recovery_hint = HintMember HINT_RE_OBSERVE,
      vv_reason_code = Some (EnumMember ''stale_observation'')\<rparr>"

definition demo_confirmation :: verification_view where
  "demo_confirmation =
     demo_failure\<lparr>vv_status := EnumMember ''confirmed'', vv_evidence_refs := [''frame-7'']\<rparr>"

lemma demo_parse: "parse demo_payload = Inr demo_policy"
  by code_simp

lemma demo_new: "new_ledger demo_policy (PyStr ''rec-1'') (PyStr ''task-1'') = Inr demo_ledger"
  by code_simp

theorem recovery_is_bounded_witness:
  "parse demo_payload = Inr demo_policy
   \<and> new_ledger demo_policy (PyStr ''rec-1'') (PyStr ''task-1'') = Inr demo_ledger
   \<and> length (ledger_decisions (replicate 9 (RecordVerification demo_failure)) demo_ledger) \<le> 3"
  using recovery_is_bounded [OF demo_parse demo_new,
      of "replicate 9 (RecordVerification demo_failure)"] demo_parse demo_new
  by (simp add: demo_policy_def)

theorem recovery_closes_when_exhausted_witness:
  "rl_state (fold ledger_step (replicate 3 (RecordVerification demo_failure)) demo_ledger)
     \<in> {STOPPING, ABORTED, COMPLETE}"
proof (rule recovery_closes_when_exhausted [OF demo_parse _ demo_new])
  show "rp_enabled demo_policy" by (simp add: demo_policy_def)
  show "nat (rp_max_attempts demo_policy)
      < length (filter is_failure (replicate 3 (RecordVerification demo_failure)))"
    by code_simp
qed

theorem completion_cites_an_observation_after_the_failure_witness:
  "\<exists>e. RecordObservation e \<in> set [RecordObservation demo_stamp] \<and> es_fresh e
       \<and> es_provenance_valid e
       \<and> set (vv_evidence_refs demo_confirmation) \<inter> set (es_evidence_refs e) \<noteq> {}"
proof (rule completion_cites_an_observation_after_the_failure [OF demo_new])
  show "demo_ledger = fold ledger_step [] demo_ledger" by simp
  show "status_value (vv_status demo_failure) \<noteq> ''confirmed''" by code_simp
  show "rp_enabled demo_policy" by code_simp
  show "\<not> terminal demo_ledger" by code_simp
  show "fold ledger_step [RecordVerification demo_failure, RecordObservation demo_stamp] demo_ledger
      = fold ledger_step (RecordVerification demo_failure # [RecordObservation demo_stamp]) demo_ledger"
    by simp
  show "rl_state (fold ledger_step
      [RecordVerification demo_failure, RecordObservation demo_stamp] demo_ledger) \<noteq> COMPLETE"
    by code_simp
  show "rl_state (ledger_step (RecordVerification demo_confirmation) (fold ledger_step
      [RecordVerification demo_failure, RecordObservation demo_stamp] demo_ledger)) = COMPLETE"
    by code_simp
qed

theorem stop_is_runtime_owned_and_final_witness:
  "rl_state (fold ledger_step [RecordVerification demo_failure]
     (ledger_step (Acknowledge SAFE_STOP RUNTIME_AUTHORITY) demo_ledger)) = STOPPING"
proof -
  have "rl_state demo_ledger \<noteq> STOPPING" by code_simp
  moreover have "rl_state (ledger_step (Acknowledge SAFE_STOP RUNTIME_AUTHORITY) demo_ledger) = STOPPING"
    by code_simp
  ultimately show ?thesis by (rule stop_is_runtime_owned_and_final [THEN conjunct2])
qed

end
