(* ===== verification/Gpio.thy ===== *)
theory Gpio
  imports Prelude
begin

text \<open>
  The GPIO provider of \<^verbatim>\<open>hardware/linux_drivers/gpio/contract.py\<close>.

  Every public method holds the provider's lock for its whole body, so a run of the provider
  under any number of threads is a sequence of these operations. Lines are stored at physical
  level and read at logical level. The Python exceptions that a broken internal dictionary would
  raise are outcomes too; the invariant shows that they do not occur. Arguments have the types
  the signatures declare, so the guards that reject a value of another type have no branch here.
\<close>

datatype gpio_error =
    GPIOError
  | GPIOPermissionError
  | GPIOStateError
  | GPIOProviderClosed
  | GPIOQueueFull
  | GPIOInternal \<comment> \<open>\<^verbatim>\<open>KeyError\<close> or \<^verbatim>\<open>TypeError\<close> from the provider's own dictionaries\<close>

datatype gpio_direction = GPIO_INPUT | GPIO_OUTPUT

datatype gpio_edge = EDGE_NONE | EDGE_RISING | EDGE_FALLING | EDGE_BOTH

record gpio_config =
  gc_name :: string
  gc_direction :: gpio_direction
  gc_active_high :: bool
  gc_edge :: gpio_edge
  gc_debounce_ns :: int

definition gpio_config_post_init :: "gpio_config \<Rightarrow> gpio_error + gpio_config" where
  "gpio_config_post_init c =
     (if gc_name c = [] \<or> length (gc_name c) > 64 then Inl GPIOError
      else if \<not> (0 \<le> gc_debounce_ns c \<and> gc_debounce_ns c \<le> 60000000000) then Inl GPIOError
      else if gc_direction c = GPIO_OUTPUT \<and> gc_edge c \<noteq> EDGE_NONE then Inl GPIOError
      else Inr c)"

record gpio_event =
  ge_line :: string
  ge_sequence :: int
  ge_value :: bool
  ge_timestamp_ns :: int

record gpio_provider =
  gp_configs :: "string \<rightharpoonup> gpio_config"
  gp_values :: "string \<rightharpoonup> bool"
  gp_observed :: "string set"
  gp_last_timestamp :: "string \<rightharpoonup> int"
  gp_events :: "gpio_event list"
  gp_next_sequence :: int
  gp_event_capacity :: int
  gp_closed :: bool

definition gpio_new :: "gpio_config list \<Rightarrow> int \<Rightarrow> gpio_error + gpio_provider" where
  "gpio_new configs event_capacity =
     (if \<not> (1 \<le> event_capacity \<and> event_capacity \<le> 1024) then Inl GPIOError
      else if configs = [] then Inl GPIOError
      else if card (set (map gc_name configs)) \<noteq> length configs then Inl GPIOError
      else Inr \<lparr>gp_configs = map_of (map (\<lambda>c. (gc_name c, c)) configs),
                gp_values = map_of (map (\<lambda>c. (gc_name c,
                   if gc_direction c = GPIO_OUTPUT then \<not> gc_active_high c else False)) configs),
                gp_observed = {}, gp_last_timestamp = Map.empty, gp_events = [],
                gp_next_sequence = 0, gp_event_capacity = event_capacity, gp_closed = False\<rparr>)"

definition gpio_event_count :: "gpio_provider \<Rightarrow> int" where
  "gpio_event_count s = int (length (gp_events s))"

definition gpio_close :: "(gpio_provider, gpio_error, unit) action" where
  "gpio_close s = return () (s\<lparr>gp_closed := True, gp_events := []\<rparr>)"

definition gpio_ensure_open :: "(gpio_provider, gpio_error, unit) action" where
  "gpio_ensure_open s = (if gp_closed s then raise GPIOProviderClosed s else return () s)"

definition gpio_configure :: "string \<Rightarrow> (gpio_provider, gpio_error, gpio_config) action" where
  "gpio_configure name =
     and_then gpio_ensure_open
       (\<lambda>_ s. case gp_configs s name of None \<Rightarrow> raise GPIOError s | Some c \<Rightarrow> return c s)"

definition gpio_to_logical :: "gpio_config \<Rightarrow> bool \<Rightarrow> bool" where
  "gpio_to_logical c physical = (if gc_active_high c then physical else \<not> physical)"

definition gpio_to_physical :: "gpio_config \<Rightarrow> bool \<Rightarrow> bool" where
  "gpio_to_physical c logical = (if gc_active_high c then logical else \<not> logical)"

definition gpio_read :: "string \<Rightarrow> (gpio_provider, gpio_error, bool) action" where
  "gpio_read name =
     and_then (gpio_configure name)
       (\<lambda>c s. if gc_direction c \<noteq> GPIO_INPUT then raise GPIOPermissionError s
              else if name \<notin> gp_observed s then raise GPIOStateError s
              else case gp_values s name of
                None \<Rightarrow> raise GPIOInternal s
              | Some v \<Rightarrow> return (gpio_to_logical c v) s)"

definition gpio_write :: "string \<Rightarrow> bool \<Rightarrow> (gpio_provider, gpio_error, unit) action" where
  "gpio_write name value =
     and_then (gpio_configure name)
       (\<lambda>c s. if gc_direction c \<noteq> GPIO_OUTPUT then raise GPIOPermissionError s
              else return () (s\<lparr>gp_values := (gp_values s)(name \<mapsto> gpio_to_physical c value)\<rparr>))"

text \<open>Store a sample without an event.\<close>

definition gpio_store :: "string \<Rightarrow> bool \<Rightarrow> int \<Rightarrow> gpio_provider \<Rightarrow> gpio_provider" where
  "gpio_store name value timestamp s =
     s\<lparr>gp_last_timestamp := (gp_last_timestamp s)(name \<mapsto> timestamp),
       gp_values := (gp_values s)(name \<mapsto> value)\<rparr>"

definition gpio_edge_of :: "bool \<Rightarrow> bool \<Rightarrow> gpio_edge" where
  "gpio_edge_of previous_value next_value =
     (if \<not> previous_value \<and> next_value then EDGE_RISING else EDGE_FALLING)"

definition gpio_subscribed :: "gpio_config \<Rightarrow> gpio_edge \<Rightarrow> bool" where
  "gpio_subscribed c edge \<longleftrightarrow>
     \<not> (gc_edge c = EDGE_NONE \<or> (gc_edge c \<noteq> edge \<and> gc_edge c \<noteq> EDGE_BOTH))"

definition gpio_inject_checked ::
    "gpio_config \<Rightarrow> string \<Rightarrow> bool \<Rightarrow> int \<Rightarrow> (gpio_provider, gpio_error, gpio_event option) action" where
  "gpio_inject_checked c name value timestamp s =
     (case gp_values s name of
        None \<Rightarrow> raise GPIOInternal s
      | Some previous_physical \<Rightarrow>
        let previous_value = gpio_to_logical c previous_physical;
            next_value = gpio_to_logical c value;
            stored = gpio_store name value timestamp s
        in if name \<notin> gp_observed s
           then return None (stored\<lparr>gp_observed := insert name (gp_observed s)\<rparr>)
           else if previous_value = next_value then return None stored
           else case (if gc_debounce_ns c \<noteq> 0 then gp_last_timestamp s name else Some 0) of
             None \<Rightarrow> raise GPIOInternal s
           | Some previous_timestamp \<Rightarrow>
             if gc_debounce_ns c \<noteq> 0 \<and> timestamp - previous_timestamp < gc_debounce_ns c
             then return None stored
             else if \<not> gpio_subscribed c (gpio_edge_of previous_value next_value)
             then return None stored
             else if int (length (gp_events s)) \<ge> gp_event_capacity s then raise GPIOQueueFull s
             else let event = \<lparr>ge_line = name, ge_sequence = gp_next_sequence s,
                               ge_value = next_value, ge_timestamp_ns = timestamp\<rparr>
                  in return (Some event)
                       (stored\<lparr>gp_next_sequence := gp_next_sequence s + 1,
                               gp_events := gp_events s @ [event]\<rparr>))"

definition gpio_inject_input ::
    "string \<Rightarrow> bool \<Rightarrow> int \<Rightarrow> (gpio_provider, gpio_error, gpio_event option) action" where
  "gpio_inject_input name value timestamp =
     and_then (gpio_configure name)
       (\<lambda>c s. if gc_direction c \<noteq> GPIO_INPUT then raise GPIOPermissionError s
              else if timestamp < 0 then raise GPIOError s
              else if (case gp_last_timestamp s name of
                         None \<Rightarrow> False | Some previous \<Rightarrow> timestamp \<le> previous)
              then raise GPIOStateError s
              else gpio_inject_checked c name value timestamp s)"

definition gpio_read_event :: "(gpio_provider, gpio_error, gpio_event option) action" where
  "gpio_read_event =
     and_then gpio_ensure_open
       (\<lambda>_ s. case gp_events s of
                [] \<Rightarrow> return None s
              | e # rest \<Rightarrow> return (Some e) (s\<lparr>gp_events := rest\<rparr>))"

section \<open>Sequences of operations\<close>

datatype gpio_op =
    GpioClose
  | GpioConfigure string
  | GpioRead string
  | GpioWrite string bool
  | GpioInject string bool int
  | GpioReadEvent

fun gpio_step :: "gpio_op \<Rightarrow> gpio_provider \<Rightarrow> gpio_provider" where
  "gpio_step GpioClose s = snd (gpio_close s)"
| "gpio_step (GpioConfigure n) s = snd (gpio_configure n s)"
| "gpio_step (GpioRead n) s = snd (gpio_read n s)"
| "gpio_step (GpioWrite n v) s = snd (gpio_write n v s)"
| "gpio_step (GpioInject n v t) s = snd (gpio_inject_input n v t s)"
| "gpio_step GpioReadEvent s = snd (gpio_read_event s)"

text \<open>The sequence numbers an operation hands to the consumer of the event queue.\<close>

fun gpio_out :: "gpio_op \<Rightarrow> gpio_provider \<Rightarrow> int list" where
  "gpio_out GpioReadEvent s =
     (case gpio_read_event s of (Inr (Some e), _) \<Rightarrow> [ge_sequence e] | _ \<Rightarrow> [])"
| "gpio_out _ s = []"

section \<open>What one operation does\<close>

lemmas gpio_defs [op_defs] =
  gpio_close_def gpio_ensure_open_def gpio_configure_def gpio_read_def gpio_write_def
  gpio_inject_input_def gpio_read_event_def and_then_def

lemma gpio_logical_physical [simp]:
  "gpio_to_logical c (gpio_to_physical c b) = b" "gpio_to_physical c (gpio_to_logical c b) = b"
  by (simp_all add: gpio_to_logical_def gpio_to_physical_def)

lemma gpio_to_logical_eq_iff [simp]: "gpio_to_logical c a = gpio_to_logical c b \<longleftrightarrow> a = b"
  by (auto simp: gpio_to_logical_def)

lemma gpio_edge_of_change:
  "a \<noteq> b \<Longrightarrow> gpio_edge_of a b = (if b then EDGE_RISING else EDGE_FALLING)"
  by (auto simp: gpio_edge_of_def)

text \<open>The invariant of a provider.\<close>

definition gpio_event_ok :: "(string \<rightharpoonup> gpio_config) \<Rightarrow> gpio_event \<Rightarrow> bool" where
  "gpio_event_ok configs e \<longleftrightarrow>
     (\<exists>c. configs (ge_line e) = Some c \<and> gc_direction c = GPIO_INPUT
         \<and> gpio_subscribed c (if ge_value e then EDGE_RISING else EDGE_FALLING))"

definition gpio_ok :: "gpio_provider \<Rightarrow> bool" where
  "gpio_ok s \<longleftrightarrow>
     (\<forall>n. gp_values s n = None \<longleftrightarrow> gp_configs s n = None)
     \<and> (\<forall>n. gp_last_timestamp s n = None \<longleftrightarrow> n \<notin> gp_observed s)
     \<and> (\<forall>n t. gp_last_timestamp s n = Some t \<longrightarrow> 0 \<le> t)
     \<and> 1 \<le> gp_event_capacity s \<and> int (length (gp_events s)) \<le> gp_event_capacity s
     \<and> (gp_closed s \<longrightarrow> gp_events s = [])
     \<and> (\<forall>e\<in>set (gp_events s). gpio_event_ok (gp_configs s) e)"

lemma gpio_ok_values: "gpio_ok s \<Longrightarrow> gp_values s n = None \<longleftrightarrow> gp_configs s n = None"
  and gpio_ok_last: "gpio_ok s \<Longrightarrow> gp_last_timestamp s n = None \<longleftrightarrow> n \<notin> gp_observed s"
  by (simp_all add: gpio_ok_def)

text \<open>
  When a sample is turned into an event: the line is an observed input, its level changed, it
  was stable for the debounce time, its edge is subscribed and the queue has room.
\<close>

definition gpio_event_wanted :: "gpio_provider \<Rightarrow> gpio_config \<Rightarrow> string \<Rightarrow> bool \<Rightarrow> int \<Rightarrow> bool" where
  "gpio_event_wanted s c name value timestamp \<longleftrightarrow>
     \<not> gp_closed s \<and> gp_configs s name = Some c \<and> gc_direction c = GPIO_INPUT
     \<and> (\<exists>last. gp_last_timestamp s name = Some last \<and> last < timestamp
           \<and> (gc_debounce_ns c = 0 \<or> gc_debounce_ns c \<le> timestamp - last))
     \<and> gp_values s name = Some (\<not> value)
     \<and> gpio_subscribed c (if gpio_to_logical c value then EDGE_RISING else EDGE_FALLING)"

definition gpio_event_due :: "gpio_provider \<Rightarrow> gpio_config \<Rightarrow> string \<Rightarrow> bool \<Rightarrow> int \<Rightarrow> bool" where
  "gpio_event_due s c name value timestamp \<longleftrightarrow>
     gpio_event_wanted s c name value timestamp
     \<and> int (length (gp_events s)) < gp_event_capacity s"

lemmas gpio_due_defs = gpio_event_due_def gpio_event_wanted_def

definition gpio_new_event :: "gpio_provider \<Rightarrow> gpio_config \<Rightarrow> string \<Rightarrow> bool \<Rightarrow> int \<Rightarrow> gpio_event" where
  "gpio_new_event s c name value timestamp =
     \<lparr>ge_line = name, ge_sequence = gp_next_sequence s, ge_value = gpio_to_logical c value,
      ge_timestamp_ns = timestamp\<rparr>"

text \<open>A sample that passed the guards, on a line that was or was not observed before.\<close>

lemmas gpio_inject_simps =
  gpio_inject_checked_def Let_def gpio_due_defs insert_absorb gpio_store_def
  gpio_edge_of_change gpio_new_event_def

lemma gpio_checked_cases:
  assumes "gpio_inject_checked c name value timestamp s = (r, s')" "gpio_ok s"
    and "gp_configs s name = Some c" "gc_direction c = GPIO_INPUT" "\<not> gp_closed s"
    and "\<forall>last. gp_last_timestamp s name = Some last \<longrightarrow> last < timestamp"
  shows "r = Inl GPIOQueueFull \<and> s' = s \<and> \<not> gpio_event_due s c name value timestamp
      \<and> gpio_event_wanted s c name value timestamp
    \<or> r = Inr None \<and> \<not> gpio_event_due s c name value timestamp
      \<and> s' = (gpio_store name value timestamp s)\<lparr>gp_observed := insert name (gp_observed s)\<rparr>
    \<or> gpio_event_due s c name value timestamp
      \<and> r = Inr (Some (gpio_new_event s c name value timestamp))
      \<and> s' = (gpio_store name value timestamp s)
             \<lparr>gp_next_sequence := gp_next_sequence s + 1,
              gp_events := gp_events s @ [gpio_new_event s c name value timestamp]\<rparr>"
proof -
  obtain old where old: "gp_values s name = Some old"
    using gpio_ok_values [OF assms(2), of name] assms(3) by auto
  show ?thesis
  proof (cases "gp_last_timestamp s name")
    case None
    then have "name \<notin> gp_observed s" using gpio_ok_last [OF assms(2)] by simp
    with assms(1) old None show ?thesis by (auto simp: gpio_inject_simps)
  next
    case (Some last)
    then have obs: "name \<in> gp_observed s" using gpio_ok_last [OF assms(2), of name] by simp
    show ?thesis
    proof (cases "old = value")
      case True
      with assms(1) old obs show ?thesis by (auto simp: gpio_inject_simps)
    next
      case False
      then have "old = (\<not> value)" by simp
      with assms old obs Some show ?thesis by (auto simp: gpio_inject_simps split: if_splits)
    qed
  qed
qed

text \<open>An injected sample is refused without effect, stored silently, or stored with an event.\<close>

lemma gpio_inject_cases:
  assumes "gpio_inject_input name value timestamp s = (r, s')" "gpio_ok s"
  obtains (refused) e where "r = Inl e" "s' = s" "e \<noteq> GPIOInternal"
      "\<forall>c. \<not> gpio_event_due s c name value timestamp"
      "e = GPIOQueueFull \<longrightarrow> (\<exists>c. gpio_event_wanted s c name value timestamp)"
  | (silent) c where "r = Inr None" "gp_configs s name = Some c" "gc_direction c = GPIO_INPUT"
      "\<not> gp_closed s" "0 \<le> timestamp"
      "s' = (gpio_store name value timestamp s)\<lparr>gp_observed := insert name (gp_observed s)\<rparr>"
      "\<forall>c. \<not> gpio_event_due s c name value timestamp"
  | (event) c where "gpio_event_due s c name value timestamp"
      "r = Inr (Some (gpio_new_event s c name value timestamp))"
      "s' = (gpio_store name value timestamp s)
             \<lparr>gp_next_sequence := gp_next_sequence s + 1,
              gp_events := gp_events s @ [gpio_new_event s c name value timestamp]\<rparr>"
proof (cases "\<exists>c. \<not> gp_closed s \<and> gp_configs s name = Some c \<and> gc_direction c = GPIO_INPUT
      \<and> 0 \<le> timestamp \<and> (\<forall>last. gp_last_timestamp s name = Some last \<longrightarrow> last < timestamp)")
  case False
  have "\<forall>c. \<not> gpio_event_due s c name value timestamp"
    using False assms(2) by (force simp: gpio_due_defs gpio_ok_def)
  moreover have "\<exists>e. r = Inl e \<and> s' = s \<and> e \<noteq> GPIOInternal \<and> e \<noteq> GPIOQueueFull"
    using False assms(1) by (auto simp: gpio_defs split: if_splits option.splits)
  ultimately show thesis using refused by blast
next
  case True
  then obtain c where c: "\<not> gp_closed s" "gp_configs s name = Some c" "gc_direction c = GPIO_INPUT"
    "0 \<le> timestamp" "\<forall>last. gp_last_timestamp s name = Some last \<longrightarrow> last < timestamp" by blast
  then have "gpio_inject_checked c name value timestamp s = (r, s')"
    using assms(1) by (auto simp: gpio_defs split: option.splits)
  note cases = gpio_checked_cases [OF this assms(2) c(2,3,1,5)]
  have due: "gpio_event_due s c' name value timestamp \<Longrightarrow> c' = c" for c'
    using c(2) by (simp add: gpio_due_defs)
  show thesis
  proof (cases "gpio_event_due s c name value timestamp")
    case True
    with cases show thesis by (intro event) auto
  next
    case False
    then have none: "\<forall>c'. \<not> gpio_event_due s c' name value timestamp" using due by blast
    from cases False consider "r = Inl GPIOQueueFull" "s' = s"
          "gpio_event_wanted s c name value timestamp"
      | "r = Inr None" "s' = (gpio_store name value timestamp s)
             \<lparr>gp_observed := insert name (gp_observed s)\<rparr>"
      by blast
    then show thesis
      by cases (use none c in \<open>auto intro: refused silent\<close>)
  qed
qed

lemma gpio_close_step [simp]: "gpio_step GpioClose s = s\<lparr>gp_closed := True, gp_events := []\<rparr>"
  by (simp add: gpio_close_def)

lemma gpio_pure_steps [simp]:
  "gpio_step (GpioConfigure n) s = s" "gpio_step (GpioRead n) s = s"
  by (auto simp: gpio_defs split: option.split)

lemma gpio_write_step:
  "gpio_step (GpioWrite n v) s = s
   \<or> (\<exists>c. gp_configs s n = Some c \<and> gc_direction c = GPIO_OUTPUT
          \<and> gpio_step (GpioWrite n v) s
             = s\<lparr>gp_values := (gp_values s)(n \<mapsto> gpio_to_physical c v)\<rparr>)"
  by (auto simp: gpio_defs split: option.split gpio_direction.split)

lemma gpio_read_event_step:
  "gpio_step GpioReadEvent s = (if gp_closed s then s else s\<lparr>gp_events := tl (gp_events s)\<rparr>)"
  by (auto simp: gpio_defs split: list.split)

lemma gpio_inject_step: "gpio_step (GpioInject n v t) s = snd (gpio_inject_input n v t s)"
  by simp

declare gpio_step.simps [simp del]

lemma gpio_store_simps [simp]:
  "gp_configs (gpio_store n v t s) = gp_configs s"
  "gp_values (gpio_store n v t s) = (gp_values s)(n \<mapsto> v)"
  "gp_last_timestamp (gpio_store n v t s) = (gp_last_timestamp s)(n \<mapsto> t)"
  "gp_observed (gpio_store n v t s) = gp_observed s"
  "gp_events (gpio_store n v t s) = gp_events s"
  "gp_next_sequence (gpio_store n v t s) = gp_next_sequence s"
  "gp_event_capacity (gpio_store n v t s) = gp_event_capacity s"
  "gp_closed (gpio_store n v t s) = gp_closed s"
  by (simp_all add: gpio_store_def)

lemma gpio_inject_ok:
  assumes "gpio_inject_input n v t s = (r, s')" "gpio_ok s"
  shows "gpio_ok s'"
  using assms
proof (cases rule: gpio_inject_cases)
  case (refused e)
  then show ?thesis using assms(2) by simp
next
  case (silent c)
  then show ?thesis using assms(2) by (auto simp: gpio_ok_def)
next
  case (event c)
  then have "n \<in> gp_observed s" and "0 \<le> t"
    using gpio_ok_last [OF assms(2), of n] assms(2)
    by (force simp: gpio_due_defs gpio_ok_def)+
  with event assms(2) show ?thesis
    by (auto simp: gpio_ok_def gpio_due_defs gpio_new_event_def gpio_event_ok_def)
qed

lemma gpio_step_ok:
  assumes "gpio_ok s"
  shows "gpio_ok (gpio_step op s)"
proof (cases op)
  case (GpioWrite n v)
  with assms gpio_write_step [of n v s] show ?thesis
    by (elim disjE exE conjE) (simp_all add: gpio_ok_def)
next
  case (GpioInject n v t)
  with assms show ?thesis
    by (cases "gpio_inject_input n v t s") (auto simp: gpio_inject_step intro: gpio_inject_ok)
next
  case GpioReadEvent
  with assms show ?thesis
    by (cases "gp_events s") (auto simp: gpio_read_event_step gpio_ok_def)
next
  case GpioClose
  with assms show ?thesis by (auto simp: gpio_ok_def)
qed (use assms in \<open>simp_all\<close>)

lemma gpio_new_ok:
  assumes "gpio_new configs cap = Inr s"
  shows "gpio_ok s"
  using assms by (auto simp: gpio_new_def gpio_ok_def split: if_splits)

interpretation gpio: machine_invariant gpio_step gpio_ok
  by unfold_locales (rule gpio_step_ok)

text \<open>The event queue is a numbered stream.\<close>

interpretation gpio_stream: numbered_stream gpio_step gpio_out
    "\<lambda>s. map ge_sequence (gp_events s)" gp_next_sequence gp_closed gpio_ok
proof unfold_locales
  fix op s
  assume ok: "gpio_ok s"
  show "gpio_ok (gpio_step op s)" using ok by (rule gpio_step_ok)
  show "gp_closed (gpio_step op s) \<and> gpio_out op s = []" if "gp_closed s"
    using that by (cases op) (auto simp: gpio_step.simps gpio_defs)
  show "gp_closed (gpio_step op s) \<and> gpio_out op s = []
      \<or> (\<exists>n. gp_next_sequence (gpio_step op s) = gp_next_sequence s + int n
            \<and> gpio_out op s @ map ge_sequence (gp_events (gpio_step op s))
              = map ge_sequence (gp_events s) @ upfrom (gp_next_sequence s) n)"
    if "\<not> gp_closed s"
  proof (cases op)
    case (GpioInject n v t)
    obtain r s' where inj: "gpio_inject_input n v t s = (r, s')"
      by (cases "gpio_inject_input n v t s") auto
    from inj ok show ?thesis
    proof (cases rule: gpio_inject_cases)
      case (event c)
      have "\<exists>k. gp_next_sequence s' = gp_next_sequence s + int k
          \<and> map ge_sequence (gp_events s')
            = map ge_sequence (gp_events s) @ upfrom (gp_next_sequence s) k"
        by (rule exI [of _ 1]) (use event in \<open>simp add: gpio_new_event_def\<close>)
      then show ?thesis by (simp add: GpioInject gpio_inject_step inj)
    qed (use GpioInject inj in \<open>auto simp: gpio_inject_step intro!: exI [of _ 0]\<close>)
  next
    case (GpioWrite n v)
    then show ?thesis using gpio_write_step [of n v s]
      by (auto intro!: exI [of _ 0])
  next
    case GpioReadEvent
    then show ?thesis using that
      by (cases "gp_events s") (auto intro!: exI [of _ 0] simp: gpio_step.simps gpio_defs)
  qed (auto intro!: exI [of _ 0])
qed

section \<open>Properties\<close>

text \<open>
  C22: event delivery has no gap, no duplicate and keeps the order. Whatever the callers of a
  provider do, the events read from its queue carry the sequence numbers 0, 1, 2 and so on.
\<close>

theorem gpio_delivery_is_gapless:
  assumes "gpio_new configs event_capacity = Inr s"
  shows "deliveries gpio_step gpio_out ops s
         = upfrom 0 (length (deliveries gpio_step gpio_out ops s))"
proof (rule gpio_stream.consecutive_deliveries [where m = 0])
  show "gpio_ok s" using assms by (rule gpio_new_ok)
qed (use assms in \<open>auto simp: gpio_new_def split: if_splits\<close>)

text \<open>
  C23: in every state a provider can reach, an injected sample yields an event exactly when the
  line is a configured input of an open provider that was observed before, the sample is later
  than the last one and changes the level, the debounce time has passed, the edge is subscribed
  and the queue has room; a refused sample changes nothing and no dictionary lookup fails.
\<close>

theorem gpio_event_exactly_when_due:
  assumes "gpio_new configs event_capacity = Inr s0" and "s = fold gpio_step ops s0"
    and "gpio_inject_input name value timestamp s = (r, s')"
  shows "(\<forall>ev. r = Inr (Some ev) \<longleftrightarrow>
            (\<exists>c. gpio_event_due s c name value timestamp \<and> ev = gpio_new_event s c name value timestamp))
         \<and> (\<forall>e. r = Inl e \<longrightarrow> s' = s \<and> e \<noteq> GPIOInternal)"
proof -
  have "gpio_ok s" using gpio.inv_run gpio_new_ok [OF assms(1)] assms(2) by blast
  with assms(3) show ?thesis
    by (cases rule: gpio_inject_cases) (auto simp: gpio_due_defs)
qed

text \<open>
  Backpressure loses no edge. When the queue is full the sample is not committed, and after
  the consumer takes one event the same sample is accepted and yields its event.
\<close>

theorem gpio_backpressure_is_lossless:
  assumes "gpio_new configs event_capacity = Inr s0" and "s = fold gpio_step ops s0"
    and "gpio_inject_input name value timestamp s = (Inl GPIOQueueFull, s')"
  shows "s' = s \<and> (\<exists>c s''. gpio_inject_input name value timestamp (gpio_step GpioReadEvent s')
            = (Inr (Some (gpio_new_event s c name value timestamp)), s''))"
proof -
  have ok: "gpio_ok s" using gpio.inv_run gpio_new_ok [OF assms(1)] assms(2) by blast
  obtain c where same: "s' = s" and want: "gpio_event_wanted s c name value timestamp"
    using assms(3) ok by (cases rule: gpio_inject_cases) auto
  let ?t = "gpio_step GpioReadEvent s"
  have nd: "\<not> gpio_event_due s c name value timestamp"
    using assms(3) ok by (cases rule: gpio_inject_cases) auto
  have t: "?t = s\<lparr>gp_events := tl (gp_events s)\<rparr>"
    using want by (simp add: gpio_read_event_step gpio_event_wanted_def)
  have "length (tl (gp_events s)) < length (gp_events s)"
    using ok want nd by (cases "gp_events s") (auto simp: gpio_ok_def gpio_event_due_def)
  then have due: "gpio_event_due ?t c name value timestamp"
    using ok want by (auto simp: t gpio_due_defs gpio_ok_def)
  have okt: "gpio_ok ?t" using ok by (rule gpio_step_ok)
  obtain r s'' where inj: "gpio_inject_input name value timestamp ?t = (r, s'')"
    by (cases "gpio_inject_input name value timestamp ?t") auto
  from inj okt have "r = Inr (Some (gpio_new_event ?t c name value timestamp))"
    using due by (cases rule: gpio_inject_cases) (auto simp: gpio_due_defs)
  moreover have "gpio_new_event ?t c name value timestamp = gpio_new_event s c name value timestamp"
    by (simp add: t gpio_new_event_def)
  ultimately show ?thesis using same inj by metis
qed

section \<open>A concrete provider\<close>

definition demo_button :: gpio_config where
  "demo_button =
     \<lparr>gc_name = ''button'', gc_direction = GPIO_INPUT, gc_active_high = False,
      gc_edge = EDGE_BOTH, gc_debounce_ns = 5\<rparr>"

definition demo_gpio :: gpio_provider where
  "demo_gpio = projr (gpio_new [demo_button] 1)"

definition demo_gpio_ops :: "gpio_op list" where
  "demo_gpio_ops = [GpioInject ''button'' True 1, GpioInject ''button'' False 9]"

lemma demo_gpio_new: "gpio_new [demo_button] 1 = Inr demo_gpio"
  by (simp add: demo_gpio_def gpio_new_def)

theorem gpio_delivery_is_gapless_witness:
  "deliveries gpio_step gpio_out (demo_gpio_ops @ [GpioReadEvent]) demo_gpio = [0]
   \<and> deliveries gpio_step gpio_out (demo_gpio_ops @ [GpioReadEvent]) demo_gpio = upfrom 0 1"
  using gpio_delivery_is_gapless [OF demo_gpio_new, of "demo_gpio_ops @ [GpioReadEvent]"]
  by (auto simp: demo_gpio_ops_def demo_gpio_def demo_button_def gpio_new_def gpio_step.simps gpio_defs
      gpio_inject_checked_def gpio_store_def Let_def gpio_to_logical_def gpio_subscribed_def)

theorem gpio_event_exactly_when_due_witness:
  "\<exists>r s'. gpio_inject_input ''button'' True 20 (fold gpio_step demo_gpio_ops demo_gpio) = (r, s')
     \<and> (\<forall>e. r = Inl e \<longrightarrow> s' = fold gpio_step demo_gpio_ops demo_gpio \<and> e \<noteq> GPIOInternal)"
proof -
  obtain r s' where
    "gpio_inject_input ''button'' True 20 (fold gpio_step demo_gpio_ops demo_gpio) = (r, s')"
    by (cases "gpio_inject_input ''button'' True 20 (fold gpio_step demo_gpio_ops demo_gpio)") auto
  with gpio_event_exactly_when_due [OF demo_gpio_new refl this] show ?thesis by blast
qed

theorem gpio_backpressure_is_lossless_witness:
  "\<exists>c s''. gpio_inject_input ''button'' True 20
      (gpio_step GpioReadEvent (fold gpio_step demo_gpio_ops demo_gpio))
    = (Inr (Some (gpio_new_event (fold gpio_step demo_gpio_ops demo_gpio) c ''button'' True 20)), s'')"
proof -
  have "gpio_inject_input ''button'' True 20 (fold gpio_step demo_gpio_ops demo_gpio)
      = (Inl GPIOQueueFull, fold gpio_step demo_gpio_ops demo_gpio)"
    by (simp add: demo_gpio_ops_def demo_gpio_def demo_button_def gpio_new_def gpio_step.simps gpio_defs
        gpio_inject_checked_def gpio_store_def Let_def gpio_to_logical_def gpio_subscribed_def
        gpio_edge_of_def)
  from gpio_backpressure_is_lossless [OF demo_gpio_new refl this] show ?thesis by blast
qed

end
