(* ===== verification/Irq.thy ===== *)
theory Irq
  imports Prelude
begin

text \<open>
  The IRQ provider of \<^verbatim>\<open>hardware/linux_drivers/irq/contract.py\<close>.

  \<open>irq_provider\<close> has the fields of the Python object. Most methods hold the lock for their whole
  body and are one operation. \<^verbatim>\<open>stop\<close> waits on a condition and gives the lock up while it waits, and
  \<^verbatim>\<open>close\<close> takes the lock three times, so those two are cut at the points where another thread can
  run: \<open>irq_stop_section\<close> is what \<^verbatim>\<open>stop\<close> does between acquiring the lock and waiting or returning.
  \<open>irq_system\<close> adds which threads are inside \<^verbatim>\<open>stop\<close> or \<^verbatim>\<open>close\<close>, and an \<open>irq_op\<close> is one section
  of one thread; a list of them is an interleaving. The monotonic clock enters only through whether
  the deadline has passed when a section looks at it, a Boolean of the section. Arguments have the
  types the signatures declare, so the guards that reject another type have no branch here.
\<close>

datatype irq_error = IRQError | IRQHandlerTimeout | IRQNotShared | IRQWorkCancelled

datatype irq_state = IRQ_DISABLED | IRQ_ENABLED | IRQ_STOPPING | IRQ_CLOSED

record irq_line =
  il_number :: int
  il_shared :: bool
  il_priority :: int

definition irq_line_post_init :: "irq_line \<Rightarrow> irq_error + irq_line" where
  "irq_line_post_init l =
     (if il_number l < 0 then Inl IRQError
      else if \<not> (0 \<le> il_priority l \<and> il_priority l \<le> 99) then Inl IRQError
      else Inr l)"

record irq_work =
  iw_sequence :: int
  iw_owner :: string
  iw_line :: int

record irq_provider =
  ip_line :: irq_line
  ip_work_capacity :: int
  ip_state :: irq_state
  ip_handlers :: "string set"
  ip_works :: "irq_work list"
  ip_active_work :: "int set"
  ip_next_sequence :: int

definition irq_new :: "irq_line \<Rightarrow> int \<Rightarrow> irq_error + irq_provider" where
  "irq_new line work_capacity =
     (if \<not> (1 \<le> work_capacity \<and> work_capacity \<le> 1024) then Inl IRQError
      else Inr \<lparr>ip_line = line, ip_work_capacity = work_capacity, ip_state = IRQ_DISABLED,
                ip_handlers = {}, ip_works = [], ip_active_work = {}, ip_next_sequence = 0\<rparr>)"

definition irq_active_count :: "irq_provider \<Rightarrow> nat" where
  "irq_active_count s = card (ip_active_work s)"

definition irq_pending_work :: "irq_provider \<Rightarrow> nat" where
  "irq_pending_work s = length (ip_works s)"

definition irq_ensure_not_closed :: "(irq_provider, irq_error, unit) action" where
  "irq_ensure_not_closed s = (if ip_state s = IRQ_CLOSED then raise IRQError s else return () s)"

definition irq_register :: "string \<Rightarrow> (irq_provider, irq_error, unit) action" where
  "irq_register owner =
     and_then irq_ensure_not_closed
       (\<lambda>_ s. if owner = [] \<or> owner \<in> ip_handlers s then raise IRQError s
              else if \<not> il_shared (ip_line s) \<and> ip_handlers s \<noteq> {} then raise IRQError s
              else return () (s\<lparr>ip_handlers := insert owner (ip_handlers s)\<rparr>))"

definition irq_enable :: "(irq_provider, irq_error, unit) action" where
  "irq_enable =
     and_then irq_ensure_not_closed
       (\<lambda>_ s. if ip_handlers s = {} then raise IRQNotShared s
              else if ip_state s = IRQ_STOPPING then raise IRQError s
              else return () (s\<lparr>ip_state := IRQ_ENABLED\<rparr>))"

definition irq_trigger :: "string \<Rightarrow> (irq_provider, irq_error, irq_work) action" where
  "irq_trigger owner =
     and_then irq_ensure_not_closed
       (\<lambda>_ s. if ip_state s \<noteq> IRQ_ENABLED then raise IRQError s
              else if owner \<notin> ip_handlers s then raise IRQNotShared s
              else if int (length (ip_works s)) \<ge> ip_work_capacity s then raise IRQError s
              else let work = \<lparr>iw_sequence = ip_next_sequence s, iw_owner = owner,
                               iw_line = il_number (ip_line s)\<rparr>
                   in return work
                        (s\<lparr>ip_next_sequence := ip_next_sequence s + 1,
                           ip_works := ip_works s @ [work],
                           ip_active_work := insert (iw_sequence work) (ip_active_work s)\<rparr>))"

definition irq_complete_top_half :: "irq_work \<Rightarrow> (irq_provider, irq_error, unit) action" where
  "irq_complete_top_half work =
     and_then irq_ensure_not_closed
       (\<lambda>_ s. if work \<notin> set (ip_works s) \<or> iw_sequence work \<notin> ip_active_work s
              then raise IRQError s
              else return () (s\<lparr>ip_active_work := ip_active_work s - {iw_sequence work}\<rparr>))"

definition irq_run_bottom_half :: "irq_work \<Rightarrow> (irq_provider, irq_error, unit) action" where
  "irq_run_bottom_half work =
     and_then irq_ensure_not_closed
       (\<lambda>_ s. if work \<notin> set (ip_works s) then raise IRQWorkCancelled s
              else if iw_sequence work \<in> ip_active_work s then raise IRQError s
              else return () (s\<lparr>ip_works := remove1 work (ip_works s)\<rparr>))"

definition irq_cancel_work :: "(irq_provider, irq_error, nat) action" where
  "irq_cancel_work =
     and_then irq_ensure_not_closed
       (\<lambda>_ s. return (length (filter (\<lambda>w. iw_sequence w \<notin> ip_active_work s) (ip_works s)))
                (s\<lparr>ip_works := filter (\<lambda>w. iw_sequence w \<in> ip_active_work s) (ip_works s)\<rparr>))"

text \<open>
  One pass of the loop in \<^verbatim>\<open>stop\<close>: \<open>Inr True\<close> when the method returns, \<open>Inr False\<close> when the thread
  goes to wait, \<open>Inl IRQHandlerTimeout\<close> when the deadline has passed with work still active.
\<close>

definition irq_stop_section :: "bool \<Rightarrow> (irq_provider, irq_error, bool) action" where
  "irq_stop_section expired s =
     (if ip_active_work s \<noteq> {} then
        (if expired then raise IRQHandlerTimeout s else return False s)
      else return True (s\<lparr>ip_works := [], ip_state := IRQ_DISABLED\<rparr>))"

definition irq_stop_enter :: "bool \<Rightarrow> (irq_provider, irq_error, bool) action" where
  "irq_stop_enter expired =
     and_then irq_ensure_not_closed
       (\<lambda>_ s. irq_stop_section expired (s\<lparr>ip_state := IRQ_STOPPING\<rparr>))"

definition irq_close_finish :: "irq_provider \<Rightarrow> irq_provider" where
  "irq_close_finish s = s\<lparr>ip_handlers := {}, ip_state := IRQ_CLOSED\<rparr>"

section \<open>Threads\<close>

text \<open>
  Where the thread holding the close lock is: not in \<^verbatim>\<open>close\<close>, past the check for \<^verbatim>\<open>CLOSED\<close>, waiting
  in \<^verbatim>\<open>stop\<close>, or past \<^verbatim>\<open>stop\<close> and before the final section.
\<close>

datatype irq_closer = NoCloser | CloserChecked | CloserWaiting | CloserStopped

record irq_system =
  is_provider :: irq_provider
  is_waiters :: nat
  is_closer :: irq_closer

datatype irq_op =
    IrqRegister string
  | IrqEnable
  | IrqTrigger string
  | IrqCompleteTop irq_work
  | IrqRunBottom irq_work
  | IrqCancel
  | IrqStopEnter bool
  | IrqStopWake bool
  | IrqCloseEnter
  | IrqCloseStop bool
  | IrqCloseWake bool
  | IrqCloseFinish

definition irq_apply :: "(irq_provider, irq_error, 'a) action \<Rightarrow> irq_system \<Rightarrow> irq_system" where
  "irq_apply m y = y\<lparr>is_provider := snd (m (is_provider y))\<rparr>"

fun irq_step :: "irq_op \<Rightarrow> irq_system \<Rightarrow> irq_system" where
  "irq_step (IrqRegister owner) y = irq_apply (irq_register owner) y"
| "irq_step IrqEnable y = irq_apply irq_enable y"
| "irq_step (IrqTrigger owner) y = irq_apply (irq_trigger owner) y"
| "irq_step (IrqCompleteTop w) y = irq_apply (irq_complete_top_half w) y"
| "irq_step (IrqRunBottom w) y = irq_apply (irq_run_bottom_half w) y"
| "irq_step IrqCancel y = irq_apply irq_cancel_work y"
| "irq_step (IrqStopEnter expired) y =
     (case irq_stop_enter expired (is_provider y) of
        (Inr False, s) \<Rightarrow> y\<lparr>is_provider := s, is_waiters := is_waiters y + 1\<rparr>
      | (_, s) \<Rightarrow> y\<lparr>is_provider := s\<rparr>)"
| "irq_step (IrqStopWake expired) y =
     (if is_waiters y = 0 then y
      else case irq_stop_section expired (is_provider y) of
        (Inr False, s) \<Rightarrow> y\<lparr>is_provider := s\<rparr>
      | (_, s) \<Rightarrow> y\<lparr>is_provider := s, is_waiters := is_waiters y - 1\<rparr>)"
| "irq_step IrqCloseEnter y =
     (if is_closer y = NoCloser \<and> ip_state (is_provider y) \<noteq> IRQ_CLOSED
      then y\<lparr>is_closer := CloserChecked\<rparr> else y)"
| "irq_step (IrqCloseStop expired) y =
     (if is_closer y \<noteq> CloserChecked then y
      else case irq_stop_enter expired (is_provider y) of
        (Inr True, s) \<Rightarrow> y\<lparr>is_provider := s, is_closer := CloserStopped\<rparr>
      | (Inr False, s) \<Rightarrow> y\<lparr>is_provider := s, is_closer := CloserWaiting\<rparr>
      | (Inl _, s) \<Rightarrow> y\<lparr>is_provider := s, is_closer := NoCloser\<rparr>)"
| "irq_step (IrqCloseWake expired) y =
     (if is_closer y \<noteq> CloserWaiting then y
      else case irq_stop_section expired (is_provider y) of
        (Inr True, s) \<Rightarrow> y\<lparr>is_provider := s, is_closer := CloserStopped\<rparr>
      | (Inr False, s) \<Rightarrow> y\<lparr>is_provider := s\<rparr>
      | (Inl _, s) \<Rightarrow> y\<lparr>is_provider := s, is_closer := NoCloser\<rparr>)"
| "irq_step IrqCloseFinish y =
     (if is_closer y \<noteq> CloserStopped then y
      else y\<lparr>is_provider := irq_close_finish (is_provider y), is_closer := NoCloser\<rparr>)"

definition irq_start :: "irq_provider \<Rightarrow> irq_system" where
  "irq_start s = \<lparr>is_provider = s, is_waiters = 0, is_closer = NoCloser\<rparr>"

text \<open>What an interleaving does to interrupts, by sequence number.\<close>

datatype irq_event = IrqRaised int | IrqCompleted int | IrqRan int

fun irq_out :: "irq_op \<Rightarrow> irq_system \<Rightarrow> irq_event list" where
  "irq_out (IrqTrigger owner) y =
     (case irq_trigger owner (is_provider y) of
        (Inr w, _) \<Rightarrow> [IrqRaised (iw_sequence w)] | (Inl _, _) \<Rightarrow> [])"
| "irq_out (IrqCompleteTop w) y =
     (case irq_complete_top_half w (is_provider y) of
        (Inr _, _) \<Rightarrow> [IrqCompleted (iw_sequence w)] | (Inl _, _) \<Rightarrow> [])"
| "irq_out (IrqRunBottom w) y =
     (case irq_run_bottom_half w (is_provider y) of
        (Inr _, _) \<Rightarrow> [IrqRan (iw_sequence w)] | (Inl _, _) \<Rightarrow> [])"
| "irq_out _ y = []"

text \<open>A top half completes after its interrupt was raised, a bottom half runs after its top half.\<close>

fun irq_need :: "irq_event \<Rightarrow> irq_event list" where
  "irq_need (IrqRaised q) = []"
| "irq_need (IrqCompleted q) = [IrqRaised q]"
| "irq_need (IrqRan q) = [IrqCompleted q]"

section \<open>Histories\<close>

lemmas irq_defs [op_defs] =
  irq_ensure_not_closed_def irq_register_def irq_enable_def irq_trigger_def
  irq_complete_top_half_def irq_run_bottom_half_def irq_cancel_work_def
  irq_stop_section_def irq_stop_enter_def irq_close_finish_def irq_apply_def and_then_def

definition irq_hist :: "irq_event list \<Rightarrow> irq_provider \<Rightarrow> bool" where
  "irq_hist h s \<longleftrightarrow>
     distinct h \<and> justified irq_need h
     \<and> (\<forall>q. IrqRaised q \<in> set h \<longleftrightarrow> 0 \<le> q \<and> q < ip_next_sequence s)
     \<and> 0 \<le> ip_next_sequence s
     \<and> (\<forall>q. IrqCompleted q \<in> set h \<longrightarrow> IrqRaised q \<in> set h \<and> q \<notin> ip_active_work s)
     \<and> (\<forall>q. IrqRan q \<in> set h \<longrightarrow> IrqCompleted q \<in> set h \<and> q \<notin> iw_sequence ` set (ip_works s))
     \<and> (\<forall>w\<in>set (ip_works s). IrqRaised (iw_sequence w) \<in> set h
          \<and> (iw_sequence w \<in> ip_active_work s \<or> IrqCompleted (iw_sequence w) \<in> set h))
     \<and> distinct (map iw_sequence (ip_works s))
     \<and> (\<forall>q\<in>ip_active_work s. IrqRaised q \<in> set h)"

lemma irq_hist_fewer:
  assumes "irq_hist h s" "set (ip_works s') \<subseteq> set (ip_works s)"
    and "distinct (map iw_sequence (ip_works s'))"
    and "ip_active_work s' = ip_active_work s" "ip_next_sequence s' = ip_next_sequence s"
  shows "irq_hist h s'"
  using assms unfolding irq_hist_def by (simp add: subset_iff) blast

lemma irq_hist_frame [simp]:
  "irq_hist h (s\<lparr>ip_state := st\<rparr>) \<longleftrightarrow> irq_hist h s"
  "irq_hist h (s\<lparr>ip_handlers := hs\<rparr>) \<longleftrightarrow> irq_hist h s"
  unfolding irq_hist_def by simp_all

lemma irq_hist_distinct: "irq_hist h s \<Longrightarrow> distinct (map iw_sequence (ip_works s))"
  by (simp add: irq_hist_def)

lemma irq_hist_trigger:
  assumes h: "irq_hist h s" and t: "irq_trigger owner s = (r, s')"
  shows "irq_hist (h @ (case r of Inr w \<Rightarrow> [IrqRaised (iw_sequence w)] | Inl _ \<Rightarrow> [])) s'"
proof (cases r)
  case (Inl e)
  then have "s' = s" using t by (auto simp: irq_defs Let_def split: if_splits)
  then show ?thesis using h Inl by simp
next
  case (Inr w)
  let ?n = "ip_next_sequence s"
  have s': "s' = s\<lparr>ip_next_sequence := ?n + 1, ip_works := ip_works s @ [w],
                 ip_active_work := insert ?n (ip_active_work s)\<rparr>"
    and w: "iw_sequence w = ?n"
    using t Inr by (auto simp: irq_defs Let_def split: if_splits)
  have new: "IrqRaised ?n \<notin> set h" using h by (simp add: irq_hist_def)
  have "?n \<notin> iw_sequence ` set (ip_works s)" "IrqCompleted ?n \<notin> set h" "IrqRan ?n \<notin> set h"
    using h new by (fastforce simp: irq_hist_def)+
  with h new show ?thesis
    unfolding Inr s' by (auto simp: irq_hist_def w)
qed

lemma irq_hist_complete:
  assumes h: "irq_hist h s" and t: "irq_complete_top_half w s = (r, s')"
  shows "irq_hist (h @ (case r of Inr _ \<Rightarrow> [IrqCompleted (iw_sequence w)] | Inl _ \<Rightarrow> [])) s'"
proof (cases r)
  case (Inl e)
  then have "s' = s" using t by (auto simp: irq_defs split: if_splits)
  then show ?thesis using h Inl by simp
next
  case (Inr u)
  let ?q = "iw_sequence w"
  have s': "s' = s\<lparr>ip_active_work := ip_active_work s - {?q}\<rparr>"
    and act: "?q \<in> ip_active_work s"
    using t Inr by (auto simp: irq_defs split: if_splits)
  have "IrqCompleted ?q \<notin> set h" "IrqRaised ?q \<in> set h" using h act by (auto simp: irq_hist_def)
  with h show ?thesis unfolding Inr s' by (auto simp: irq_hist_def)
qed

lemma irq_hist_run:
  assumes h: "irq_hist h s" and t: "irq_run_bottom_half w s = (r, s')"
  shows "irq_hist (h @ (case r of Inr _ \<Rightarrow> [IrqRan (iw_sequence w)] | Inl _ \<Rightarrow> [])) s'"
proof (cases r)
  case (Inl e)
  then have "s' = s" using t by (auto simp: irq_defs split: if_splits)
  then show ?thesis using h Inl by simp
next
  case (Inr u)
  let ?q = "iw_sequence w" and ?ws = "remove1 w (ip_works s)"
  have s': "s' = s\<lparr>ip_works := ?ws\<rparr>" and mem: "w \<in> set (ip_works s)"
    and idle: "?q \<notin> ip_active_work s"
    using t Inr by (auto simp: irq_defs split: if_splits)
  have dn: "IrqCompleted ?q \<in> set h" using h mem idle by (auto simp: irq_hist_def)
  have fresh: "IrqRan ?q \<notin> set h" using h mem by (auto simp: irq_hist_def)
  have dist: "distinct (map iw_sequence (ip_works s))" using h by (rule irq_hist_distinct)
  then have "distinct (map iw_sequence ?ws)" "?q \<notin> iw_sequence ` set ?ws"
    using mem by (auto simp: distinct_map inj_on_def distinct_remove1 set_remove1_eq)
  moreover have "set ?ws \<subseteq> set (ip_works s)" by (rule set_remove1_subset)
  ultimately have "irq_hist h s'" and "?q \<notin> iw_sequence ` set (ip_works s')"
    using irq_hist_fewer [OF h] s' by simp_all
  then show ?thesis using dn fresh unfolding Inr by (auto simp: irq_hist_def)
qed

lemma irq_hist_quiet:
  assumes h: "irq_hist h s"
  shows "irq_hist h (snd (irq_register owner s))" "irq_hist h (snd (irq_enable s))"
    "irq_hist h (snd (irq_cancel_work s))" "irq_hist h (snd (irq_stop_section expired s))"
    "irq_hist h (snd (irq_stop_enter expired s))" "irq_hist h (irq_close_finish s)"
  using h irq_hist_distinct [OF h]
  by (auto simp: irq_defs distinct_map_filter elim!: irq_hist_fewer)

lemma irq_stop_provider:
  "is_provider (irq_step (IrqStopEnter expired) y) = snd (irq_stop_enter expired (is_provider y))"
  "is_provider (irq_step (IrqStopWake expired) y) =
     (if is_waiters y = 0 then is_provider y
      else snd (irq_stop_section expired (is_provider y)))"
  "is_provider (irq_step (IrqCloseStop expired) y) =
     (if is_closer y \<noteq> CloserChecked then is_provider y
      else snd (irq_stop_enter expired (is_provider y)))"
  "is_provider (irq_step (IrqCloseWake expired) y) =
     (if is_closer y \<noteq> CloserWaiting then is_provider y
      else snd (irq_stop_section expired (is_provider y)))"
  by (simp_all split: prod.split sum.split bool.split)

lemma irq_hist_step:
  assumes "irq_hist h (is_provider y)"
  shows "irq_hist (h @ irq_out op y) (is_provider (irq_step op y))"
proof (cases op)
  case (IrqTrigger owner)
  with assms irq_hist_trigger show ?thesis
    by (cases "irq_trigger owner (is_provider y)") (fastforce simp: irq_apply_def split: sum.split)
next
  case (IrqCompleteTop w)
  with assms irq_hist_complete show ?thesis
    by (cases "irq_complete_top_half w (is_provider y)")
      (fastforce simp: irq_apply_def split: sum.split)
next
  case (IrqRunBottom w)
  with assms irq_hist_run show ?thesis
    by (cases "irq_run_bottom_half w (is_provider y)")
      (fastforce simp: irq_apply_def split: sum.split)
qed (use irq_hist_quiet [OF assms] assms in
      \<open>simp_all add: irq_stop_provider irq_apply_def del: irq_step.simps(7,8,10,11)\<close>)

interpretation irq_history: machine_history irq_step irq_out "\<lambda>h y. irq_hist h (is_provider y)"
  by unfold_locales (rule irq_hist_step)

lemma irq_new_hist: "irq_new line work_capacity = Inr s \<Longrightarrow> irq_hist [] s"
  by (auto simp: irq_new_def irq_hist_def split: if_splits)

section \<open>Stopping and closing\<close>

text \<open>
  A stopping provider \<open>s\<close> either is still stopping in \<open>s'\<close> and has accepted nothing, or a stop
  section found no active top half and disabled it with nothing pending.
\<close>

definition irq_drained :: "irq_provider \<Rightarrow> bool" where
  "irq_drained s \<longleftrightarrow> ip_state s = IRQ_DISABLED \<and> ip_works s = [] \<and> ip_active_work s = {}"

definition irq_still_stopping :: "irq_provider \<Rightarrow> irq_provider \<Rightarrow> bool" where
  "irq_still_stopping s s' \<longleftrightarrow>
     ip_state s' = IRQ_STOPPING \<and> set (ip_works s') \<subseteq> set (ip_works s)
     \<and> ip_active_work s' \<subseteq> ip_active_work s \<and> ip_next_sequence s' = ip_next_sequence s"

lemma irq_still_stopping_trans:
  "irq_still_stopping s t \<Longrightarrow> irq_still_stopping t u \<Longrightarrow> irq_still_stopping s u"
  by (auto simp: irq_still_stopping_def)

lemma irq_stopping_step:
  assumes "ip_state (is_provider y) = IRQ_STOPPING" "op \<noteq> IrqCloseFinish"
  shows "irq_still_stopping (is_provider y) (is_provider (irq_step op y))
         \<or> irq_drained (is_provider (irq_step op y))"
proof (cases op)
  case (IrqRunBottom w)
  with assms show ?thesis
    using set_remove1_subset [of w "ip_works (is_provider y)"]
    by (auto simp: irq_defs irq_still_stopping_def)
qed (use assms in \<open>auto simp: irq_stop_provider irq_defs irq_still_stopping_def irq_drained_def Let_def
      simp del: irq_step.simps(7,8,10,11)\<close>)

lemma irq_stopping_raises_nothing:
  "ip_state (is_provider y) = IRQ_STOPPING \<Longrightarrow> IrqRaised q \<notin> set (irq_out op y)"
  by (cases op) (auto simp: irq_defs split: prod.splits sum.splits if_splits)

text \<open>At most one thread is past the check of \<^verbatim>\<open>close\<close>, so a closed provider has no closer.\<close>

definition irq_system_ok :: "irq_system \<Rightarrow> bool" where
  "irq_system_ok y \<longleftrightarrow> (ip_state (is_provider y) = IRQ_CLOSED \<longrightarrow> is_closer y = NoCloser)"

lemma irq_keeps_open:
  assumes "ip_state s \<noteq> IRQ_CLOSED"
  shows "ip_state (snd (irq_register owner s)) \<noteq> IRQ_CLOSED"
    "ip_state (snd (irq_enable s)) \<noteq> IRQ_CLOSED"
    "ip_state (snd (irq_trigger owner s)) \<noteq> IRQ_CLOSED"
    "ip_state (snd (irq_complete_top_half w s)) \<noteq> IRQ_CLOSED"
    "ip_state (snd (irq_run_bottom_half w s)) \<noteq> IRQ_CLOSED"
    "ip_state (snd (irq_cancel_work s)) \<noteq> IRQ_CLOSED"
    "ip_state (snd (irq_stop_section expired s)) \<noteq> IRQ_CLOSED"
    "ip_state (snd (irq_stop_enter expired s)) \<noteq> IRQ_CLOSED"
  using assms by (auto simp: irq_defs Let_def)

lemma irq_closed_step:
  assumes "ip_state (is_provider y) = IRQ_CLOSED" "irq_system_ok y" "is_waiters y = 0"
  shows "irq_step op y = y"
  using assms by (cases op) (auto simp: irq_defs irq_system_ok_def)

lemma irq_system_ok_step:
  assumes "irq_system_ok y"
  shows "irq_system_ok (irq_step op y)"
proof (cases "ip_state (is_provider y) = IRQ_CLOSED")
  case True
  with assms show ?thesis
    by (cases op) (auto simp: irq_system_ok_def irq_defs)
next
  case False
  show ?thesis
  proof (cases "op = IrqCloseFinish")
    case True
    with assms show ?thesis by (auto simp: irq_system_ok_def)
  next
    case nofinish: False
    have "ip_state (is_provider (irq_step op y)) \<noteq> IRQ_CLOSED"
      using nofinish False irq_keeps_open [OF False]
      by (cases op) (simp_all add: irq_stop_provider irq_apply_def del: irq_step.simps(7,8,10,11))
    then show ?thesis by (simp add: irq_system_ok_def)
  qed
qed

interpretation irq_sys: machine_invariant irq_step irq_system_ok
  by unfold_locales (rule irq_system_ok_step)

lemma irq_start_ok: "irq_new line work_capacity = Inr s \<Longrightarrow> irq_system_ok (irq_start s)"
  by (auto simp: irq_new_def irq_start_def irq_system_ok_def split: if_splits)

section \<open>Properties\<close>

text \<open>
  C24: every interrupt is handled at most once and in order. In any interleaving of the sections of
  a provider's methods, no interrupt is raised, completed or run twice, a top half completes only
  after its interrupt was raised and a bottom half runs only after its own top half completed.
\<close>

theorem irq_bottom_half_runs_once_after_its_top_half:
  assumes "irq_new line work_capacity = Inr s"
    and "h = deliveries irq_step irq_out ops (irq_start s)"
  shows "distinct h \<and> justified irq_need h"
proof -
  have "irq_hist [] (is_provider (irq_start s))"
    using irq_new_hist [OF assms(1)] by (simp add: irq_start_def)
  from irq_history.hist_deliveries [OF this] show ?thesis
    by (simp add: assms(2) irq_hist_def)
qed

text \<open>
  C25: a stopping provider accepts no interrupt and is left only when it is drained. As long as no
  thread runs the final section of \<^verbatim>\<open>close\<close>, every interleaving from a stopping provider either keeps
  it stopping and raises nothing, or has a first part that raises nothing and ends with the
  provider disabled, no top half active and no work pending.
\<close>

theorem irq_stop_drains_before_disabling:
  assumes "ip_state (is_provider y) = IRQ_STOPPING" and "IrqCloseFinish \<notin> set ops"
  shows "(\<exists>ops1 ops2. ops = ops1 @ ops2 \<and> irq_drained (is_provider (fold irq_step ops1 y))
            \<and> (\<forall>q. IrqRaised q \<notin> set (deliveries irq_step irq_out ops1 y)))
         \<or> irq_still_stopping (is_provider y) (is_provider (fold irq_step ops y))
            \<and> (\<forall>q. IrqRaised q \<notin> set (deliveries irq_step irq_out ops y))"
  using assms
proof (induction ops arbitrary: y)
  case Nil
  then show ?case by (simp add: irq_still_stopping_def)
next
  case (Cons op ops)
  let ?y = "irq_step op y"
  have quiet: "\<forall>q. IrqRaised q \<notin> set (irq_out op y)"
    using irq_stopping_raises_nothing [OF Cons.prems(1)] by blast
  have "irq_still_stopping (is_provider y) (is_provider ?y) \<or> irq_drained (is_provider ?y)"
    using Cons.prems by (intro irq_stopping_step) auto
  then show ?case
  proof
    assume d: "irq_drained (is_provider ?y)"
    show ?thesis
      by (intro disjI1 exI [of _ "[op]"] exI [of _ ops]) (use d quiet in simp)
  next
    assume st: "irq_still_stopping (is_provider y) (is_provider ?y)"
    then have "ip_state (is_provider ?y) = IRQ_STOPPING" by (simp add: irq_still_stopping_def)
    note IH = Cons.IH [OF this]
    have "IrqCloseFinish \<notin> set ops" using Cons.prems(2) by simp
    note IH = IH [OF this]
    from IH show ?thesis
    proof (elim disjE exE conjE)
      fix ops1 ops2
      assume "ops = ops1 @ ops2" "irq_drained (is_provider (fold irq_step ops1 ?y))"
        and "\<forall>q. IrqRaised q \<notin> set (deliveries irq_step irq_out ops1 ?y)"
      then show ?thesis
        by (intro disjI1 exI [of _ "op # ops1"] exI [of _ ops2]) (use quiet in simp)
    qed (use st quiet irq_still_stopping_trans in auto)
  qed
qed

text \<open>
  A closed provider stays closed once no thread is waiting in \<^verbatim>\<open>stop\<close>: no section of any method
  changes it or the threads any more.
\<close>

theorem irq_closed_is_final:
  assumes "irq_new line work_capacity = Inr s" and "y = fold irq_step ops (irq_start s)"
    and "ip_state (is_provider y) = IRQ_CLOSED" and "is_waiters y = 0"
  shows "fold irq_step ops' y = y"
proof -
  have "irq_system_ok y" using irq_sys.inv_run irq_start_ok [OF assms(1)] assms(2) by blast
  then have "irq_step op y = y" for op using assms(3,4) by (intro irq_closed_step)
  then show ?thesis by (induction ops') auto
qed

section \<open>A concrete line\<close>

definition demo_irq :: irq_provider where
  "demo_irq =
     \<lparr>ip_line = \<lparr>il_number = 7, il_shared = False, il_priority = 0\<rparr>, ip_work_capacity = 4,
      ip_state = IRQ_DISABLED, ip_handlers = {}, ip_works = [], ip_active_work = {},
      ip_next_sequence = 0\<rparr>"

definition demo_irq_work :: "int \<Rightarrow> irq_work" where
  "demo_irq_work q = \<lparr>iw_sequence = q, iw_owner = ''a'', iw_line = 7\<rparr>"

lemma demo_irq_new:
  "irq_new \<lparr>il_number = 7, il_shared = False, il_priority = 0\<rparr> 4 = Inr demo_irq"
  by (simp add: irq_new_def demo_irq_def)

lemmas demo_irq_simps = demo_irq_def demo_irq_work_def irq_start_def irq_defs Let_def


theorem irq_bottom_half_runs_once_after_its_top_half_witness:
  "deliveries irq_step irq_out [IrqRegister ''a'', IrqEnable, IrqTrigger ''a'',
      IrqRunBottom (demo_irq_work 0), IrqCompleteTop (demo_irq_work 0),
      IrqRunBottom (demo_irq_work 0), IrqRunBottom (demo_irq_work 0)] (irq_start demo_irq)
     = [IrqRaised 0, IrqCompleted 0, IrqRan 0]
   \<and> distinct [IrqRaised 0, IrqCompleted 0, IrqRan 0]
   \<and> justified irq_need [IrqRaised 0, IrqCompleted 0, IrqRan 0]"
proof -
  have d: "deliveries irq_step irq_out [IrqRegister ''a'', IrqEnable, IrqTrigger ''a'',
      IrqRunBottom (demo_irq_work 0), IrqCompleteTop (demo_irq_work 0),
      IrqRunBottom (demo_irq_work 0), IrqRunBottom (demo_irq_work 0)] (irq_start demo_irq)
     = [IrqRaised 0, IrqCompleted 0, IrqRan 0]"
    by (simp add: demo_irq_simps)
  show ?thesis
    using irq_bottom_half_runs_once_after_its_top_half [OF demo_irq_new d [symmetric]] d by blast
qed

definition demo_irq_stopping :: irq_system where
  "demo_irq_stopping =
     fold irq_step [IrqRegister ''a'', IrqEnable, IrqTrigger ''a'', IrqStopEnter False]
       (irq_start demo_irq)"

definition demo_irq_stop_ops :: "irq_op list" where
  "demo_irq_stop_ops = [IrqTrigger ''a'', IrqCompleteTop (demo_irq_work 0), IrqStopWake False]"

theorem irq_stop_drains_before_disabling_witness:
  "(\<exists>ops1 ops2. demo_irq_stop_ops = ops1 @ ops2
        \<and> irq_drained (is_provider (fold irq_step ops1 demo_irq_stopping)))
   \<and> ip_state (is_provider demo_irq_stopping) = IRQ_STOPPING"
proof -
  have st: "ip_state (is_provider demo_irq_stopping) = IRQ_STOPPING"
    by (simp add: demo_irq_stopping_def demo_irq_simps)
  have nf: "IrqCloseFinish \<notin> set demo_irq_stop_ops" by (simp add: demo_irq_stop_ops_def)
  have "ip_state (is_provider (fold irq_step demo_irq_stop_ops demo_irq_stopping)) = IRQ_DISABLED"
    by (simp add: demo_irq_stop_ops_def demo_irq_stopping_def demo_irq_simps)
  then show ?thesis
    using irq_stop_drains_before_disabling [OF st nf] st by (auto simp: irq_still_stopping_def)
qed

theorem irq_closed_is_final_witness:
  "(let y = fold irq_step [IrqRegister ''a'', IrqCloseEnter, IrqCloseStop False, IrqCloseFinish]
              (irq_start demo_irq)
    in ip_state (is_provider y) = IRQ_CLOSED
       \<and> fold irq_step [IrqRegister ''b'', IrqEnable, IrqStopEnter True] y = y)"
proof -
  let ?y = "fold irq_step [IrqRegister ''a'', IrqCloseEnter, IrqCloseStop False, IrqCloseFinish]
              (irq_start demo_irq)"
  have "ip_state (is_provider ?y) = IRQ_CLOSED" "is_waiters ?y = 0"
    by (simp_all add: demo_irq_simps)
  with irq_closed_is_final [OF demo_irq_new refl this] show ?thesis unfolding Let_def by blast
qed

end
