(* ===== verification/Dma.thy ===== *)
theory Dma
  imports Prelude "HOL-Library.Word"
begin

text \<open>
  The DMA provider of \<^verbatim>\<open>hardware/linux_drivers/dma/contract.py\<close>.

  Every method holds the lock for its whole body, so an operation list is an interleaving. Buffers
  and descriptors are kept in insertion order, as the Python dictionaries keep them, because
  \<^verbatim>\<open>allocate\<close> takes the first smallest free buffer in that order. The caller holds a reference to
  a buffer object: \<open>OwnBuffer\<close> is the object the provider stores under that number, \<open>ForeignBuffer\<close>
  any other object. A lookup that fails in the provider's own dictionaries raises \<open>DMAInternal\<close>;
  the invariant shows that this does not occur. Arguments have the types the signatures declare.
\<close>

datatype dma_error =
    DMAError
  | DMAOwnershipError
  | DMAStateError
  | DMABackpressure
  | DMAProviderClosed
  | DMAInternal \<comment> \<open>\<^verbatim>\<open>KeyError\<close> from the provider's own dictionaries\<close>

datatype buffer_owner = OWNER_CPU | OWNER_DMA | OWNER_FREE

datatype dma_state = DMA_READY | DMA_HALTED | DMA_CLOSED

datatype dma_status = DMA_COMPLETE | DMA_ERROR | DMA_CANCELLED

definition MAX_BUFFER_BYTES :: int where "MAX_BUFFER_BYTES = 1024 * 1024"
definition MAX_DESCRIPTORS :: int where "MAX_DESCRIPTORS = 1024"

type_synonym byte = "8 word"

record dma_buffer =
  db_id :: int
  db_capacity :: int
  db_data :: "byte list"
  db_owner :: buffer_owner

record dma_descriptor =
  dd_id :: int
  dd_buffer :: int
  dd_length :: int
  dd_status :: "dma_status option"

record dma_completion =
  dc_id :: int
  dc_buffer :: int
  dc_status :: dma_status
  dc_bytes :: int
  dc_error :: "string option"

record dma_provider =
  dp_buffer_capacity :: int
  dp_descriptor_capacity :: int
  dp_buffers :: "dma_buffer list"
  dp_descriptors :: "dma_descriptor list"
  dp_active :: "int list"
  dp_completions :: "dma_completion list"
  dp_next_buffer_id :: int
  dp_next_descriptor_id :: int
  dp_state :: dma_state

datatype buffer_ref = OwnBuffer int | ForeignBuffer

definition dma_new :: "int \<Rightarrow> int \<Rightarrow> dma_error + dma_provider" where
  "dma_new buffer_capacity descriptor_capacity =
     (if \<not> (1 \<le> buffer_capacity \<and> buffer_capacity \<le> MAX_DESCRIPTORS) then Inl DMAError
      else if \<not> (1 \<le> descriptor_capacity \<and> descriptor_capacity \<le> MAX_DESCRIPTORS) then Inl DMAError
      else Inr \<lparr>dp_buffer_capacity = buffer_capacity,
                dp_descriptor_capacity = descriptor_capacity, dp_buffers = [],
                dp_descriptors = [], dp_active = [], dp_completions = [], dp_next_buffer_id = 1,
                dp_next_descriptor_id = 1, dp_state = DMA_READY\<rparr>)"

definition dma_active_count :: "dma_provider \<Rightarrow> nat" where
  "dma_active_count s = length (dp_active s)"

definition dma_completion_count :: "dma_provider \<Rightarrow> nat" where
  "dma_completion_count s = length (dp_completions s)"

definition dma_ensure_open :: "(dma_provider, dma_error, unit) action" where
  "dma_ensure_open s = (if dp_state s = DMA_CLOSED then raise DMAProviderClosed s else return () s)"

definition dma_ensure_ready :: "(dma_provider, dma_error, unit) action" where
  "dma_ensure_ready =
     and_then dma_ensure_open
       (\<lambda>_ s. if dp_state s \<noteq> DMA_READY then raise DMAStateError s else return () s)"

definition dma_owned_buffer :: "buffer_ref \<Rightarrow> (dma_provider, dma_error, dma_buffer) action" where
  "dma_owned_buffer r s =
     (case r of
        ForeignBuffer \<Rightarrow> raise DMAOwnershipError s
      | OwnBuffer i \<Rightarrow>
          (case key_find db_id i (dp_buffers s) of
             None \<Rightarrow> raise DMAOwnershipError s | Some b \<Rightarrow> return b s))"

text \<open>The buffer object changed in place.\<close>

definition dma_touch :: "int \<Rightarrow> (dma_buffer \<Rightarrow> dma_buffer) \<Rightarrow> dma_provider \<Rightarrow> dma_provider" where
  "dma_touch i f s = s\<lparr>dp_buffers := key_update db_id i f (dp_buffers s)\<rparr>"

text \<open>\<^verbatim>\<open>min\<close> with a key and a default: the first buffer of the smallest capacity.\<close>

fun first_smallest :: "dma_buffer list \<Rightarrow> dma_buffer option" where
  "first_smallest [] = None"
| "first_smallest (b # bs) =
     (case first_smallest bs of
        None \<Rightarrow> Some b
      | Some c \<Rightarrow> if db_capacity c < db_capacity b then Some c else Some b)"

definition dma_reusable :: "int \<Rightarrow> dma_provider \<Rightarrow> dma_buffer option" where
  "dma_reusable capacity s =
     first_smallest
       (filter (\<lambda>b. db_owner b = OWNER_FREE \<and> db_capacity b \<ge> capacity) (dp_buffers s))"

definition dma_allocate :: "int \<Rightarrow> (dma_provider, dma_error, int) action" where
  "dma_allocate capacity =
     and_then dma_ensure_ready
       (\<lambda>_ s. if \<not> (1 \<le> capacity \<and> capacity \<le> MAX_BUFFER_BYTES) then raise DMAError s
              else case dma_reusable capacity s of
                Some b \<Rightarrow>
                  return (db_id b)
                    (dma_touch (db_id b)
                       (\<lambda>b. b\<lparr>db_owner := OWNER_CPU,
                              db_data := replicate (nat (db_capacity b)) 0\<rparr>) s)
              | None \<Rightarrow>
                  if int (length (dp_buffers s)) \<ge> dp_buffer_capacity s then raise DMABackpressure s
                  else let b = \<lparr>db_id = dp_next_buffer_id s, db_capacity = capacity,
                                db_data = replicate (nat capacity) 0, db_owner = OWNER_CPU\<rparr>
                       in return (db_id b)
                            (s\<lparr>dp_next_buffer_id := dp_next_buffer_id s + 1,
                               dp_buffers := key_put db_id b (dp_buffers s)\<rparr>))"

definition dma_write :: "buffer_ref \<Rightarrow> byte list \<Rightarrow> (dma_provider, dma_error, unit) action" where
  "dma_write r data =
     and_then dma_ensure_ready
       (\<lambda>_. and_then (dma_owned_buffer r)
         (\<lambda>b s. if db_owner b \<noteq> OWNER_CPU then raise DMAOwnershipError s
                else if int (length data) > db_capacity b then raise DMAError s
                else return ()
                  (dma_touch (db_id b)
                     (\<lambda>b. b\<lparr>db_data := data @ drop (length data) (db_data b)\<rparr>) s)))"

definition dma_read :: "buffer_ref \<Rightarrow> int option \<Rightarrow> (dma_provider, dma_error, byte list) action" where
  "dma_read r len =
     and_then dma_ensure_open
       (\<lambda>_. and_then (dma_owned_buffer r)
         (\<lambda>b s. if db_owner b \<noteq> OWNER_CPU then raise DMAOwnershipError s
                else let size = (case len of None \<Rightarrow> db_capacity b | Some n \<Rightarrow> n)
                     in if \<not> (0 \<le> size \<and> size \<le> db_capacity b) then raise DMAError s
                        else return (take (nat size) (db_data b)) s))"

definition dma_submit :: "buffer_ref \<Rightarrow> int \<Rightarrow> (dma_provider, dma_error, dma_descriptor) action" where
  "dma_submit r len =
     and_then dma_ensure_ready
       (\<lambda>_. and_then (dma_owned_buffer r)
         (\<lambda>b s. if db_owner b \<noteq> OWNER_CPU then raise DMAOwnershipError s
                else if \<not> (1 \<le> len \<and> len \<le> db_capacity b) then raise DMAError s
                else if int (length (dp_descriptors s)) \<ge> dp_descriptor_capacity s
                then raise DMABackpressure s
                else let d = \<lparr>dd_id = dp_next_descriptor_id s, dd_buffer = db_id b,
                              dd_length = len, dd_status = None\<rparr>
                     in return d
                          ((dma_touch (db_id b) (\<lambda>b. b\<lparr>db_owner := OWNER_DMA\<rparr>) s)
                             \<lparr>dp_next_descriptor_id := dp_next_descriptor_id s + 1,
                              dp_descriptors := key_put dd_id d (dp_descriptors s),
                              dp_active := dp_active s @ [dd_id d]\<rparr>)))"

text \<open>
  What \<^verbatim>\<open>complete_next\<close> and one turn of the loop of \<^verbatim>\<open>cancel_pending\<close> do with the first active
  descriptor, \<open>i\<close>, once they have decided to take it.
\<close>

definition dma_retire ::
    "int \<Rightarrow> int list \<Rightarrow> dma_status \<Rightarrow> string option
     \<Rightarrow> (dma_provider, dma_error, dma_completion) action" where
  "dma_retire i rest status error s0 =
     (let s = s0\<lparr>dp_active := rest\<rparr> in
      case key_find dd_id i (dp_descriptors s) of
        None \<Rightarrow> raise DMAInternal s
      | Some d \<Rightarrow>
        if dd_buffer d \<notin> db_id ` set (dp_buffers s) then raise DMAInternal s
        else let c = \<lparr>dc_id = i, dc_buffer = dd_buffer d, dc_status = status,
                      dc_bytes = (if status = DMA_COMPLETE then dd_length d else 0),
                      dc_error = error\<rparr>
             in return c
                  ((dma_touch (dd_buffer d) (\<lambda>b. b\<lparr>db_owner := OWNER_CPU\<rparr>) s)
                     \<lparr>dp_descriptors :=
                        key_put dd_id (d\<lparr>dd_status := Some status\<rparr>) (dp_descriptors s),
                      dp_completions := dp_completions s @ [c]\<rparr>))"

definition dma_complete_next ::
    "dma_status \<Rightarrow> string option \<Rightarrow> (dma_provider, dma_error, dma_completion) action" where
  "dma_complete_next status error =
     and_then dma_ensure_open
       (\<lambda>_ s. case dp_active s of
          [] \<Rightarrow> raise DMAStateError s
        | i # rest \<Rightarrow>
            if status = DMA_CANCELLED then raise DMAError s
            else if status = DMA_ERROR \<and> (error = None \<or> error = Some []) then raise DMAError s
            else and_then (dma_retire i rest status error)
                   (\<lambda>c s. return c (if status = DMA_ERROR then s\<lparr>dp_state := DMA_HALTED\<rparr> else s)) s)"

fun dma_cancel_loop ::
    "int list \<Rightarrow> dma_completion list \<Rightarrow> (dma_provider, dma_error, dma_completion list) action" where
  "dma_cancel_loop [] cancelled s = return cancelled s"
| "dma_cancel_loop (i # rest) cancelled s =
     and_then (dma_retire i rest DMA_CANCELLED (Some ''cancelled''))
       (\<lambda>c. dma_cancel_loop rest (cancelled @ [c])) s"

definition dma_cancel_pending :: "(dma_provider, dma_error, dma_completion list) action" where
  "dma_cancel_pending =
     and_then dma_ensure_open (\<lambda>_ s. dma_cancel_loop (dp_active s) [] s)"

definition dma_poll_completion :: "(dma_provider, dma_error, dma_completion option) action" where
  "dma_poll_completion =
     and_then dma_ensure_open
       (\<lambda>_ s. case dp_completions s of
                [] \<Rightarrow> return None s
              | c # rest \<Rightarrow> return (Some c) (s\<lparr>dp_completions := rest\<rparr>))"

definition dma_recycle :: "int \<Rightarrow> (dma_provider, dma_error, int) action" where
  "dma_recycle i =
     and_then dma_ensure_open
       (\<lambda>_ s. case key_find dd_id i (dp_descriptors s) of
          None \<Rightarrow> raise DMAError s
        | Some d \<Rightarrow>
            if dd_status d = None then raise DMAOwnershipError s
            else case key_find db_id (dd_buffer d) (dp_buffers s) of
              None \<Rightarrow> raise DMAInternal s
            | Some b \<Rightarrow>
                if db_owner b \<noteq> OWNER_CPU then raise DMAOwnershipError s
                else return (db_id b)
                  ((dma_touch (db_id b) (\<lambda>b. b\<lparr>db_owner := OWNER_FREE\<rparr>) s)
                     \<lparr>dp_descriptors := key_remove dd_id i (dp_descriptors s)\<rparr>))"

definition dma_recover :: "(dma_provider, dma_error, unit) action" where
  "dma_recover s =
     (if dp_state s = DMA_CLOSED then raise DMAProviderClosed s
      else if dp_state s \<noteq> DMA_HALTED then raise DMAStateError s
      else if dp_active s \<noteq> [] then raise DMAStateError s
      else return () (s\<lparr>dp_state := DMA_READY\<rparr>))"

definition dma_close :: "(dma_provider, dma_error, unit) action" where
  "dma_close s =
     (if dp_state s = DMA_CLOSED then return () s
      else and_then dma_cancel_pending
             (\<lambda>_ s. return () (s\<lparr>dp_completions := [], dp_state := DMA_CLOSED\<rparr>)) s)"

section \<open>Sequences of operations\<close>

datatype dma_op =
    DmaAllocate int
  | DmaWrite buffer_ref "byte list"
  | DmaRead buffer_ref "int option"
  | DmaSubmit buffer_ref int
  | DmaCompleteNext dma_status "string option"
  | DmaCancelPending
  | DmaPoll
  | DmaRecycle int
  | DmaRecover
  | DmaClose

fun dma_step :: "dma_op \<Rightarrow> dma_provider \<Rightarrow> dma_provider" where
  "dma_step (DmaAllocate n) s = snd (dma_allocate n s)"
| "dma_step (DmaWrite r data) s = snd (dma_write r data s)"
| "dma_step (DmaRead r len) s = snd (dma_read r len s)"
| "dma_step (DmaSubmit r len) s = snd (dma_submit r len s)"
| "dma_step (DmaCompleteNext st e) s = snd (dma_complete_next st e s)"
| "dma_step DmaCancelPending s = snd (dma_cancel_pending s)"
| "dma_step DmaPoll s = snd (dma_poll_completion s)"
| "dma_step (DmaRecycle i) s = snd (dma_recycle i s)"
| "dma_step DmaRecover s = snd (dma_recover s)"
| "dma_step DmaClose s = snd (dma_close s)"

text \<open>The descriptor numbers an operation hands to the consumer of completions.\<close>

fun dma_out :: "dma_op \<Rightarrow> dma_provider \<Rightarrow> int list" where
  "dma_out DmaPoll s =
     (case dma_poll_completion s of (Inr (Some c), _) \<Rightarrow> [dc_id c] | _ \<Rightarrow> [])"
| "dma_out _ s = []"

section \<open>The invariant\<close>

lemmas dma_defs [op_defs] =
  dma_ensure_open_def dma_ensure_ready_def dma_owned_buffer_def dma_allocate_def dma_write_def
  dma_read_def dma_submit_def dma_complete_next_def dma_cancel_pending_def
  dma_poll_completion_def dma_recycle_def dma_recover_def dma_close_def and_then_def

text \<open>A descriptor in flight.\<close>

abbreviation in_flight :: "dma_descriptor \<Rightarrow> bool" where
  "in_flight d \<equiv> dd_status d = None"

definition dma_bufs_ok :: "dma_buffer list \<Rightarrow> int \<Rightarrow> bool" where
  "dma_bufs_ok bs n \<longleftrightarrow>
     distinct (map db_id bs)
     \<and> (\<forall>b\<in>set bs. db_id b < n \<and> 1 \<le> db_capacity b \<and> length (db_data b) = nat (db_capacity b))"

definition dma_descs_ok :: "dma_buffer list \<Rightarrow> dma_descriptor list \<Rightarrow> int \<Rightarrow> bool" where
  "dma_descs_ok bs ds n \<longleftrightarrow>
     distinct (map dd_id ds) \<and> (\<forall>d\<in>set ds. dd_id d < n \<and> dd_buffer d \<in> db_id ` set bs)"

definition dma_active_ok :: "dma_descriptor list \<Rightarrow> int list \<Rightarrow> bool" where
  "dma_active_ok ds act \<longleftrightarrow>
     distinct act \<and> set act = dd_id ` {d \<in> set ds. in_flight d}"

text \<open>The engine owns a buffer exactly when one descriptor in flight refers to it.\<close>

definition dma_owner_ok :: "dma_buffer list \<Rightarrow> dma_descriptor list \<Rightarrow> bool" where
  "dma_owner_ok bs ds \<longleftrightarrow>
     (\<forall>b\<in>set bs. db_owner b = OWNER_DMA \<longleftrightarrow> (\<exists>d\<in>set ds. in_flight d \<and> dd_buffer d = db_id b))
     \<and> inj_on dd_buffer {d \<in> set ds. in_flight d}"

definition dma_ok :: "dma_provider \<Rightarrow> bool" where
  "dma_ok s \<longleftrightarrow>
     dma_bufs_ok (dp_buffers s) (dp_next_buffer_id s)
     \<and> dma_descs_ok (dp_buffers s) (dp_descriptors s) (dp_next_descriptor_id s)
     \<and> dma_active_ok (dp_descriptors s) (dp_active s)
     \<and> dma_owner_ok (dp_buffers s) (dp_descriptors s)
     \<and> int (length (dp_buffers s)) \<le> dp_buffer_capacity s
     \<and> int (length (dp_descriptors s)) \<le> dp_descriptor_capacity s
     \<and> (dp_state s = DMA_CLOSED \<longrightarrow> dp_active s = [] \<and> dp_completions s = [])"

lemma dma_ids_update [simp]:
  "(\<And>b. db_id (f b) = db_id b) \<Longrightarrow> db_id ` set (key_update db_id i f bs) = db_id ` set bs"
  by (metis list.set_map map_key_update)

lemma dma_bufs_ok_update:
  assumes "dma_bufs_ok bs n" "\<And>b. db_id (f b) = db_id b" "\<And>b. db_capacity (f b) = db_capacity b"
    and "\<And>b. b \<in> set bs \<Longrightarrow> db_id b = i \<Longrightarrow> length (db_data (f b)) = nat (db_capacity b)"
  shows "dma_bufs_ok (key_update db_id i f bs) n"
  using assms by (auto simp: dma_bufs_ok_def set_key_update)

lemma dma_descs_ok_update:
  "dma_descs_ok bs ds n \<Longrightarrow> (\<And>b. db_id (f b) = db_id b)
   \<Longrightarrow> dma_descs_ok (key_update db_id i f bs) ds n"
  by (simp add: dma_descs_ok_def)

text \<open>A change of a buffer that the engine owns neither before nor after.\<close>

lemma dma_owner_ok_update:
  assumes "dma_owner_ok bs ds" "\<And>b. db_id (f b) = db_id b"
    and "\<And>b. b \<in> set bs \<Longrightarrow> db_id b = i \<Longrightarrow> db_owner b \<noteq> OWNER_DMA \<and> db_owner (f b) \<noteq> OWNER_DMA"
  shows "dma_owner_ok (key_update db_id i f bs) ds"
proof -
  have "db_owner b = OWNER_DMA \<longleftrightarrow> (\<exists>d\<in>set ds. in_flight d \<and> dd_buffer d = db_id b)"
    if "b \<in> set (key_update db_id i f bs)" for b
  proof (cases "db_id b = i")
    case True
    with that assms(2) obtain c where "c \<in> set bs" "db_id c = i" "b = f c"
      by (auto simp: set_key_update)
    with assms(1,3) True show ?thesis unfolding dma_owner_ok_def by metis
  next
    case False
    with that assms(1,2) show ?thesis by (auto simp: set_key_update dma_owner_ok_def)
  qed
  with assms(1) show ?thesis by (simp add: dma_owner_ok_def)
qed

lemma dma_find_buffer:
  assumes "dma_bufs_ok bs n" "key_find db_id i bs = Some b"
  shows "b \<in> set bs" "db_id b = i" "\<And>b'. b' \<in> set bs \<Longrightarrow> db_id b' = i \<Longrightarrow> b' = b"
proof -
  have d: "distinct (map db_id bs)" using assms(1) by (simp add: dma_bufs_ok_def)
  show m: "b \<in> set bs" "db_id b = i" using key_find_SomeD [OF assms(2)] by auto
  fix b' assume "b' \<in> set bs" "db_id b' = i"
  with key_find_mem [OF d this(1)] assms(2) show "b' = b" by simp
qed

text \<open>The parts of the state a buffer change leaves alone.\<close>

lemma dma_touch_frame [simp]:
  "dp_buffers (dma_touch i f s) = key_update db_id i f (dp_buffers s)"
  "dp_descriptors (dma_touch i f s) = dp_descriptors s"
  "dp_active (dma_touch i f s) = dp_active s"
  "dp_completions (dma_touch i f s) = dp_completions s"
  "dp_next_buffer_id (dma_touch i f s) = dp_next_buffer_id s"
  "dp_next_descriptor_id (dma_touch i f s) = dp_next_descriptor_id s"
  "dp_state (dma_touch i f s) = dp_state s"
  "dp_buffer_capacity (dma_touch i f s) = dp_buffer_capacity s"
  "dp_descriptor_capacity (dma_touch i f s) = dp_descriptor_capacity s"
  by (simp_all add: dma_touch_def)

lemma dma_ok_touch:
  assumes "dma_ok s" "\<And>b. db_id (f b) = db_id b" "\<And>b. db_capacity (f b) = db_capacity b"
    and "\<And>b. b \<in> set (dp_buffers s) \<Longrightarrow> db_id b = i \<Longrightarrow>
      length (db_data (f b)) = nat (db_capacity b)
      \<and> db_owner b \<noteq> OWNER_DMA \<and> db_owner (f b) \<noteq> OWNER_DMA"
  shows "dma_ok (dma_touch i f s)"
proof -
  note ok = assms(1) [unfolded dma_ok_def]
  have "dma_bufs_ok (key_update db_id i f (dp_buffers s)) (dp_next_buffer_id s)"
    using ok assms(2-4) by (intro dma_bufs_ok_update) blast+
  moreover have "dma_descs_ok (key_update db_id i f (dp_buffers s)) (dp_descriptors s)
      (dp_next_descriptor_id s)"
    using ok assms(2) by (intro dma_descs_ok_update) blast+
  moreover have "dma_owner_ok (key_update db_id i f (dp_buffers s)) (dp_descriptors s)"
    using ok assms(2,4) by (intro dma_owner_ok_update) blast+
  ultimately show ?thesis using ok by (simp add: dma_ok_def)
qed

section \<open>Every operation keeps the invariant\<close>

definition dma_contents :: "dma_provider \<Rightarrow> (int \<times> byte list) list" where
  "dma_contents s = map (\<lambda>b. (db_id b, db_data b)) (dp_buffers s)"

lemma dma_contents_state [simp]:
  "dma_contents (s\<lparr>dp_state := st\<rparr>) = dma_contents s"
  "dma_contents (s\<lparr>dp_completions := cs\<rparr>) = dma_contents s"
  by (simp_all add: dma_contents_def)

lemma in_flight_retired:
  assumes "distinct (map dd_id ds)" "d \<in> set ds" "in_flight d"
  shows "{x \<in> set (key_put dd_id (d\<lparr>dd_status := Some st\<rparr>) ds). in_flight x}
         = {x \<in> set ds. in_flight x} - {d}"
proof -
  have "x = d" if "x \<in> set ds" "dd_id x = dd_id d" for x
    using assms(1,2) that by (auto simp: distinct_map inj_on_def)
  moreover have "d\<lparr>dd_status := Some st\<rparr> \<noteq> d"
    using assms(3) by (metis dma_descriptor.select_convs(4) dma_descriptor.surjective
        dma_descriptor.update_convs(4) option.distinct(1))
  ultimately show ?thesis using assms(2,3) by (auto simp: key_put_def set_key_update)
qed

lemma dma_active_ok_retire:
  assumes "dma_active_ok ds (i # rest)" "distinct (map dd_id ds)"
    and "d \<in> set ds" "dd_id d = i" "in_flight d"
  shows "dma_active_ok (key_put dd_id (d\<lparr>dd_status := Some st\<rparr>) ds) rest"
proof -
  let ?F = "{x \<in> set ds. in_flight x}"
  have "inj_on dd_id ?F" using assms(2) by (auto simp: distinct_map inj_on_def)
  then have "dd_id ` (?F - {d}) = dd_id ` ?F - {i}"
    using assms(3-5) by (auto simp: inj_on_def)
  also have "\<dots> = set rest" using assms(1) by (auto simp: dma_active_ok_def)
  finally show ?thesis
    using assms(1) in_flight_retired [OF assms(2,3,5)] by (simp add: dma_active_ok_def)
qed

lemma dma_owner_ok_retire:
  assumes ok: "dma_owner_ok bs ds" and "distinct (map dd_id ds)" and d: "d \<in> set ds" "in_flight d"
  shows "dma_owner_ok (key_update db_id (dd_buffer d) (\<lambda>b. b\<lparr>db_owner := OWNER_CPU\<rparr>) bs)
           (key_put dd_id (d\<lparr>dd_status := Some st\<rparr>) ds)"
proof -
  let ?F = "{x \<in> set ds. in_flight x}"
    and ?ds = "key_put dd_id (d\<lparr>dd_status := Some st\<rparr>) ds"
  have F: "{x \<in> set ?ds. in_flight x} = ?F - {d}" using assms by (intro in_flight_retired)
  have mem: "x \<in> set ?ds \<and> in_flight x \<longleftrightarrow> x \<in> set ds \<and> in_flight x \<and> x \<noteq> d" for x
    using F by blast
  have ex: "(\<exists>x\<in>set ?ds. in_flight x \<and> dd_buffer x = k)
      \<longleftrightarrow> (\<exists>x\<in>set ds. in_flight x \<and> dd_buffer x = k) \<and> k \<noteq> dd_buffer d" for k
    using mem ok d unfolding dma_owner_ok_def inj_on_def by blast
  have inj: "inj_on dd_buffer {x \<in> set ?ds. in_flight x}"
    unfolding F using ok by (auto simp: dma_owner_ok_def intro: inj_on_subset)
  have "db_owner b = OWNER_DMA \<longleftrightarrow> (\<exists>x\<in>set ?ds. in_flight x \<and> dd_buffer x = db_id b)"
    if "b \<in> set (key_update db_id (dd_buffer d) (\<lambda>b. b\<lparr>db_owner := OWNER_CPU\<rparr>) bs)" for b
    using that ok unfolding ex by (auto simp: set_key_update dma_owner_ok_def)
  with inj show ?thesis unfolding dma_owner_ok_def by blast
qed

lemma dma_descs_ok_put:
  assumes "dma_descs_ok bs ds n" "d \<in> set ds"
  shows "dma_descs_ok bs (key_put dd_id (d\<lparr>dd_status := st\<rparr>) ds) n"
  using assms by (auto simp: dma_descs_ok_def key_put_def set_key_update)

text \<open>Retiring the first active descriptor succeeds and moves it to the completions.\<close>

lemma dma_retire_ok:
  assumes ok: "dma_ok s" and act: "dp_active s = i # rest" and "dp_state s \<noteq> DMA_CLOSED"
  obtains c s' where "dma_retire i rest st e s = (Inr c, s')" "dma_ok s'" "dc_id c = i"
    "dp_active s' = rest" "dp_completions s' = dp_completions s @ [c]"
    "dp_state s' = dp_state s" "dp_next_descriptor_id s' = dp_next_descriptor_id s"
    "dma_contents s' = dma_contents s"
proof -
  note parts = ok [unfolded dma_ok_def]
  have dist: "distinct (map dd_id (dp_descriptors s))" using parts by (simp add: dma_descs_ok_def)
  have "i \<in> dd_id ` {d \<in> set (dp_descriptors s). in_flight d}"
    using parts act by (auto simp: dma_active_ok_def)
  then obtain d where d: "d \<in> set (dp_descriptors s)" "dd_id d = i" "in_flight d" by auto
  have find: "key_find dd_id i (dp_descriptors s) = Some d"
    using key_find_mem [OF dist d(1)] d(2) by simp
  have buf: "dd_buffer d \<in> db_id ` set (dp_buffers s)"
    using parts d by (auto simp: dma_descs_ok_def)
  obtain c s' where run: "dma_retire i rest st e s = (Inr c, s')"
    and s': "s' = (dma_touch (dd_buffer d) (\<lambda>b. b\<lparr>db_owner := OWNER_CPU\<rparr>) (s\<lparr>dp_active := rest\<rparr>))
        \<lparr>dp_descriptors := key_put dd_id (d\<lparr>dd_status := Some st\<rparr>) (dp_descriptors s),
         dp_completions := dp_completions s @ [c]\<rparr>" and c: "dc_id c = i"
    using find buf by (simp add: dma_retire_def Let_def)
  have len: "length (key_put dd_id (d\<lparr>dd_status := Some st\<rparr>) (dp_descriptors s))
      = length (dp_descriptors s)"
    using d by (auto simp: key_put_def)
  have "dma_active_ok (key_put dd_id (d\<lparr>dd_status := Some st\<rparr>) (dp_descriptors s)) rest"
    using parts act dist d by (intro dma_active_ok_retire) auto
  moreover have "dma_bufs_ok (dp_buffers s') (dp_next_buffer_id s)"
    using parts unfolding s' by (simp add: dma_bufs_ok_def set_key_update) auto
  ultimately have "dma_ok s'"
    using parts dist d assms(3) len
    by (simp add: dma_ok_def s' dma_owner_ok_retire dma_descs_ok_put dma_descs_ok_update)
  moreover have "dma_contents s' = dma_contents s"
    by (simp add: s' key_update_def dma_contents_def)
  ultimately show thesis using that [OF run] c by (simp add: s')
qed

lemma dma_cancel_loop_ok:
  assumes "dma_ok s" "dp_state s \<noteq> DMA_CLOSED"
  shows "\<exists>cs s'. dma_cancel_loop (dp_active s) acc s = (Inr (acc @ cs), s') \<and> dma_ok s'
     \<and> map dc_id cs = dp_active s \<and> dp_active s' = []
     \<and> dp_completions s' = dp_completions s @ cs \<and> dp_state s' = dp_state s
     \<and> dp_next_descriptor_id s' = dp_next_descriptor_id s
     \<and> dma_contents s' = dma_contents s"
  using assms
proof (induction "dp_active s" arbitrary: s acc)
  case Nil
  then show ?case by (auto simp flip: Nil.hyps)
next
  case (Cons i rest)
  obtain c t where run: "dma_retire i rest DMA_CANCELLED (Some ''cancelled'') s = (Inr c, t)"
    and t: "dma_ok t" "dc_id c = i" "dp_active t = rest"
      "dp_completions t = dp_completions s @ [c]" "dp_state t = dp_state s"
      "dp_next_descriptor_id t = dp_next_descriptor_id s"
      "dma_contents t = dma_contents s"
    using dma_retire_ok [OF Cons.prems(1) Cons.hyps(2) [symmetric] Cons.prems(2)] by metis
  obtain cs u where IH: "dma_cancel_loop rest (acc @ [c]) t = (Inr ((acc @ [c]) @ cs), u)"
    and u: "dma_ok u" "map dc_id cs = rest" "dp_active u = []"
      "dp_completions u = dp_completions t @ cs" "dp_state u = dp_state t"
      "dp_next_descriptor_id u = dp_next_descriptor_id t"
      "dma_contents u = dma_contents t"
    using Cons.hyps(1) [of t "acc @ [c]"] t Cons.prems(2) by metis
  have "dma_cancel_loop (dp_active s) acc s = (Inr (acc @ c # cs), u)"
    using run IH by (simp add: and_then_def flip: Cons.hyps(2))
  then show ?case
    using t u Cons.hyps(2) by (intro exI [of _ "c # cs"] exI [of _ u]) simp
qed

lemma dma_cancel_pending_ok:
  assumes "dma_ok s" "dp_state s \<noteq> DMA_CLOSED"
  obtains cs s' where "dma_cancel_pending s = (Inr cs, s')" "dma_ok s'"
    "map dc_id cs = dp_active s" "dp_active s' = []"
    "dp_completions s' = dp_completions s @ cs" "dp_state s' = dp_state s"
    "dp_next_descriptor_id s' = dp_next_descriptor_id s"
    "dma_contents s' = dma_contents s"
proof -
  have "dma_cancel_pending s = dma_cancel_loop (dp_active s) [] s"
    using assms(2) by (simp add: dma_cancel_pending_def dma_ensure_open_def and_then_def)
  with dma_cancel_loop_ok [OF assms, of "[]"] that show thesis by auto
qed

lemma dma_ok_state [simp]:
  "st \<noteq> DMA_CLOSED \<Longrightarrow> dp_state s \<noteq> DMA_CLOSED \<Longrightarrow> dma_ok (s\<lparr>dp_state := st\<rparr>) \<longleftrightarrow> dma_ok s"
  by (simp add: dma_ok_def)

lemma dma_close_ok:
  assumes "dma_ok s" "dp_state s \<noteq> DMA_CLOSED"
  obtains s' where "dma_close s = (Inr (), s')" "dma_ok s'" "dp_state s' = DMA_CLOSED"
    "dma_contents s' = dma_contents s"
proof -
  obtain cs t where run: "dma_cancel_pending s = (Inr cs, t)" and t: "dma_ok t" "dp_active t = []"
    "dma_contents t = dma_contents s"
    using dma_cancel_pending_ok [OF assms] by metis
  let ?u = "t\<lparr>dp_completions := [], dp_state := DMA_CLOSED\<rparr>"
  have "dma_close s = (Inr (), ?u)" using run assms(2) by (simp add: dma_close_def and_then_def)
  moreover have "dma_ok ?u" using t by (simp add: dma_ok_def)
  ultimately show thesis using t that by simp
qed

lemma dma_complete_next_cases:
  assumes "dma_ok s" "dma_complete_next st e s = (r, s')"
  shows "(\<exists>err. r = Inl err \<and> err \<noteq> DMAInternal \<and> s' = s)
    \<or> (\<exists>c i rest. r = Inr c \<and> dp_active s = i # rest \<and> dc_id c = i \<and> dma_ok s' \<and> dp_active s' = rest
         \<and> dp_completions s' = dp_completions s @ [c] \<and> dp_state s \<noteq> DMA_CLOSED
         \<and> dp_state s' \<noteq> DMA_CLOSED \<and> dp_next_descriptor_id s' = dp_next_descriptor_id s
         \<and> dma_contents s' = dma_contents s)"
proof (cases "dp_state s = DMA_CLOSED \<or> dp_active s = []
      \<or> st = DMA_CANCELLED \<or> st = DMA_ERROR \<and> (e = None \<or> e = Some [])")
  case True
  then show ?thesis using assms(2)
    by (auto simp: dma_complete_next_def dma_ensure_open_def and_then_def split: list.splits if_splits)
next
  case False
  then obtain i rest where act: "dp_active s = i # rest" and op: "dp_state s \<noteq> DMA_CLOSED"
    by (cases "dp_active s") auto
  obtain c t where run: "dma_retire i rest st e s = (Inr c, t)"
    and t: "dma_ok t" "dc_id c = i" "dp_active t = rest"
      "dp_completions t = dp_completions s @ [c]" "dp_state t = dp_state s"
      "dp_next_descriptor_id t = dp_next_descriptor_id s"
      "dma_contents t = dma_contents s"
    using dma_retire_ok [OF assms(1) act op] by metis
  have "r = Inr c" "s' = (if st = DMA_ERROR then t\<lparr>dp_state := DMA_HALTED\<rparr> else t)"
    using assms(2) run act False
    by (auto simp: dma_complete_next_def dma_ensure_open_def and_then_def split: if_splits)
  then show ?thesis using t act op by simp
qed

lemma first_smallest_mem: "first_smallest bs = Some b \<Longrightarrow> b \<in> set bs"
  by (induction bs arbitrary: b) (auto split: option.splits if_splits)

lemma first_smallest_least:
  "first_smallest bs = Some b \<Longrightarrow> c \<in> set bs \<Longrightarrow> db_capacity b \<le> db_capacity c"
proof (induction bs arbitrary: b)
  case (Cons a bs)
  show ?case
  proof (cases "first_smallest bs")
    case None
    then have "bs = []" by (cases bs) (auto split: option.splits if_splits)
    with Cons.prems show ?thesis by simp
  next
    case (Some m)
    with Cons.IH [of m] Cons.prems show ?thesis by (auto split: if_splits)
  qed
qed simp

lemma first_smallest_None [simp]: "first_smallest bs = None \<longleftrightarrow> bs = []"
  by (cases bs) (auto split: option.splits)

lemma dma_reusable_SomeD:
  "dma_reusable n s = Some b \<Longrightarrow>
     b \<in> set (dp_buffers s) \<and> db_owner b = OWNER_FREE \<and> n \<le> db_capacity b"
  unfolding dma_reusable_def by (drule first_smallest_mem) simp

lemma dma_distinct_ids: "dma_ok s \<Longrightarrow> distinct (map db_id (dp_buffers s))"
  by (simp add: dma_ok_def dma_bufs_ok_def)

lemma dma_same_buffer:
  "dma_ok s \<Longrightarrow> b \<in> set (dp_buffers s) \<Longrightarrow> c \<in> set (dp_buffers s) \<Longrightarrow> db_id b = db_id c \<Longrightarrow> b = c"
  using dma_distinct_ids by (auto simp: distinct_map inj_on_def)

lemma dma_ok_touch_one:
  assumes ok: "dma_ok s" and b: "b \<in> set (dp_buffers s)" "db_owner b \<noteq> OWNER_DMA"
    and f: "\<And>b. db_id (f b) = db_id b" "\<And>b. db_capacity (f b) = db_capacity b"
    and fb: "length (db_data (f b)) = nat (db_capacity b)" "db_owner (f b) \<noteq> OWNER_DMA"
  shows "dma_ok (dma_touch (db_id b) f s)"
proof (rule dma_ok_touch [OF ok f])
  fix c assume "c \<in> set (dp_buffers s)" "db_id c = db_id b"
  then have "c = b" using dma_same_buffer [OF ok _ b(1)] by blast
  then show "length (db_data (f c)) = nat (db_capacity c)
      \<and> db_owner c \<noteq> OWNER_DMA \<and> db_owner (f c) \<noteq> OWNER_DMA"
    using b fb by simp
qed

lemma dma_allocate_cases:
  assumes "dma_ok s" "dma_allocate n s = (r, s')"
  obtains (refused) e where "r = Inl e" "e \<noteq> DMAInternal" "s' = s"
  | (reused) b where "r = Inr (db_id b)" "dma_reusable n s = Some b"
      "s' = dma_touch (db_id b)
         (\<lambda>b. b\<lparr>db_owner := OWNER_CPU, db_data := replicate (nat (db_capacity b)) 0\<rparr>) s"
  | (fresh) b where "r = Inr (db_id b)" "dma_reusable n s = None" "db_id b = dp_next_buffer_id s"
      "db_capacity b = n" "db_data b = replicate (nat n) 0" "db_owner b = OWNER_CPU" "1 \<le> n"
      "int (length (dp_buffers s)) < dp_buffer_capacity s"
      "s' = s\<lparr>dp_next_buffer_id := dp_next_buffer_id s + 1, dp_buffers := dp_buffers s @ [b]\<rparr>"
proof -
  have new: "dp_next_buffer_id s \<notin> db_id ` set (dp_buffers s)"
    using assms(1) by (auto simp: dma_ok_def dma_bufs_ok_def)
  consider (a) "dp_state s \<noteq> DMA_READY \<or> \<not> (1 \<le> n \<and> n \<le> MAX_BUFFER_BYTES)"
    | (b) "dp_state s = DMA_READY" "1 \<le> n" "n \<le> MAX_BUFFER_BYTES" by blast
  then show thesis
  proof cases
    case a
    then show thesis using assms(2) refused by (auto simp: dma_defs split: if_splits)
  next
    case b
    show thesis
    proof (cases "dma_reusable n s")
      case (Some c)
      then show thesis using assms(2) b reused [of c] by (simp add: dma_defs)
    next
      case None
      let ?b = "\<lparr>db_id = dp_next_buffer_id s, db_capacity = n,
                 db_data = replicate (nat n) 0, db_owner = OWNER_CPU\<rparr>"
      show thesis
        using assms(2) b None new refused fresh [of ?b]
        by (auto simp: dma_defs Let_def key_put_fresh split: if_splits)
    qed
  qed
qed

lemma dma_allocate_ok:
  assumes ok: "dma_ok s"
  shows "dma_ok (snd (dma_allocate n s))"
proof -
  obtain r s' where run: "dma_allocate n s = (r, s')" by fastforce
  from ok run have "dma_ok s'"
  proof (cases rule: dma_allocate_cases)
    case (reused b)
    note b = dma_reusable_SomeD [OF reused(2)]
    then show ?thesis unfolding reused(3) by (intro dma_ok_touch_one ok) simp_all
  next
    case (fresh b)
    have "dp_next_buffer_id s \<notin> db_id ` set (dp_buffers s)"
      using ok by (auto simp: dma_ok_def dma_bufs_ok_def)
    moreover have "dd_buffer d \<in> db_id ` set (dp_buffers s)" if "d \<in> set (dp_descriptors s)" for d
      using ok that by (simp add: dma_ok_def dma_descs_ok_def)
    ultimately have "d \<in> set (dp_descriptors s) \<Longrightarrow> dd_buffer d \<noteq> dp_next_buffer_id s" for d
      by metis
    with fresh ok show ?thesis
      by (auto simp: dma_ok_def dma_bufs_ok_def dma_descs_ok_def dma_owner_ok_def)
  qed (use ok in simp)
  then show ?thesis by (simp add: run)
qed

lemma dma_owned_buffer_cases:
  obtains (bad) "dma_owned_buffer r s = (Inl DMAOwnershipError, s)"
  | (good) b where "dma_owned_buffer r s = (Inr b, s)" "r = OwnBuffer (db_id b)"
      "b \<in> set (dp_buffers s)"
proof (cases r)
  case (OwnBuffer i)
  show thesis
  proof (cases "key_find db_id i (dp_buffers s)")
    case None
    with OwnBuffer show thesis by (intro bad) (simp add: dma_owned_buffer_def)
  next
    case (Some b)
    with OwnBuffer key_find_SomeD [OF Some] show thesis
      by (intro good [of b]) (simp_all add: dma_owned_buffer_def)
  qed
next
  case ForeignBuffer
  then show thesis by (intro bad) (simp add: dma_owned_buffer_def)
qed

lemma dma_ensure_ready_eq:
  "dma_ensure_ready s =
     (if dp_state s = DMA_CLOSED then raise DMAProviderClosed s
      else if dp_state s \<noteq> DMA_READY then raise DMAStateError s else return () s)"
  by (simp add: dma_ensure_ready_def dma_ensure_open_def and_then_def)

lemma dma_write_cases:
  assumes "dma_write r data s = (x, s')"
  obtains (refused) e where "x = Inl e" "e \<noteq> DMAInternal" "s' = s"
  | (written) b where "x = Inr ()" "r = OwnBuffer (db_id b)" "b \<in> set (dp_buffers s)"
      "db_owner b = OWNER_CPU" "int (length data) \<le> db_capacity b"
      "s' = dma_touch (db_id b) (\<lambda>b. b\<lparr>db_data := data @ drop (length data) (db_data b)\<rparr>) s"
proof (cases rule: dma_owned_buffer_cases [of r s])
  case bad
  with assms have "\<exists>e. x = Inl e \<and> e \<noteq> DMAInternal \<and> s' = s"
    by (auto simp: dma_write_def dma_ensure_ready_eq and_then_def split: if_splits)
  then show thesis using refused by blast
next
  case (good b)
  let ?go = "dp_state s = DMA_READY \<and> db_owner b = OWNER_CPU \<and> int (length data) \<le> db_capacity b"
  show thesis
  proof (cases ?go)
    case True
    with assms good have "x = Inr ()"
      "s' = dma_touch (db_id b) (\<lambda>b. b\<lparr>db_data := data @ drop (length data) (db_data b)\<rparr>) s"
      by (simp_all add: dma_write_def dma_ensure_ready_eq and_then_def)
    with True good show thesis by (intro written [of b]) simp_all
  next
    case False
    with assms good have "\<exists>e. x = Inl e \<and> e \<noteq> DMAInternal \<and> s' = s"
      by (auto simp: dma_write_def dma_ensure_ready_eq and_then_def split: if_splits)
    then show thesis using refused by blast
  qed
qed

lemma dma_write_ok:
  assumes ok: "dma_ok s"
  shows "dma_ok (snd (dma_write r data s))"
proof -
  obtain x s' where run: "dma_write r data s = (x, s')" by fastforce
  then have "dma_ok s'"
  proof (cases rule: dma_write_cases)
    case (written b)
    have "length (db_data b) = nat (db_capacity b)"
      using ok written by (simp add: dma_ok_def dma_bufs_ok_def)
    with written show ?thesis unfolding written(6) by (intro dma_ok_touch_one ok) auto
  qed (use ok in simp)
  then show ?thesis by (simp add: run)
qed

lemma dma_read_state: "snd (dma_read r len s) = s"
  by (auto simp: dma_read_def dma_ensure_open_def dma_owned_buffer_def and_then_def Let_def
      split: buffer_ref.splits option.splits)

lemma dma_submit_cases:
  assumes "dma_ok s" "dma_submit r len s = (x, s')"
  obtains (refused) e where "x = Inl e" "e \<noteq> DMAInternal" "s' = s"
  | (queued) b d where "x = Inr d" "r = OwnBuffer (db_id b)" "b \<in> set (dp_buffers s)"
      "db_owner b = OWNER_CPU" "dd_id d = dp_next_descriptor_id s" "dd_buffer d = db_id b"
      "dd_length d = len" "in_flight d" "dp_state s = DMA_READY"
      "int (length (dp_descriptors s)) < dp_descriptor_capacity s"
      "s' = (dma_touch (db_id b) (\<lambda>b. b\<lparr>db_owner := OWNER_DMA\<rparr>) s)
         \<lparr>dp_next_descriptor_id := dp_next_descriptor_id s + 1,
          dp_descriptors := dp_descriptors s @ [d],
          dp_active := dp_active s @ [dd_id d]\<rparr>"
proof -
  have new: "dp_next_descriptor_id s \<notin> dd_id ` set (dp_descriptors s)"
    using assms(1) by (auto simp: dma_ok_def dma_descs_ok_def)
  show thesis
  proof (cases rule: dma_owned_buffer_cases [of r s])
    case bad
    with assms(2) have "\<exists>e. x = Inl e \<and> e \<noteq> DMAInternal \<and> s' = s"
      by (auto simp: dma_submit_def dma_ensure_ready_eq and_then_def split: if_splits)
    then show thesis using refused by blast
  next
    case (good b)
    let ?d = "\<lparr>dd_id = dp_next_descriptor_id s, dd_buffer = db_id b, dd_length = len,
               dd_status = None\<rparr>"
    let ?go = "dp_state s = DMA_READY \<and> db_owner b = OWNER_CPU \<and> 1 \<le> len \<and> len \<le> db_capacity b
      \<and> int (length (dp_descriptors s)) < dp_descriptor_capacity s"
    have put: "key_put dd_id ?d (dp_descriptors s) = dp_descriptors s @ [?d]"
      using new by (simp add: key_put_fresh)
    show thesis
    proof (cases ?go)
      case True
      with assms(2) good put show thesis
        by (intro queued [of ?d b])
          (simp_all add: dma_submit_def dma_ensure_ready_eq and_then_def Let_def)
    next
      case False
      with assms(2) good have "\<exists>e. x = Inl e \<and> e \<noteq> DMAInternal \<and> s' = s"
        by (auto simp: dma_submit_def dma_ensure_ready_eq and_then_def Let_def split: if_splits)
      then show thesis using refused by blast
    qed
  qed
qed

lemma dma_owner_ok_submit:
  assumes ok: "dma_owner_ok bs ds" and b: "b \<in> set bs" "db_owner b \<noteq> OWNER_DMA"
    and d: "in_flight d" "dd_buffer d = db_id b"
  shows "dma_owner_ok (key_update db_id (db_id b) (\<lambda>b. b\<lparr>db_owner := OWNER_DMA\<rparr>) bs) (ds @ [d])"
proof -
  have none: "\<not> (\<exists>x\<in>set ds. in_flight x \<and> dd_buffer x = db_id b)"
    using ok b by (simp add: dma_owner_ok_def)
  have F: "{x \<in> set (ds @ [d]). in_flight x} = insert d {x \<in> set ds. in_flight x}" using d by auto
  have "dd_buffer d \<notin> dd_buffer ` {x \<in> set ds. in_flight x}" using none d(2) by auto
  moreover have "inj_on dd_buffer {x \<in> set ds. in_flight x}" using ok by (simp add: dma_owner_ok_def)
  ultimately have inj: "inj_on dd_buffer {x \<in> set (ds @ [d]). in_flight x}"
    unfolding F inj_on_insert by blast
  have "db_owner c = OWNER_DMA \<longleftrightarrow> (\<exists>x\<in>set (ds @ [d]). in_flight x \<and> dd_buffer x = db_id c)"
    if c: "c \<in> set (key_update db_id (db_id b) (\<lambda>b. b\<lparr>db_owner := OWNER_DMA\<rparr>) bs)" for c
  proof (cases "db_id c = db_id b")
    case True
    then have "db_owner c = OWNER_DMA" using c by (auto simp: set_key_update)
    with True d show ?thesis by auto
  next
    case False
    then have "c \<in> set bs" using c by (auto simp: set_key_update)
    with False ok d show ?thesis by (simp add: dma_owner_ok_def)
  qed
  with inj show ?thesis unfolding dma_owner_ok_def by blast
qed

lemma dma_submit_ok:
  assumes ok: "dma_ok s"
  shows "dma_ok (snd (dma_submit r len s))"
proof -
  obtain x s' where run: "dma_submit r len s = (x, s')" by fastforce
  with ok have "dma_ok s'"
  proof (cases rule: dma_submit_cases)
    case (queued b d)
    note parts = ok [unfolded dma_ok_def]
    have bufs: "dma_bufs_ok (key_update db_id (db_id b) (\<lambda>b. b\<lparr>db_owner := OWNER_DMA\<rparr>) (dp_buffers s))
        (dp_next_buffer_id s)"
      using parts by (intro dma_bufs_ok_update) (auto simp: dma_bufs_ok_def)
    have owner: "dma_owner_ok
        (key_update db_id (db_id b) (\<lambda>b. b\<lparr>db_owner := OWNER_DMA\<rparr>) (dp_buffers s))
        (dp_descriptors s @ [d])"
      using parts queued by (intro dma_owner_ok_submit) auto
    have act: "dma_active_ok (dp_descriptors s @ [d]) (dp_active s @ [dd_id d])"
    proof -
      have "{x \<in> set (dp_descriptors s @ [d]). in_flight x}
          = insert d {x \<in> set (dp_descriptors s). in_flight x}" using queued by auto
      moreover have "dd_id d \<notin> set (dp_active s)"
        using parts queued by (auto simp: dma_active_ok_def dma_descs_ok_def)
      ultimately show ?thesis using parts by (simp add: dma_active_ok_def)
    qed
    have "dma_descs_ok (dp_buffers s) (dp_descriptors s @ [d]) (dp_next_descriptor_id s + 1)"
      using parts queued by (auto simp: dma_descs_ok_def)
    then have "dma_descs_ok
        (key_update db_id (db_id b) (\<lambda>b. b\<lparr>db_owner := OWNER_DMA\<rparr>) (dp_buffers s))
        (dp_descriptors s @ [d]) (dp_next_descriptor_id s + 1)"
      by (rule dma_descs_ok_update) simp
    with bufs owner act parts queued show ?thesis by (simp add: dma_ok_def)
  qed (use ok in simp)
  then show ?thesis by (simp add: run)
qed

lemma dma_recycle_cases:
  assumes "dma_ok s" "dma_recycle i s = (x, s')"
  obtains (refused) e where "x = Inl e" "e \<noteq> DMAInternal" "s' = s"
  | (freed) b d where "x = Inr (db_id b)" "d \<in> set (dp_descriptors s)" "dd_id d = i"
      "\<not> in_flight d" "dd_buffer d = db_id b" "b \<in> set (dp_buffers s)" "db_owner b = OWNER_CPU"
      "dp_state s \<noteq> DMA_CLOSED"
      "s' = (dma_touch (db_id b) (\<lambda>b. b\<lparr>db_owner := OWNER_FREE\<rparr>) s)
         \<lparr>dp_descriptors := key_remove dd_id i (dp_descriptors s)\<rparr>"
proof (cases "dp_state s = DMA_CLOSED \<or> key_find dd_id i (dp_descriptors s) = None")
  case True
  with assms(2) have "\<exists>e. x = Inl e \<and> e \<noteq> DMAInternal \<and> s' = s"
    by (auto simp: dma_recycle_def dma_ensure_open_def and_then_def split: option.splits if_splits)
  then show thesis using refused by blast
next
  case False
  then obtain d where d: "key_find dd_id i (dp_descriptors s) = Some d" and op: "dp_state s \<noteq> DMA_CLOSED"
    by auto
  note dm = key_find_SomeD [OF d]
  have "dd_buffer d \<in> db_id ` set (dp_buffers s)"
    using assms(1) dm by (simp add: dma_ok_def dma_descs_ok_def)
  then obtain b where b: "key_find db_id (dd_buffer d) (dp_buffers s) = Some b"
    using key_find_None by (metis option.exhaust)
  note bm = key_find_SomeD [OF b]
  show thesis
  proof (cases "\<not> in_flight d \<and> db_owner b = OWNER_CPU")
    case True
    with assms(2) d b dm bm op show thesis
      by (intro freed [of b d]) (simp_all add: dma_recycle_def dma_ensure_open_def and_then_def)
  next
    case False
    with assms(2) d b op have "\<exists>e. x = Inl e \<and> e \<noteq> DMAInternal \<and> s' = s"
      by (auto simp: dma_recycle_def dma_ensure_open_def and_then_def split: if_splits)
    then show thesis using refused by blast
  qed
qed

text \<open>Dropping a descriptor that is not in flight.\<close>

lemma dma_ok_drop:
  assumes ok: "dma_ok s" and d: "d \<in> set (dp_descriptors s)" "\<not> in_flight d"
  shows "dma_ok (s\<lparr>dp_descriptors := key_remove dd_id (dd_id d) (dp_descriptors s)\<rparr>)"
proof -
  note parts = ok [unfolded dma_ok_def]
  let ?ds = "key_remove dd_id (dd_id d) (dp_descriptors s)"
  have "x = d" if "x \<in> set (dp_descriptors s)" "dd_id x = dd_id d" for x
    using parts d that by (auto simp: dma_descs_ok_def distinct_map inj_on_def)
  then have mem: "x \<in> set ?ds \<and> in_flight x \<longleftrightarrow> x \<in> set (dp_descriptors s) \<and> in_flight x" for x
    using d by (metis (mono_tags, lifting) mem_Collect_eq set_key_remove)
  then have F: "{x \<in> set ?ds. in_flight x} = {x \<in> set (dp_descriptors s). in_flight x}" by blast
  have ex: "(\<exists>x\<in>set ?ds. in_flight x \<and> P x) \<longleftrightarrow> (\<exists>x\<in>set (dp_descriptors s). in_flight x \<and> P x)" for P
    using mem by blast
  have "dma_active_ok ?ds (dp_active s)" using parts unfolding dma_active_ok_def F by blast
  moreover have "dma_owner_ok (dp_buffers s) ?ds" using parts unfolding dma_owner_ok_def F ex by blast
  moreover have "dma_descs_ok (dp_buffers s) ?ds (dp_next_descriptor_id s)"
    using parts by (simp add: dma_descs_ok_def distinct_key_remove)
  moreover have "int (length ?ds) \<le> dp_descriptor_capacity s"
    using parts length_key_remove [of dd_id "dd_id d" "dp_descriptors s"] by linarith
  ultimately show ?thesis using parts by (simp add: dma_ok_def)
qed

lemma dma_recycle_ok:
  assumes ok: "dma_ok s"
  shows "dma_ok (snd (dma_recycle i s))"
proof -
  obtain x s' where run: "dma_recycle i s = (x, s')" by fastforce
  with ok have "dma_ok s'"
  proof (cases rule: dma_recycle_cases)
    case (freed b d)
    have "length (db_data b) = nat (db_capacity b)"
      using ok freed by (simp add: dma_ok_def dma_bufs_ok_def)
    then have "dma_ok (dma_touch (db_id b) (\<lambda>b. b\<lparr>db_owner := OWNER_FREE\<rparr>) s)"
      using freed by (intro dma_ok_touch_one ok) simp_all
    from dma_ok_drop [OF this, of d] freed show ?thesis by simp
  qed (use ok in simp)
  then show ?thesis by (simp add: run)
qed

lemma dma_complete_next_ok:
  assumes "dma_ok s"
  shows "dma_ok (snd (dma_complete_next st e s))"
  using dma_complete_next_cases [OF assms, of st e] assms
  by (cases "dma_complete_next st e s") auto

lemma dma_cancel_closed: "dp_state s = DMA_CLOSED \<Longrightarrow> dma_cancel_pending s = (Inl DMAProviderClosed, s)"
  by (simp add: dma_cancel_pending_def dma_ensure_open_def and_then_def)

lemma dma_step_ok:
  assumes "dma_ok s"
  shows "dma_ok (dma_step op s)"
proof (cases op)
  case DmaCancelPending
  show ?thesis
  proof (cases "dp_state s = DMA_CLOSED")
    case False
    with dma_cancel_pending_ok [OF assms] DmaCancelPending show ?thesis
      by (metis dma_step.simps(6) snd_conv)
  qed (use assms DmaCancelPending dma_cancel_closed in simp)
next
  case DmaClose
  show ?thesis
  proof (cases "dp_state s = DMA_CLOSED")
    case False
    with dma_close_ok [OF assms] DmaClose show ?thesis by (metis dma_step.simps(10) snd_conv)
  qed (use assms DmaClose in \<open>simp add: dma_close_def\<close>)
next
  case DmaPoll
  with assms show ?thesis
    by (auto simp: dma_poll_completion_def dma_ensure_open_def and_then_def dma_ok_def split: list.split)
next
  case DmaRecover
  with assms show ?thesis by (auto simp: dma_recover_def)
qed (use assms in \<open>simp_all add: dma_allocate_ok dma_write_ok dma_read_state dma_submit_ok
       dma_complete_next_ok dma_recycle_ok\<close>)

interpretation dma: machine_invariant dma_step dma_ok
  by unfold_locales (rule dma_step_ok)

lemma dma_new_ok: "dma_new bc dc = Inr s \<Longrightarrow> dma_ok s"
  by (auto simp: dma_new_def dma_ok_def dma_bufs_ok_def dma_descs_ok_def dma_active_ok_def
      dma_owner_ok_def split: if_splits)

section \<open>Completions are a numbered stream\<close>

definition dma_pending :: "dma_provider \<Rightarrow> int list" where
  "dma_pending s = map dc_id (dp_completions s) @ dp_active s"

lemma dma_closed_step:
  assumes "dp_state s = DMA_CLOSED"
  shows "dma_step op s = s" "dma_out op s = []"
  using assms
  by (cases op; auto simp: dma_ensure_ready_eq dma_ensure_open_def dma_allocate_def dma_write_def
      dma_read_def dma_submit_def dma_complete_next_def dma_cancel_pending_def
      dma_poll_completion_def dma_recycle_def dma_recover_def dma_close_def and_then_def)+

definition dma_flows :: "dma_op \<Rightarrow> dma_provider \<Rightarrow> bool" where
  "dma_flows op s \<longleftrightarrow>
     (\<exists>n. dp_next_descriptor_id (dma_step op s) = dp_next_descriptor_id s + int n
        \<and> dma_out op s @ dma_pending (dma_step op s)
            = dma_pending s @ upfrom (dp_next_descriptor_id s) n)"

lemma dma_flows_same:
  assumes "dma_out op s = []" "dma_pending (dma_step op s) = dma_pending s"
    and "dp_next_descriptor_id (dma_step op s) = dp_next_descriptor_id s"
  shows "dma_flows op s"
  using assms unfolding dma_flows_def by (intro exI [of _ 0]) simp

lemma dma_flows_submit:
  assumes "dma_ok s"
  shows "dma_flows (DmaSubmit r len) s"
proof -
  obtain x s' where run: "dma_submit r len s = (x, s')" by fastforce
  with assms show ?thesis
  proof (cases rule: dma_submit_cases)
    case (queued b d)
    with run show ?thesis unfolding dma_flows_def
      by (intro exI [of _ 1]) (simp add: dma_pending_def)
  qed (auto intro: dma_flows_same simp: run)
qed

lemma dma_flows_retire:
  assumes "dma_ok s" "dp_state s \<noteq> DMA_CLOSED"
  shows "dma_flows (DmaCompleteNext st e) s" "dma_flows DmaCancelPending s"
proof -
  obtain x s' where run: "dma_complete_next st e s = (x, s')" by fastforce
  from dma_complete_next_cases [OF assms(1) run] show "dma_flows (DmaCompleteNext st e) s"
    by (elim disjE exE conjE) (rule dma_flows_same, simp_all add: run dma_pending_def)+
  obtain cs t where "dma_cancel_pending s = (Inr cs, t)" "map dc_id cs = dp_active s"
    "dp_active t = []" "dp_completions t = dp_completions s @ cs"
    "dp_next_descriptor_id t = dp_next_descriptor_id s"
    using dma_cancel_pending_ok [OF assms] by metis
  then show "dma_flows DmaCancelPending s"
    by (intro dma_flows_same) (simp_all add: dma_pending_def)
qed

lemma dma_flows_quiet:
  assumes "dma_ok s"
  shows "dma_flows (DmaAllocate n) s" "dma_flows (DmaWrite r data) s" "dma_flows (DmaRecycle i) s"
proof -
  obtain x s' where run: "dma_allocate n s = (x, s')" by fastforce
  from assms run show "dma_flows (DmaAllocate n) s"
    by (cases rule: dma_allocate_cases) (rule dma_flows_same, simp_all add: run dma_pending_def)+
  obtain y t where run: "dma_write r data s = (y, t)" by fastforce
  then show "dma_flows (DmaWrite r data) s"
    by (cases rule: dma_write_cases)
      (rule dma_flows_same; use run in \<open>simp add: dma_pending_def\<close>)+
  obtain z u where run: "dma_recycle i s = (z, u)" by fastforce
  from assms run show "dma_flows (DmaRecycle i) s"
    by (cases rule: dma_recycle_cases) (rule dma_flows_same, simp_all add: run dma_pending_def)+
qed

lemma dma_live_step:
  assumes "dma_ok s" "dp_state s \<noteq> DMA_CLOSED"
  shows "dp_state (dma_step op s) = DMA_CLOSED \<and> dma_out op s = [] \<or> dma_flows op s"
proof (cases op)
  case DmaClose
  with dma_close_ok [OF assms] show ?thesis by (metis dma_out.simps(10) dma_step.simps(10) snd_conv)
next
  case DmaPoll
  have "dma_flows DmaPoll s" unfolding dma_flows_def
    using assms(2) by (intro exI [of _ 0])
      (auto simp: dma_poll_completion_def dma_ensure_open_def and_then_def dma_pending_def
        split: list.split)
  with DmaPoll show ?thesis by simp
next
  case DmaRecover
  have "dma_flows DmaRecover s"
    by (rule dma_flows_same) (auto simp: dma_recover_def dma_pending_def)
  with DmaRecover show ?thesis by simp
next
  case (DmaRead r len)
  have "dma_flows (DmaRead r len) s" by (rule dma_flows_same) (simp_all add: dma_read_state)
  with DmaRead show ?thesis by simp
qed (use assms dma_flows_submit dma_flows_retire dma_flows_quiet in blast)+

interpretation dma_stream: numbered_stream dma_step dma_out dma_pending dp_next_descriptor_id
    "\<lambda>s. dp_state s = DMA_CLOSED" dma_ok
proof unfold_locales
  fix s op assume ok: "dma_ok s"
  show "dma_ok (dma_step op s)" using ok by (rule dma_step_ok)
  show "dp_state (dma_step op s) = DMA_CLOSED \<and> dma_out op s = []" if "dp_state s = DMA_CLOSED"
    using dma_closed_step [OF that] that by simp
  show "dp_state (dma_step op s) = DMA_CLOSED \<and> dma_out op s = []
      \<or> (\<exists>n. dp_next_descriptor_id (dma_step op s) = dp_next_descriptor_id s + int n
            \<and> dma_out op s @ dma_pending (dma_step op s)
                = dma_pending s @ upfrom (dp_next_descriptor_id s) n)"
    if "dp_state s \<noteq> DMA_CLOSED"
    using dma_live_step [OF ok that] by (simp add: dma_flows_def)
qed

section \<open>What the engine owns, nobody touches\<close>

lemma dma_touch_contents:
  "(i, data) \<in> set (dma_contents s) \<Longrightarrow> i \<noteq> j \<Longrightarrow> (\<And>b. db_id (f b) = db_id b)
   \<Longrightarrow> (i, data) \<in> set (dma_contents (dma_touch j f s))"
  by (auto simp: dma_contents_def set_key_update)

lemma dma_owner_contents:
  "(\<And>b. db_id (f b) = db_id b \<and> db_data (f b) = db_data b)
   \<Longrightarrow> dma_contents (dma_touch j f s) = dma_contents s"
  by (simp add: dma_contents_def key_update_def)

lemma dma_contents_frame [simp]:
  "dma_contents (s\<lparr>dp_descriptors := ds\<rparr>) = dma_contents s"
  "dma_contents (s\<lparr>dp_next_descriptor_id := n\<rparr>) = dma_contents s"
  "dma_contents (s\<lparr>dp_active := act\<rparr>) = dma_contents s"
  by (simp_all add: dma_contents_def)

lemma dma_engine_bytes_alloc_write:
  assumes ok: "dma_ok s" and b: "b \<in> set (dp_buffers s)" "db_owner b = OWNER_DMA"
  shows "(db_id b, db_data b) \<in> set (dma_contents (snd (dma_allocate n s)))"
    and "(db_id b, db_data b) \<in> set (dma_contents (snd (dma_write r data s)))"
proof -
  have mem: "(db_id b, db_data b) \<in> set (dma_contents s)" using b by (auto simp: dma_contents_def)
  have other: "db_id b \<noteq> db_id c" if "c \<in> set (dp_buffers s)" "db_owner c \<noteq> OWNER_DMA" for c
    using dma_same_buffer [OF ok b(1) that(1)] b(2) that(2) by auto
  obtain x s' where run: "dma_allocate n s = (x, s')" by fastforce
  from ok run have "(db_id b, db_data b) \<in> set (dma_contents s')"
  proof (cases rule: dma_allocate_cases)
    case (reused c)
    then show ?thesis unfolding reused(3)
      using dma_reusable_SomeD [OF reused(2)] other mem by (intro dma_touch_contents) auto
  qed (use mem in \<open>auto simp: dma_contents_def\<close>)
  then show "(db_id b, db_data b) \<in> set (dma_contents (snd (dma_allocate n s)))" by (simp add: run)
  obtain y t where run': "dma_write r data s = (y, t)" by fastforce
  then have "(db_id b, db_data b) \<in> set (dma_contents t)"
  proof (cases rule: dma_write_cases)
    case (written c)
    then show ?thesis unfolding written(6) using other mem by (intro dma_touch_contents) auto
  qed (use mem in simp)
  then show "(db_id b, db_data b) \<in> set (dma_contents (snd (dma_write r data s)))" by (simp add: run')
qed

lemma dma_same_contents:
  assumes ok: "dma_ok s"
  shows "dma_contents (snd (dma_submit r len s)) = dma_contents s"
    and "dma_contents (snd (dma_recycle i s)) = dma_contents s"
    and "dma_contents (snd (dma_complete_next st e s)) = dma_contents s"
proof -
  obtain x s' where run: "dma_submit r len s = (x, s')" by fastforce
  from ok run have "dma_contents s' = dma_contents s"
    by (cases rule: dma_submit_cases) (simp_all add: dma_owner_contents)
  then show "dma_contents (snd (dma_submit r len s)) = dma_contents s" by (simp add: run)
  obtain y t where run: "dma_recycle i s = (y, t)" by fastforce
  from ok run have "dma_contents t = dma_contents s"
    by (cases rule: dma_recycle_cases) (simp_all add: dma_owner_contents)
  then show "dma_contents (snd (dma_recycle i s)) = dma_contents s" by (simp add: run)
  obtain z u where run: "dma_complete_next st e s = (z, u)" by fastforce
  from dma_complete_next_cases [OF ok run]
  show "dma_contents (snd (dma_complete_next st e s)) = dma_contents s" by (auto simp: run)
qed

lemma dma_engine_bytes_step:
  assumes ok: "dma_ok s" and b: "b \<in> set (dp_buffers s)" "db_owner b = OWNER_DMA"
  shows "(db_id b, db_data b) \<in> set (dma_contents (dma_step op s))"
proof -
  have mem: "(db_id b, db_data b) \<in> set (dma_contents s)" using b by (auto simp: dma_contents_def)
  show ?thesis
  proof (cases "dp_state s = DMA_CLOSED")
    case True
    then show ?thesis using dma_closed_step(1) mem by simp
  next
    case live: False
    show ?thesis
    proof (cases op)
      case DmaCancelPending
      with dma_cancel_pending_ok [OF ok live] mem show ?thesis by (metis dma_step.simps(6) snd_conv)
    next
      case DmaClose
      with dma_close_ok [OF ok live] mem show ?thesis by (metis dma_step.simps(10) snd_conv)
    next
      case DmaPoll
      with mem show ?thesis
        by (auto simp: dma_poll_completion_def dma_ensure_open_def and_then_def split: list.split)
    qed (use mem dma_engine_bytes_alloc_write [OF ok b] dma_same_contents [OF ok] in
        \<open>auto simp: dma_read_state dma_recover_def\<close>)
  qed
qed

section \<open>Properties\<close>


text \<open>
  C28: the engine's buffers are exclusive. In every state an engine can reach, a buffer belongs to
  the engine exactly when one descriptor in flight refers to it, and that descriptor is unique;
  while it does, the processor can neither read, write nor submit it, and no operation changes its
  bytes.
\<close>

theorem dma_ownership_is_exclusive:
  assumes "dma_new buffer_capacity descriptor_capacity = Inr s0" and "s = fold dma_step ops s0"
    and "b \<in> set (dp_buffers s)"
  shows "(db_owner b = OWNER_DMA \<longleftrightarrow>
            (\<exists>!d. d \<in> set (dp_descriptors s) \<and> in_flight d \<and> dd_buffer d = db_id b))
         \<and> (db_owner b = OWNER_DMA \<longrightarrow>
              (\<forall>len. \<exists>e. dma_read (OwnBuffer (db_id b)) len s = (Inl e, s))
              \<and> (\<forall>data. \<exists>e. dma_write (OwnBuffer (db_id b)) data s = (Inl e, s))
              \<and> (\<forall>len. \<exists>e. dma_submit (OwnBuffer (db_id b)) len s = (Inl e, s))
              \<and> (\<forall>op. (db_id b, db_data b) \<in> set (dma_contents (dma_step op s))))"
proof -
  have ok: "dma_ok s" using dma.inv_run dma_new_ok [OF assms(1)] assms(2) by blast
  then have own: "dma_owner_ok (dp_buffers s) (dp_descriptors s)" by (simp add: dma_ok_def)
  have "x = y" if "x \<in> set (dp_descriptors s) \<and> in_flight x \<and> dd_buffer x = db_id b"
    "y \<in> set (dp_descriptors s) \<and> in_flight y \<and> dd_buffer y = db_id b" for x y
    using own that unfolding dma_owner_ok_def inj_on_def by simp
  moreover have "db_owner b = OWNER_DMA \<longleftrightarrow>
      (\<exists>d. d \<in> set (dp_descriptors s) \<and> in_flight d \<and> dd_buffer d = db_id b)"
    using own assms(3) unfolding dma_owner_ok_def by blast
  ultimately have "db_owner b = OWNER_DMA \<longleftrightarrow>
      (\<exists>!d. d \<in> set (dp_descriptors s) \<and> in_flight d \<and> dd_buffer d = db_id b)"
    by (metis (no_types, lifting))
  moreover have "key_find db_id (db_id b) (dp_buffers s) = Some b"
    using key_find_mem [OF dma_distinct_ids [OF ok] assms(3)] .
  ultimately show ?thesis
    using dma_engine_bytes_step [OF ok assms(3)]
    by (auto simp: dma_read_def dma_write_def dma_submit_def dma_owned_buffer_def
        dma_ensure_ready_eq dma_ensure_open_def and_then_def)
qed

text \<open>
  C29: an allocated buffer is large enough, zeroed and was free. A successful allocation in a
  reachable state returns a processor-owned buffer of at least the requested capacity with every
  byte zero; it reuses a free buffer if a large enough one exists, the smallest such, and never a
  buffer in use.
\<close>

theorem dma_allocation_is_clean:
  assumes "dma_new buffer_capacity descriptor_capacity = Inr s0" and "s = fold dma_step ops s0"
    and "dma_allocate n s = (Inr i, s')"
  shows "\<exists>b\<in>set (dp_buffers s'). db_id b = i \<and> db_owner b = OWNER_CPU \<and> n \<le> db_capacity b
           \<and> db_data b = replicate (nat (db_capacity b)) 0
           \<and> (\<forall>c\<in>set (dp_buffers s). db_id c = i \<longrightarrow> db_owner c = OWNER_FREE)
           \<and> (\<forall>c\<in>set (dp_buffers s). db_owner c = OWNER_FREE \<and> n \<le> db_capacity c
                \<longrightarrow> db_capacity b \<le> db_capacity c)"
proof -
  have ok: "dma_ok s" using dma.inv_run dma_new_ok [OF assms(1)] assms(2) by blast
  from ok assms(3) show ?thesis
  proof (cases rule: dma_allocate_cases)
    case (reused b)
    note b = dma_reusable_SomeD [OF reused(2)]
    let ?b = "b\<lparr>db_owner := OWNER_CPU, db_data := replicate (nat (db_capacity b)) 0\<rparr>"
    have "?b \<in> set (dp_buffers s')" using b reused(3) by (auto simp: set_key_update)
    moreover have "\<forall>c\<in>set (dp_buffers s). db_id c = i \<longrightarrow> db_owner c = OWNER_FREE"
      using dma_same_buffer [OF ok] b reused(1) by auto
    moreover have "\<forall>c\<in>set (dp_buffers s). db_owner c = OWNER_FREE \<and> n \<le> db_capacity c
        \<longrightarrow> db_capacity b \<le> db_capacity c"
      using reused(2) first_smallest_least unfolding dma_reusable_def by fastforce
    ultimately show ?thesis using b reused(1) by (intro bexI [of _ ?b]) simp_all
  next
    case (fresh b)
    have "db_id c \<noteq> i" if "c \<in> set (dp_buffers s)" for c
      using ok that fresh by (auto simp: dma_ok_def dma_bufs_ok_def)
    moreover have "\<not> (db_owner c = OWNER_FREE \<and> n \<le> db_capacity c)" if "c \<in> set (dp_buffers s)" for c
      using fresh(2) that by (auto simp: dma_reusable_def filter_empty_conv)
    ultimately show ?thesis using fresh by (intro bexI [of _ b]) auto
  qed simp
qed

section \<open>A concrete engine\<close>

definition demo_dma :: dma_provider where
  "demo_dma =
     \<lparr>dp_buffer_capacity = 2, dp_descriptor_capacity = 4, dp_buffers = [], dp_descriptors = [],
      dp_active = [], dp_completions = [], dp_next_buffer_id = 1, dp_next_descriptor_id = 1,
      dp_state = DMA_READY\<rparr>"

lemma demo_dma_new: "dma_new 2 4 = Inr demo_dma"
  by (simp add: dma_new_def demo_dma_def MAX_DESCRIPTORS_def)

lemmas demo_dma_simps =
  demo_dma_def dma_defs dma_retire_def dma_touch_def dma_reusable_def key_find_def key_update_def
  key_put_def key_remove_def MAX_BUFFER_BYTES_def Let_def



definition demo_dma_busy :: dma_provider where
  "demo_dma_busy = fold dma_step [DmaAllocate 1, DmaSubmit (OwnBuffer 1) 1] demo_dma"

definition demo_dma_buffer :: dma_buffer where
  "demo_dma_buffer = \<lparr>db_id = 1, db_capacity = 1, db_data = [0], db_owner = OWNER_DMA\<rparr>"

theorem dma_ownership_is_exclusive_witness:
  "demo_dma_buffer \<in> set (dp_buffers demo_dma_busy)
   \<and> (\<exists>e. dma_write (OwnBuffer 1) [7] demo_dma_busy = (Inl e, demo_dma_busy))
   \<and> (1, [0]) \<in> set (dma_contents (dma_step DmaCancelPending demo_dma_busy))"
proof -
  have mem: "demo_dma_buffer \<in> set (dp_buffers demo_dma_busy)"
    by (simp add: demo_dma_busy_def demo_dma_buffer_def demo_dma_simps)
  have b: "db_id demo_dma_buffer = 1" "db_data demo_dma_buffer = [0]"
    "db_owner demo_dma_buffer = OWNER_DMA"
    by (simp_all add: demo_dma_buffer_def)
  from dma_ownership_is_exclusive [OF demo_dma_new demo_dma_busy_def mem] mem
  show ?thesis unfolding b by blast
qed

theorem dma_allocation_is_clean_witness:
  "\<exists>b\<in>set (dp_buffers (snd (dma_allocate 4 (fold dma_step [] demo_dma)))).
     db_id b = 1 \<and> db_data b = replicate (nat (db_capacity b)) 0"
proof -
  let ?s = "fold dma_step [] demo_dma"
  have run: "dma_allocate 4 ?s = (Inr 1, snd (dma_allocate 4 ?s))" by (simp add: demo_dma_simps)
  from dma_allocation_is_clean [OF demo_dma_new refl run] show ?thesis by blast
qed

end
