(* ===== verification/UartSpi.thy ===== *)
theory UartSpi
  imports Prelude "HOL-Library.Word"
begin

unbundle bit_operations_syntax

text \<open>
  The framed UART/SPI session of \<^verbatim>\<open>hardware/linux_drivers/uart_spi/contract.py\<close> and the loopback
  transport of \<^verbatim>\<open>fake_transport.py\<close>.

  Bytes are 8-bit words and the check sum is a 16-bit word. A session is written over a port, a
  record of the calls it makes on the injected \<^verbatim>\<open>TransportPort\<close>, with the port's own state inside
  the session state. Time enters only through whether the deadline of a \<^verbatim>\<open>receive\<close> has passed at its
  n-th look at the clock, the argument \<open>expired\<close>; the time-outs handed to the port are left out,
  as the loopback transport discards them. Arguments have the types the signatures declare.
\<close>

type_synonym octet = "8 word"

datatype transport_error =
    TransportClosed
  | TransportBackpressure
  | TransportIOError
  | TransportTimeout \<comment> \<open>the built-in \<^verbatim>\<open>TimeoutError\<close>, which \<^verbatim>\<open>send\<close> does not catch\<close>

datatype frame_error =
    FrameFormatError
  | FrameCrcError
  | SequenceError
  | TimedOut
  | TransportFailure transport_error

datatype transport_kind = UART | SPI

definition transport_kind_value :: "transport_kind \<Rightarrow> octet" where
  "transport_kind_value k = (case k of UART \<Rightarrow> 1 | SPI \<Rightarrow> 2)"

definition transport_kind_of :: "octet \<Rightarrow> transport_kind option" where
  "transport_kind_of v = (if v = 1 then Some UART else if v = 2 then Some SPI else None)"

definition MAGIC :: "octet list" where "MAGIC = [0x57, 0x42]"
definition PROTOCOL_VERSION :: octet where "PROTOCOL_VERSION = 1"
definition MAX_PAYLOAD_BYTES :: nat where "MAX_PAYLOAD_BYTES = 256"
definition HEADER_SIZE :: nat where "HEADER_SIZE = 8"
definition CRC_SIZE :: nat where "CRC_SIZE = 2"
definition MAX_FRAME_BYTES :: nat where
  "MAX_FRAME_BYTES = HEADER_SIZE + MAX_PAYLOAD_BYTES + CRC_SIZE"

section \<open>The check sum\<close>

definition crc_bit :: "16 word \<Rightarrow> 16 word" where
  "crc_bit crc =
     (if crc AND 0x8000 \<noteq> 0 then push_bit 1 crc XOR 0x1021 else push_bit 1 crc)"

definition crc_byte :: "16 word \<Rightarrow> octet \<Rightarrow> 16 word" where
  "crc_byte crc b = (crc_bit ^^ 8) (crc XOR push_bit 8 (ucast b))"

definition crc16_ccitt :: "octet list \<Rightarrow> 16 word \<Rightarrow> 16 word" where
  "crc16_ccitt data initial = foldl crc_byte initial data"

abbreviation crc16 :: "octet list \<Rightarrow> 16 word" where
  "crc16 data \<equiv> crc16_ccitt data 0xFFFF"

section \<open>Frames\<close>

text \<open>A big-endian unsigned 16-bit field, as \<^verbatim>\<open>struct\<close> packs and unpacks \<^verbatim>\<open>H\<close>.\<close>

definition be16 :: "16 word \<Rightarrow> octet list" where
  "be16 w = [ucast (drop_bit 8 w), ucast w]"

definition unbe16 :: "octet \<Rightarrow> octet \<Rightarrow> 16 word" where
  "unbe16 hi lo = push_bit 8 (ucast hi) OR ucast lo"

record uart_frame =
  uf_transport :: transport_kind
  uf_sequence :: int
  uf_payload :: "octet list"

definition uart_frame_post_init :: "uart_frame \<Rightarrow> frame_error + uart_frame" where
  "uart_frame_post_init f =
     (if \<not> (0 \<le> uf_sequence f \<and> uf_sequence f \<le> 0xFFFF) then Inl FrameFormatError
      else if length (uf_payload f) > MAX_PAYLOAD_BYTES then Inl FrameFormatError
      else Inr f)"

definition encode_body :: "uart_frame \<Rightarrow> octet list" where
  "encode_body f =
     MAGIC @ [PROTOCOL_VERSION, transport_kind_value (uf_transport f)]
     @ be16 (word_of_int (uf_sequence f)) @ be16 (word_of_nat (length (uf_payload f)))
     @ uf_payload f"

definition encode :: "uart_frame \<Rightarrow> octet list" where
  "encode f = encode_body f @ be16 (crc16 (encode_body f))"

text \<open>The last two fields of \<^verbatim>\<open>HEADER.unpack\<close>.\<close>

definition header_length :: "octet list \<Rightarrow> nat" where
  "header_length raw = unat (unbe16 (raw ! 6) (raw ! 7))"

definition header_sequence :: "octet list \<Rightarrow> int" where
  "header_sequence raw = uint (unbe16 (raw ! 4) (raw ! 5))"

definition decode :: "octet list \<Rightarrow> transport_kind option \<Rightarrow> frame_error + uart_frame" where
  "decode raw expected_transport =
     (if length raw < HEADER_SIZE + CRC_SIZE then Inl FrameFormatError
      else if length raw > MAX_FRAME_BYTES then Inl FrameFormatError
      else if take 2 raw \<noteq> MAGIC then Inl FrameFormatError
      else if raw ! 2 \<noteq> PROTOCOL_VERSION then Inl FrameFormatError
      else case transport_kind_of (raw ! 3) of
        None \<Rightarrow> Inl FrameFormatError
      | Some transport \<Rightarrow>
        if expected_transport \<noteq> None \<and> expected_transport \<noteq> Some transport
        then Inl FrameFormatError
        else if header_length raw > MAX_PAYLOAD_BYTES then Inl FrameFormatError
        else if length raw \<noteq> HEADER_SIZE + header_length raw + CRC_SIZE then Inl FrameFormatError
        else if unbe16 (raw ! (length raw - 2)) (raw ! (length raw - 1))
                \<noteq> crc16 (take (length raw - CRC_SIZE) raw)
        then Inl FrameCrcError
        else uart_frame_post_init
               \<lparr>uf_transport = transport, uf_sequence = header_sequence raw,
                uf_payload = take (header_length raw) (drop HEADER_SIZE raw)\<rparr>)"

definition is_newer :: "int \<Rightarrow> int \<Rightarrow> bool" where
  "is_newer sequence previous \<longleftrightarrow>
     (let delta = (sequence - previous) mod 65536 in 0 < delta \<and> delta \<le> 0x7FFF)"

section \<open>The loopback transport\<close>

record fake_transport =
  ft_capacity :: int
  ft_max_write_bytes :: "int option"
  ft_chunks :: "octet list list"
  ft_opened :: bool
  ft_fail_next_write :: bool
  ft_fail_next_read :: bool

datatype fake_error = FakeValueError | FakeTransportError transport_error

definition fake_new :: "int \<Rightarrow> int option \<Rightarrow> fake_error + fake_transport" where
  "fake_new capacity max_write_bytes =
     (if \<not> (1 \<le> capacity \<and> capacity \<le> 64) then Inl FakeValueError
      else if (case max_write_bytes of None \<Rightarrow> False | Some n \<Rightarrow> n < 1) then Inl FakeValueError
      else Inr \<lparr>ft_capacity = capacity, ft_max_write_bytes = max_write_bytes, ft_chunks = [],
                ft_opened = False, ft_fail_next_write = False, ft_fail_next_read = False\<rparr>)"

definition fake_queued_chunks :: "fake_transport \<Rightarrow> nat" where
  "fake_queued_chunks t = length (ft_chunks t)"

definition fake_open :: "fake_transport \<Rightarrow> fake_transport" where
  "fake_open t = t\<lparr>ft_opened := True\<rparr>"

definition fake_close :: "fake_transport \<Rightarrow> fake_transport" where
  "fake_close t = t\<lparr>ft_opened := False\<rparr>"

definition fake_ensure_open :: "(fake_transport, transport_error, unit) action" where
  "fake_ensure_open t = (if \<not> ft_opened t then raise TransportClosed t else return () t)"

definition fake_write :: "octet list \<Rightarrow> (fake_transport, transport_error, int) action" where
  "fake_write data =
     and_then fake_ensure_open
       (\<lambda>_ t. if ft_fail_next_write t
              then raise TransportIOError (t\<lparr>ft_fail_next_write := False\<rparr>)
              else if data = [] then raise TransportIOError t
              else if int (length (ft_chunks t)) \<ge> ft_capacity t then raise TransportBackpressure t
              else let count = min (int (length data))
                         (case ft_max_write_bytes t of
                            None \<Rightarrow> int (length data)
                          | Some m \<Rightarrow> if m = 0 then int (length data) else m)
                   in return count (t\<lparr>ft_chunks := ft_chunks t @ [take (nat count) data]\<rparr>))"

definition fake_read :: "nat \<Rightarrow> (fake_transport, transport_error, octet list) action" where
  "fake_read max_bytes =
     and_then fake_ensure_open
       (\<lambda>_ t. if ft_fail_next_read t
              then raise TransportIOError (t\<lparr>ft_fail_next_read := False\<rparr>)
              else case ft_chunks t of
                [] \<Rightarrow> raise TransportTimeout t
              | chunk # rest \<Rightarrow>
                  if length chunk \<le> max_bytes then return chunk (t\<lparr>ft_chunks := rest\<rparr>)
                  else return (take max_bytes chunk)
                         (t\<lparr>ft_chunks := drop max_bytes chunk # rest\<rparr>))"

definition fake_inject_rx :: "octet list \<Rightarrow> (fake_transport, fake_error, unit) action" where
  "fake_inject_rx data t =
     (if \<not> ft_opened t then raise (FakeTransportError TransportClosed) t
      else if data = [] then raise FakeValueError t
      else if int (length (ft_chunks t)) \<ge> ft_capacity t
      then raise (FakeTransportError TransportBackpressure) t
      else return () (t\<lparr>ft_chunks := ft_chunks t @ [data]\<rparr>))"

section \<open>The session\<close>

record 'w port =
  pt_write :: "octet list \<Rightarrow> 'w \<Rightarrow> (transport_error + int) \<times> 'w"
  pt_read :: "nat \<Rightarrow> 'w \<Rightarrow> (transport_error + octet list) \<times> 'w"
  pt_open :: "'w \<Rightarrow> 'w"
  pt_close :: "'w \<Rightarrow> 'w"

definition fake_port :: "fake_transport port" where
  "fake_port = \<lparr>pt_write = fake_write, pt_read = fake_read, pt_open = fake_open,
                pt_close = fake_close\<rparr>"

record 'w session =
  ss_transport :: 'w
  ss_kind :: transport_kind
  ss_max_retries :: nat
  ss_read_chunk_bytes :: nat
  ss_rx_buffer :: "octet list"
  ss_last_rx_sequence :: "int option"

text \<open>\<^verbatim>\<open>ValueError\<close> is the only error, so the constructor is an option.\<close>

definition session_new :: "'w \<Rightarrow> transport_kind \<Rightarrow> int \<Rightarrow> int \<Rightarrow> 'w session option" where
  "session_new transport kind max_retries read_chunk_bytes =
     (if \<not> (0 \<le> max_retries \<and> max_retries \<le> 3) then None
      else if \<not> (1 \<le> read_chunk_bytes \<and> read_chunk_bytes \<le> int MAX_FRAME_BYTES) then None
      else Some \<lparr>ss_transport = transport, ss_kind = kind, ss_max_retries = nat max_retries,
                 ss_read_chunk_bytes = nat read_chunk_bytes, ss_rx_buffer = [],
                 ss_last_rx_sequence = None\<rparr>)"

definition session_open :: "'w port \<Rightarrow> 'w session \<Rightarrow> 'w session" where
  "session_open p s = s\<lparr>ss_transport := pt_open p (ss_transport s)\<rparr>"

definition session_close :: "'w port \<Rightarrow> 'w session \<Rightarrow> 'w session" where
  "session_close p s = s\<lparr>ss_transport := pt_close p (ss_transport s)\<rparr>"

text \<open>
  The inner loop of \<^verbatim>\<open>send\<close>, on the bytes not yet written. A failure comes with how many bytes were
  left, from which the caller knows whether any was written.
\<close>

function write_loop :: "'w port \<Rightarrow> octet list \<Rightarrow> 'w \<Rightarrow> ((transport_error \<times> nat) + unit) \<times> 'w" where
  "write_loop p rest w =
     (if rest = [] then (Inr (), w)
      else case pt_write p rest w of
        (Inl e, w') \<Rightarrow> (Inl (e, length rest), w')
      | (Inr written, w') \<Rightarrow>
          if \<not> (0 < written \<and> written \<le> int (length rest))
          then (Inl (TransportIOError, length rest), w')
          else write_loop p (drop (nat written) rest) w')"
  by pat_completeness auto
termination
  by (relation "measure (\<lambda>(p, rest, w). length rest)") auto

declare write_loop.simps [simp del]

text \<open>The attempts of \<^verbatim>\<open>send\<close>: \<open>n\<close> more after this one.\<close>

fun send_attempts :: "'w port \<Rightarrow> octet list \<Rightarrow> nat \<Rightarrow> 'w \<Rightarrow> (transport_error + unit) \<times> 'w" where
  "send_attempts p encoded n w =
     (case write_loop p encoded w of
        (Inr _, w') \<Rightarrow> (Inr (), w')
      | (Inl (e, left), w') \<Rightarrow>
          if e = TransportTimeout then (Inl e, w')
          else if left \<noteq> length encoded then (Inl TransportIOError, w')
          else (case n of 0 \<Rightarrow> (Inl e, w') | Suc m \<Rightarrow> send_attempts p encoded m w'))"

declare send_attempts.simps [simp del]

definition send :: "'w port \<Rightarrow> octet list \<Rightarrow> int \<Rightarrow> ('w session, frame_error, uart_frame) action" where
  "send p payload sequence s =
     (case uart_frame_post_init
             \<lparr>uf_transport = ss_kind s, uf_sequence = sequence, uf_payload = payload\<rparr> of
        Inl e \<Rightarrow> raise e s
      | Inr frame \<Rightarrow>
          (case send_attempts p (encode frame) (ss_max_retries s) (ss_transport s) of
             (Inr _, w) \<Rightarrow> return frame (s\<lparr>ss_transport := w\<rparr>)
           | (Inl e, w) \<Rightarrow> raise (TransportFailure e) (s\<lparr>ss_transport := w\<rparr>)))"

definition take_frame_from_buffer :: "('w session, frame_error, uart_frame option) action" where
  "take_frame_from_buffer s =
     (let rx = ss_rx_buffer s in
      if length rx < HEADER_SIZE then return None s
      else if header_length rx > MAX_PAYLOAD_BYTES then raise FrameFormatError s
      else let frame_length = HEADER_SIZE + header_length rx + CRC_SIZE in
           if length rx < frame_length then return None s
           else let s' = s\<lparr>ss_rx_buffer := drop frame_length rx\<rparr> in
                case decode (take frame_length rx) (Some (ss_kind s)) of
                  Inl e \<Rightarrow> raise e s' | Inr f \<Rightarrow> return (Some f) s')"

function receive_loop ::
    "'w port \<Rightarrow> (nat \<Rightarrow> bool) \<Rightarrow> nat \<Rightarrow> ('w session, frame_error, uart_frame) action" where
  "receive_loop p expired k s =
     (case take_frame_from_buffer s of
        (Inl e, s') \<Rightarrow> raise e s'
      | (Inr (Some f), s') \<Rightarrow>
          (if (case ss_last_rx_sequence s' of
                 None \<Rightarrow> False | Some previous \<Rightarrow> \<not> is_newer (uf_sequence f) previous)
           then raise SequenceError s'
           else return f (s'\<lparr>ss_last_rx_sequence := Some (uf_sequence f)\<rparr>))
      | (Inr None, _) \<Rightarrow>
          if expired k then raise TimedOut s
          else (case pt_read p (ss_read_chunk_bytes s) (ss_transport s) of
             (Inl e, w) \<Rightarrow> raise (TransportFailure e) (s\<lparr>ss_transport := w\<rparr>)
           | (Inr chunk, w) \<Rightarrow>
               if chunk = [] then raise TimedOut (s\<lparr>ss_transport := w\<rparr>)
               else let s' = s\<lparr>ss_transport := w, ss_rx_buffer := ss_rx_buffer s @ chunk\<rparr> in
                    if length (ss_rx_buffer s') > MAX_FRAME_BYTES then raise FrameFormatError s'
                    else receive_loop p expired (Suc k) s'))"
  by pat_completeness auto
termination
  by (relation "measure (\<lambda>(p, expired, k, s). Suc MAX_FRAME_BYTES - length (ss_rx_buffer s))")
    (auto simp: neq_Nil_conv)

declare receive_loop.simps [simp del]

definition receive :: "'w port \<Rightarrow> (nat \<Rightarrow> bool) \<Rightarrow> ('w session, frame_error, uart_frame) action" where
  "receive p expired s = receive_loop p expired 0 s"

section \<open>The check sum is injective in every byte\<close>

lemma crc_top_bit: "crc AND 0x8000 \<noteq> 0 \<longleftrightarrow> bit crc 15" for crc :: "16 word"
  using and_exp_eq_0_iff_not_bit [of crc 15] by simp

lemma bit_shift:
  "bit (push_bit 1 w) n \<longleftrightarrow> 0 < n \<and> n < 16 \<and> bit w (n - 1)" for w :: "16 word"
  by (auto simp only: bit_push_bit_iff possible_bit_word) simp_all

lemma crc_poly_odd: "bit (0x1021 :: 16 word) 0"
  by (simp add: bit_0)

lemma crc_bit_low: "bit (crc_bit crc) 0 \<longleftrightarrow> bit crc 15"
  using crc_poly_odd unfolding crc_bit_def crc_top_bit
  by (cases "bit crc 15") (simp_all only: if_True if_False bit_xor_iff bit_shift, simp_all)

lemma xor_cancel: "a XOR x = b XOR x \<longleftrightarrow> a = b" for a b x :: "'a::len word"
  by (metis xor.assoc xor_self_eq xor.right_neutral)

lemma crc_bit_inj: "crc_bit c = crc_bit d \<Longrightarrow> c = d"
proof -
  assume eq: "crc_bit c = crc_bit d"
  then have top: "bit c 15 \<longleftrightarrow> bit d 15" using crc_bit_low by metis
  have "push_bit 1 c = push_bit 1 d"
    using eq unfolding crc_bit_def crc_top_bit top
    by (cases "bit d 15") (simp_all only: if_True if_False xor_cancel)
  then have shifted: "bit (push_bit 1 c) (Suc n) \<longleftrightarrow> bit (push_bit 1 d) (Suc n)" for n
    by (simp only:)
  show "c = d"
  proof (rule bit_word_eqI)
    fix n assume n: "n < LENGTH(16)"
    show "bit c n \<longleftrightarrow> bit d n"
    proof (cases "n = 15")
      case False
      with n have "Suc n < 16" by simp
      with shifted [of n] show ?thesis unfolding bit_shift by simp
    qed (use top in simp)
  qed
qed

lemma inj_crc_bits: "inj (crc_bit ^^ n)"
  by (rule inj_fn) (rule injI, rule crc_bit_inj)

lemma crc_byte_inj_crc: "crc_byte c b = crc_byte d b \<Longrightarrow> c = d"
  using inj_crc_bits [of 8] unfolding crc_byte_def by (simp only: inj_eq xor_cancel)

lemma push_ucast_inj:
  fixes a b :: octet
  assumes "push_bit 8 (ucast a :: 16 word) = push_bit 8 (ucast b)"
  shows "a = b"
proof (rule bit_word_eqI)
  fix n assume n: "n < LENGTH(8)"
  have "bit (push_bit 8 (ucast a :: 16 word)) (n + 8) \<longleftrightarrow> bit (push_bit 8 (ucast b :: 16 word)) (n + 8)"
    using assms by simp
  with n show "bit a n \<longleftrightarrow> bit b n" by (simp add: bit_push_bit_iff bit_ucast_iff)
qed

lemma crc_byte_inj_byte: "crc_byte c a = crc_byte c b \<Longrightarrow> a = b"
  using inj_crc_bits [of 8] unfolding crc_byte_def xor.commute [of c]
  by (simp only: inj_eq xor_cancel push_ucast_inj)

lemma foldl_crc_inj: "foldl crc_byte c xs = foldl crc_byte d xs \<Longrightarrow> c = d"
  by (induction xs arbitrary: c d) (auto dest: crc_byte_inj_crc)

text \<open>Changing one byte of a message changes its check sum.\<close>

lemma crc_detects_byte:
  assumes "i < length xs" "b \<noteq> xs ! i"
  shows "crc16_ccitt (xs[i := b]) c \<noteq> crc16_ccitt xs c"
proof
  assume eq: "crc16_ccitt (xs[i := b]) c = crc16_ccitt xs c"
  let ?c = "foldl crc_byte c (take i xs)"
  have "foldl crc_byte (crc_byte ?c b) (drop (Suc i) xs)
      = foldl crc_byte (crc_byte ?c (xs ! i)) (drop (Suc i) xs)"
    using eq assms(1) id_take_nth_drop [OF assms(1)]
    by (simp add: crc16_ccitt_def upd_conv_take_nth_drop) (metis foldl_Cons foldl_append)
  then have "crc_byte ?c b = crc_byte ?c (xs ! i)" by (rule foldl_crc_inj)
  then show False using crc_byte_inj_byte assms(2) by blast
qed

section \<open>Fields\<close>

lemma unbe16_be16: "unbe16 (ucast (drop_bit 8 w)) (ucast w) = w"
  by (rule bit_word_eqI) (auto simp: unbe16_def bit_or_iff bit_push_bit_iff bit_ucast_iff
      bit_drop_bit_eq)

lemma be16_unbe16: "be16 (unbe16 hi lo) = [hi, lo]"
proof -
  have "ucast (drop_bit 8 (unbe16 hi lo)) = hi"
    by (rule bit_word_eqI) (auto simp: unbe16_def bit_or_iff bit_push_bit_iff bit_ucast_iff
      bit_drop_bit_eq dest: bit_imp_le_length)
  moreover have "ucast (unbe16 hi lo) = lo"
    by (rule bit_word_eqI) (auto simp: unbe16_def bit_or_iff bit_push_bit_iff bit_ucast_iff)
  ultimately show ?thesis by (simp add: be16_def)
qed

lemma unbe16_inj: "unbe16 a b = unbe16 c d \<longleftrightarrow> a = c \<and> b = d"
  by (metis be16_unbe16 list.inject)

lemma length_be16 [simp]: "length (be16 w) = 2"
  by (simp add: be16_def)

lemma be16_inj: "be16 v = be16 w \<longleftrightarrow> v = w"
  by (metis be16_def list.inject unbe16_be16)

lemma transport_kind_of_value [simp]: "transport_kind_of (transport_kind_value k) = Some k"
  by (cases k) (simp_all add: transport_kind_of_def transport_kind_value_def)

lemma transport_kind_value_of: "transport_kind_of v = Some k \<Longrightarrow> transport_kind_value k = v"
  by (auto simp: transport_kind_of_def transport_kind_value_def split: if_splits)

section \<open>Encoding and decoding\<close>

definition uart_frame_valid :: "uart_frame \<Rightarrow> bool" where
  "uart_frame_valid f \<longleftrightarrow>
     0 \<le> uf_sequence f \<and> uf_sequence f \<le> 0xFFFF \<and> length (uf_payload f) \<le> MAX_PAYLOAD_BYTES"

lemma uart_frame_post_init_iff:
  "uart_frame_post_init f = Inr g \<longleftrightarrow> uart_frame_valid f \<and> g = f"
  by (auto simp: uart_frame_post_init_def uart_frame_valid_def)

lemmas frame_sizes = HEADER_SIZE_def CRC_SIZE_def MAX_PAYLOAD_BYTES_def MAX_FRAME_BYTES_def

lemma encode_body_shape:
  "encode_body f =
     [0x57, 0x42, 1, transport_kind_value (uf_transport f),
      ucast (drop_bit 8 (word_of_int (uf_sequence f) :: 16 word)),
      ucast (word_of_int (uf_sequence f) :: 16 word),
      ucast (drop_bit 8 (word_of_nat (length (uf_payload f)) :: 16 word)),
      ucast (word_of_nat (length (uf_payload f)) :: 16 word)] @ uf_payload f"
  by (simp add: encode_body_def MAGIC_def PROTOCOL_VERSION_def be16_def)

lemma length_encode_body [simp]: "length (encode_body f) = 8 + length (uf_payload f)"
  by (simp add: encode_body_shape)

lemma length_encode [simp]: "length (encode f) = 10 + length (uf_payload f)"
  by (simp add: encode_def)

lemma encode_nth: "i < 8 + length (uf_payload f) \<Longrightarrow> encode f ! i = encode_body f ! i"
  by (simp add: encode_def nth_append)

lemma encode_header:
  assumes "uart_frame_valid f"
  shows "take 2 (encode f) = MAGIC" "encode f ! 2 = PROTOCOL_VERSION"
    "encode f ! 3 = transport_kind_value (uf_transport f)"
    "header_sequence (encode f) = uf_sequence f"
    "header_length (encode f) = length (uf_payload f)"
proof -
  have len: "unat (word_of_nat (length (uf_payload f)) :: 16 word) = length (uf_payload f)"
    using assms by (simp add: uart_frame_valid_def frame_sizes unat_of_nat take_bit_nat_eq_self)
  have seq: "uint (word_of_int (uf_sequence f) :: 16 word) = uf_sequence f"
    using assms by (simp add: uart_frame_valid_def uint_word_of_int)
  show "take 2 (encode f) = MAGIC" by (simp add: encode_def encode_body_shape MAGIC_def)
  show "encode f ! 2 = PROTOCOL_VERSION" "encode f ! 3 = transport_kind_value (uf_transport f)"
    by (simp_all add: encode_nth encode_body_shape PROTOCOL_VERSION_def)
  show "header_sequence (encode f) = uf_sequence f"
    "header_length (encode f) = length (uf_payload f)"
    by (simp_all add: header_sequence_def header_length_def encode_nth encode_body_shape
        unbe16_be16 len seq)
qed

lemma encode_tail:
  "unbe16 (encode f ! (length (encode f) - 2)) (encode f ! (length (encode f) - 1))
     = crc16 (take (length (encode f) - 2) (encode f))"
proof -
  have "encode f ! (8 + length (uf_payload f)) = ucast (drop_bit 8 (crc16 (encode_body f)))"
    "encode f ! (9 + length (uf_payload f)) = ucast (crc16 (encode_body f))"
    by (simp_all add: encode_def nth_append be16_def)
  moreover have "take (8 + length (uf_payload f)) (encode f) = encode_body f"
    by (simp add: encode_def)
  ultimately show ?thesis by (simp add: unbe16_be16)
qed

lemma decode_encode:
  assumes "uart_frame_valid f" "k = None \<or> k = Some (uf_transport f)"
  shows "decode (encode f) k = Inr f"
proof -
  have pay: "take (length (uf_payload f)) (drop 8 (encode f)) = uf_payload f"
    by (simp add: encode_def encode_body_shape)
  have bound: "length (uf_payload f) \<le> 256"
    using assms(1) by (simp add: uart_frame_valid_def frame_sizes)
  show ?thesis
    unfolding decode_def using assms bound pay encode_tail [of f] encode_header [OF assms(1)]
    by (auto simp: frame_sizes uart_frame_post_init_iff uart_frame_valid_def)
qed

lemma decode_header:
  assumes "decode raw k = Inr f"
  shows "10 \<le> length raw" "take 2 raw = MAGIC" "raw ! 2 = PROTOCOL_VERSION"
    "transport_kind_value (uf_transport f) = raw ! 3" "uf_sequence f = header_sequence raw"
    "uf_payload f = take (header_length raw) (drop 8 raw)" "length raw = 10 + header_length raw"
    "unbe16 (raw ! (length raw - 2)) (raw ! (length raw - 1)) = crc16 (take (length raw - 2) raw)"
    "uart_frame_valid f" "k = None \<or> k = Some (uf_transport f)"
  using assms
  by (auto simp: decode_def frame_sizes uart_frame_post_init_iff
      dest: transport_kind_value_of split: if_splits option.splits)

lemma split_header:
  assumes "10 \<le> length raw"
  shows "raw = take 2 raw @ [raw ! 2, raw ! 3, raw ! 4, raw ! 5, raw ! 6, raw ! 7]
           @ take (length raw - 10) (drop 8 raw) @ [raw ! (length raw - 2), raw ! (length raw - 1)]"
proof -
  have "drop n raw = raw ! n # drop (Suc n) raw" if "n < length raw" for n
    using that by (simp add: Cons_nth_drop_Suc)
  note step = this
  have "drop 2 raw = [raw ! 2, raw ! 3, raw ! 4, raw ! 5, raw ! 6, raw ! 7] @ drop 8 raw"
    using assms step [of 2] step [of 3] step [of 4] step [of 5] step [of 6] step [of 7]
    by (simp add: numeral_eq_Suc)
  moreover have "drop (length raw - 2) raw = [raw ! (length raw - 2), raw ! (length raw - 1)]"
  proof -
    have "Suc (length raw - 2) = length raw - 1" using assms by simp
    then show ?thesis using assms step [of "length raw - 2"] step [of "length raw - 1"] by simp
  qed
  moreover have "drop 8 raw = take (length raw - 10) (drop 8 raw) @ drop (length raw - 2) raw"
    using assms append_take_drop_id [of "length raw - 10" "drop 8 raw"] by simp
  ultimately show ?thesis using append_take_drop_id [of 2 raw] by simp
qed

lemma encode_decode:
  assumes "decode raw k = Inr f"
  shows "encode f = raw"
proof -
  note h = decode_header [OF assms]
  have len: "length (uf_payload f) = header_length raw" using h(6,7) by simp
  have seq: "be16 (word_of_int (uf_sequence f)) = [raw ! 4, raw ! 5]"
    by (simp add: h(5) header_sequence_def be16_unbe16)
  have lenf: "be16 (word_of_nat (length (uf_payload f))) = [raw ! 6, raw ! 7]"
    by (simp add: len header_length_def be16_unbe16)
  have body: "encode_body f = take 2 raw @ [raw ! 2, raw ! 3, raw ! 4, raw ! 5, raw ! 6, raw ! 7]
      @ take (length raw - 10) (drop 8 raw)"
    unfolding encode_body_def h(4) seq lenf using h(2,3,6,7) by simp
  then have raw: "raw = encode_body f @ [raw ! (length raw - 2), raw ! (length raw - 1)]"
    using split_header [OF h(1)] by simp
  then have "take (length raw - 2) raw = encode_body f" using h(1,7) len by (metis (no_types, lifting)
      add_diff_cancel_right' append_eq_conv_conj length_Cons length_append list.size(3) One_nat_def
      Suc_1 add.right_neutral add_Suc_right)
  then have "be16 (crc16 (encode_body f)) = [raw ! (length raw - 2), raw ! (length raw - 1)]"
    using h(8) be16_unbe16 by metis
  then show ?thesis using raw by (simp add: encode_def)
qed

lemma encode_byte_change:
  assumes "i < length (encode f)" "b \<noteq> encode f ! i"
  shows "\<exists>e. decode ((encode f)[i := b]) k = Inl e"
proof (rule ccontr)
  let ?raw = "(encode f)[i := b]" and ?n = "8 + length (uf_payload f)"
  assume "\<nexists>e. decode ?raw k = Inl e"
  then obtain g where "decode ?raw k = Inr g" by (cases "decode ?raw k") auto
  then have g: "encode g = ?raw" by (rule encode_decode)
  have "length (encode g) = length (encode f)" by (simp add: g)
  then have ng: "8 + length (uf_payload g) = ?n" by simp
  have "length (encode_body g) = ?n" using ng by simp
  moreover have "?raw = encode_body g @ be16 (crc16 (encode_body g))"
    using g encode_def [of g] by (rule trans [OF sym])
  ultimately have body: "encode_body g = take ?n ?raw"
    and tail: "be16 (crc16 (encode_body g)) = drop ?n ?raw"
    by (metis append_eq_conv_conj)+
  show False
  proof (cases "i < ?n")
    case True
    then have "encode_body g = (encode_body f)[i := b]" "drop ?n ?raw = be16 (crc16 (encode_body f))"
      by (simp_all add: body take_update_swap encode_def list_update_append)
    then have "crc16 ((encode_body f)[i := b]) = crc16 (encode_body f)"
      using tail by (simp add: be16_inj)
    moreover have "b \<noteq> encode_body f ! i" using assms(2) True by (simp add: encode_nth)
    ultimately show False using crc_detects_byte True by (metis length_encode_body)
  next
    case False
    then have "encode_body g = encode_body f" by (simp add: body encode_def)
    then have "encode g = encode f" by (simp add: encode_def)
    then have "?raw ! i = encode f ! i" by (simp add: g)
    then show False using assms by simp
  qed
qed

section \<open>Ports\<close>

text \<open>
  What the session relies on of a port: the bytes it accepts travel in order, a failed call moves
  none. \<open>wire w\<close> is what was written and not yet read.
\<close>

locale byte_port =
  fixes p :: "'w port"
    and ok :: "'w \<Rightarrow> bool"
    and wire :: "'w \<Rightarrow> octet list"
  assumes write_raises: "ok w \<Longrightarrow> pt_write p d w = (Inl e, w') \<Longrightarrow> ok w' \<and> wire w' = wire w"
    and write_accepts: "ok w \<Longrightarrow> pt_write p d w = (Inr n, w') \<Longrightarrow>
      ok w' \<and> 0 < n \<and> n \<le> int (length d) \<and> wire w' = wire w @ take (nat n) d"
    and read_raises: "ok w \<Longrightarrow> 0 < m \<Longrightarrow> pt_read p m w = (Inl e, w') \<Longrightarrow> ok w' \<and> wire w' = wire w"
    and read_returns: "ok w \<Longrightarrow> 0 < m \<Longrightarrow> pt_read p m w = (Inr c, w') \<Longrightarrow>
      ok w' \<and> c \<noteq> [] \<and> length c \<le> m \<and> wire w = c @ wire w'"
begin

lemma write_loop_wire:
  "ok w \<Longrightarrow> write_loop p rest w = (r, w') \<Longrightarrow>
     ok w' \<and> (case r of
       Inr _ \<Rightarrow> wire w' = wire w @ rest
     | Inl (e, left) \<Rightarrow> 0 < left \<and> left \<le> length rest
         \<and> wire w' = wire w @ take (length rest - left) rest)"
proof (induction "length rest" arbitrary: rest w rule: less_induct)
  case less
  show ?case
  proof (cases "rest = []")
    case True
    with less.prems(2) have "r = Inr ()" "w' = w" by (auto simp: write_loop.simps)
    with True less.prems(1) show ?thesis by simp
  next
    case nonempty: False
    obtain x u where call: "pt_write p rest w = (x, u)" by fastforce
    show ?thesis
    proof (cases x)
      case (Inl e)
      with call nonempty less.prems write_raises [of w rest e u] show ?thesis
        by (subst (asm) write_loop.simps) auto
    next
      case (Inr n)
      note acc = write_accepts [OF less.prems(1) call [unfolded Inr]]
      have run: "write_loop p (drop (nat n) rest) u = (r, w')"
        using less.prems(2) nonempty call Inr acc by (subst (asm) write_loop.simps) simp
      have short: "length (drop (nat n) rest) < length rest" using acc nonempty by simp
      note IH = less.hyps [OF short _ run]
      have split: "take k rest = take (nat n) rest @ take (k - nat n) (drop (nat n) rest)"
        if "nat n \<le> k" for k
        using that by (metis le_add_diff_inverse take_add)
      show ?thesis
      proof (cases r)
        case (Inl el)
        obtain e left where el: "el = (e, left)" by (cases el)
        have "left \<le> length rest - nat n" "0 < left" "ok w'"
          "wire w' = wire u @ take (length rest - nat n - left) (drop (nat n) rest)"
          using IH acc Inl el by auto
        moreover have "length rest - left - nat n = length rest - nat n - left" by simp
        ultimately show ?thesis
          using acc Inl el split [of "length rest - left"] by simp
      next
        case (Inr y)
        with IH acc show ?thesis by simp
      qed
    qed
  qed
qed

end

section \<open>Taking frames from the buffer\<close>

lemma take_frame_None: "take_frame_from_buffer s = (Inr None, s') \<Longrightarrow> s' = s"
  by (auto simp: take_frame_from_buffer_def Let_def split: if_splits sum.splits)

lemma take_frame_Some:
  assumes "take_frame_from_buffer s = (Inr (Some f), s')"
  shows "ss_rx_buffer s = encode f @ ss_rx_buffer s'" "uf_transport f = ss_kind s"
    "uart_frame_valid f" "ss_transport s' = ss_transport s"
    "ss_last_rx_sequence s' = ss_last_rx_sequence s"
proof -
  let ?n = "HEADER_SIZE + header_length (ss_rx_buffer s) + CRC_SIZE"
  have dec: "decode (take ?n (ss_rx_buffer s)) (Some (ss_kind s)) = Inr f"
    and s': "s' = s\<lparr>ss_rx_buffer := drop ?n (ss_rx_buffer s)\<rparr>"
    using assms by (auto simp: take_frame_from_buffer_def Let_def split: if_splits sum.splits)
  have "encode f = take ?n (ss_rx_buffer s)" using dec by (rule encode_decode)
  then show "ss_rx_buffer s = encode f @ ss_rx_buffer s'" by (simp add: s')
  show "uf_transport f = ss_kind s" "uart_frame_valid f"
    using decode_header(9,10) [OF dec] by auto
qed (use assms in \<open>auto simp: take_frame_from_buffer_def Let_def split: if_splits sum.splits\<close>)

lemma header_length_take: "8 \<le> n \<Longrightarrow> header_length (take n xs) = header_length xs"
  by (simp add: header_length_def)

text \<open>A proper prefix of a frame waits, the whole frame is taken.\<close>

lemma take_frame_prefix:
  assumes "uart_frame_valid f" "ss_rx_buffer s = take n (encode f)" "n < length (encode f)"
  shows "take_frame_from_buffer s = (Inr None, s)"
proof -
  have len: "length (ss_rx_buffer s) = n" using assms(2,3) by simp
  have "header_length (ss_rx_buffer s) = length (uf_payload f)" if "8 \<le> n"
    using that assms encode_header(5) [OF assms(1)] by (simp add: header_length_take)
  then show ?thesis
    using len assms(1,3)
    by (auto simp: take_frame_from_buffer_def Let_def frame_sizes uart_frame_valid_def)
qed

lemma take_frame_whole:
  assumes "uart_frame_valid f" "ss_rx_buffer s = encode f" "uf_transport f = ss_kind s"
  shows "take_frame_from_buffer s = (Inr (Some f), s\<lparr>ss_rx_buffer := []\<rparr>)"
  using assms encode_header(5) [OF assms(1)] decode_encode [OF assms(1), of "Some (ss_kind s)"]
  by (simp add: take_frame_from_buffer_def Let_def frame_sizes uart_frame_valid_def)

context byte_port
begin

lemma send_attempts_wire:
  "ok w \<Longrightarrow> send_attempts p enc n w = (r, w') \<Longrightarrow>
     ok w' \<and> (case r of
       Inr _ \<Rightarrow> wire w' = wire w @ enc
     | Inl e \<Rightarrow> (\<exists>k<length enc. wire w' = wire w @ take k enc)
         \<and> (e = TransportClosed \<or> e = TransportBackpressure \<longrightarrow> wire w' = wire w))"
proof (induction n arbitrary: w)
  case (0 w)
  obtain x u where run: "write_loop p enc w = (x, u)" by fastforce
  note wl = write_loop_wire [OF "0.prems"(1) run]
  show ?case
  proof (cases x)
    case (Inl el)
    obtain e left where el: "el = (e, left)" by (cases el)
    have k: "length enc - left < length enc" "wire u = wire w @ take (length enc - left) enc" "ok u"
      using wl Inl el by auto
    moreover have "w' = u" "\<exists>e'. r = Inl e' \<and> (e' = TransportClosed \<or> e' = TransportBackpressure
        \<longrightarrow> left = length enc)"
      using "0.prems"(2) run Inl el by (auto simp: send_attempts.simps split: if_splits)
    ultimately show ?thesis by fastforce
  qed (use wl run "0.prems"(2) in \<open>auto simp: send_attempts.simps\<close>)
next
  case (Suc n w)
  obtain x u where run: "write_loop p enc w = (x, u)" by fastforce
  note wl = write_loop_wire [OF Suc.prems(1) run]
  show ?case
  proof (cases x)
    case (Inl el)
    obtain e left where el: "el = (e, left)" by (cases el)
    have k: "length enc - left < length enc" "wire u = wire w @ take (length enc - left) enc" "ok u"
      using wl Inl el by auto
    show ?thesis
    proof (cases "e = TransportTimeout \<or> left \<noteq> length enc")
      case True
      then have "w' = u" "r = Inl TransportTimeout \<or> r = Inl TransportIOError"
        using Suc.prems(2) run Inl el by (auto simp: send_attempts.simps split: if_splits)
      with k show ?thesis by auto
    next
      case False
      then have "send_attempts p enc n u = (r, w')"
        using Suc.prems(2) run Inl el by (simp add: send_attempts.simps [of p enc "Suc n"])
      moreover have same: "wire u = wire w" using k False by simp
      ultimately show ?thesis using Suc.IH [of u] k(3) unfolding same by blast
    qed
  qed (use wl run Suc.prems(2) in \<open>auto simp: send_attempts.simps\<close>)
qed

lemma receive_loop_consumes:
  assumes "ok (ss_transport s)" "0 < ss_read_chunk_bytes s"
    and "receive_loop p expired k s = (Inr f, s')"
  shows "ss_rx_buffer s @ wire (ss_transport s)
           = encode f @ ss_rx_buffer s' @ wire (ss_transport s')
         \<and> uart_frame_valid f \<and> uf_transport f = ss_kind s
         \<and> ss_last_rx_sequence s' = Some (uf_sequence f)
         \<and> (\<forall>previous. ss_last_rx_sequence s = Some previous \<longrightarrow> is_newer (uf_sequence f) previous)"
  using assms
proof (induction "Suc MAX_FRAME_BYTES - length (ss_rx_buffer s)" arbitrary: s k rule: less_induct)
  case less
  obtain x t where tk: "take_frame_from_buffer s = (x, t)" by fastforce
  consider (err) e where "x = Inl e" | (got) g where "x = Inr (Some g)" | (none) "x = Inr None"
    by (metis option.exhaust sum.exhaust)
  then show ?case
  proof cases
    case err
    with tk less.prems(3) show ?thesis by (simp add: receive_loop.simps)
  next
    case (got g)
    have "g = f" "s' = t\<lparr>ss_last_rx_sequence := Some (uf_sequence f)\<rparr>"
      "case ss_last_rx_sequence t of None \<Rightarrow> True | Some q \<Rightarrow> is_newer (uf_sequence f) q"
      using tk got less.prems(3) by (auto simp: receive_loop.simps split: if_splits option.splits)
    with take_frame_Some [OF tk [unfolded got]] show ?thesis by (auto split: option.splits)
  next
    case none
    obtain y w where rd: "pt_read p (ss_read_chunk_bytes s) (ss_transport s) = (y, w)" by fastforce
    obtain c where c: "y = Inr c"
      using tk none rd less.prems(3) by (cases y) (auto simp: receive_loop.simps split: if_splits)
    let ?s = "s\<lparr>ss_transport := w, ss_rx_buffer := ss_rx_buffer s @ c\<rparr>"
    note law = read_returns [OF less.prems(1,2) rd [unfolded c]]
    have run: "receive_loop p expired (Suc k) ?s = (Inr f, s')"
      and fits: "length (ss_rx_buffer ?s) \<le> MAX_FRAME_BYTES"
      using tk none rd c law less.prems(3)
      by (auto simp: receive_loop.simps [of p expired k] Let_def split: if_splits)
    have smaller: "Suc MAX_FRAME_BYTES - length (ss_rx_buffer ?s)
        < Suc MAX_FRAME_BYTES - length (ss_rx_buffer s)"
      using fits law by (cases c) auto
    show ?thesis using less.hyps [OF smaller _ _ run] law less.prems(1,2) by simp
  qed
qed

end

text \<open>A port that keeps delivering what is on the wire while it is ready.\<close>

locale live_port = byte_port p ok wire
  for p :: "'w port" and ok :: "'w \<Rightarrow> bool" and wire :: "'w \<Rightarrow> octet list" +
  fixes ready :: "'w \<Rightarrow> bool"
  assumes ready_read: "ok w \<Longrightarrow> ready w \<Longrightarrow> 0 < m \<Longrightarrow> wire w \<noteq> [] \<Longrightarrow>
      \<exists>c w'. pt_read p m w = (Inr c, w') \<and> ready w'"
    and ready_write: "ready w \<Longrightarrow> ready (snd (pt_write p d w))"
begin

lemma ready_write_loop: "ready w \<Longrightarrow> ready (snd (write_loop p rest w))"
proof (induction "length rest" arbitrary: rest w rule: less_induct)
  case less
  obtain x u where call: "pt_write p rest w = (x, u)" by fastforce
  have "ready u" using ready_write [OF less.prems, of rest] call by simp
  with less call show ?case
    by (subst write_loop.simps) (auto split: sum.split)
qed

lemma ready_send_attempts: "ready w \<Longrightarrow> ready (snd (send_attempts p enc n w))"
proof (induction n arbitrary: w)
  case (0 w)
  obtain x u where run: "write_loop p enc w = (x, u)" by fastforce
  have "ready u" using ready_write_loop [OF "0.prems", of enc] run by simp
  with run show ?case
    by (cases x) (auto simp: send_attempts.simps [of p enc 0])
next
  case (Suc n w)
  obtain x u where run: "write_loop p enc w = (x, u)" by fastforce
  have u: "ready u" using ready_write_loop [OF Suc.prems, of enc] run by simp
  with run Suc.IH [OF u] show ?case
    by (cases x) (auto simp: send_attempts.simps [of p enc "Suc n"])
qed

lemma receive_loop_delivers:
  assumes "ok (ss_transport s)" "ready (ss_transport s)" "0 < ss_read_chunk_bytes s"
    and f: "uart_frame_valid f" "uf_transport f = ss_kind s"
    and "ss_rx_buffer s @ wire (ss_transport s) = encode f"
    and newer: "\<And>previous. ss_last_rx_sequence s = Some previous \<Longrightarrow> is_newer (uf_sequence f) previous"
  shows "\<exists>s'. receive_loop p (\<lambda>_. False) k s = (Inr f, s')
           \<and> ss_rx_buffer s' = [] \<and> wire (ss_transport s') = []"
  using assms
proof (induction "length (wire (ss_transport s))" arbitrary: s k rule: less_induct)
  case less
  let ?rx = "ss_rx_buffer s" and ?w = "ss_transport s"
  show ?case
  proof (cases "wire ?w = []")
    case True
    then have "take_frame_from_buffer s = (Inr (Some f), s\<lparr>ss_rx_buffer := []\<rparr>)"
      using less.prems(4-6) by (intro take_frame_whole) auto
    with less.prems(7) True show ?thesis
      by (subst receive_loop.simps) (auto split: option.split)
  next
    case False
    have "take (length ?rx) (?rx @ wire ?w) = ?rx" "length ?rx < length (?rx @ wire ?w)"
      using False by simp_all
    then have "?rx = take (length ?rx) (encode f)" "length ?rx < length (encode f)"
      unfolding less.prems(6) by simp_all
    then have none: "take_frame_from_buffer s = (Inr None, s)"
      by (rule take_frame_prefix [OF less.prems(4)])
    obtain c w' where rd: "pt_read p (ss_read_chunk_bytes s) ?w = (Inr c, w')" and rdy: "ready w'"
      using ready_read [OF less.prems(1-3) False] by blast
    note law = read_returns [OF less.prems(1,3) rd]
    let ?s = "s\<lparr>ss_transport := w', ss_rx_buffer := ?rx @ c\<rparr>"
    have all: "(?rx @ c) @ wire w' = encode f" using law less.prems(6) by simp
    have "length (?rx @ c) \<le> length (encode f)" using arg_cong [OF all, of length] by simp
    also have "\<dots> \<le> MAX_FRAME_BYTES"
      using less.prems(4) by (simp add: uart_frame_valid_def frame_sizes)
    finally have step: "receive_loop p (\<lambda>_. False) k s = receive_loop p (\<lambda>_. False) (Suc k) ?s"
      using none rd law by (subst receive_loop.simps) (simp add: Let_def)
    have "length (wire w') < length (wire ?w)" using law by (cases c) auto
    then show ?thesis unfolding step
      using less.hyps [of ?s "Suc k"] law rdy all less.prems(3-5,7) by simp
  qed
qed

end

section \<open>The loopback transport is such a port\<close>

definition fake_wire :: "fake_transport \<Rightarrow> octet list" where
  "fake_wire t = concat (ft_chunks t)"

definition fake_ok :: "fake_transport \<Rightarrow> bool" where
  "fake_ok t \<longleftrightarrow> [] \<notin> set (ft_chunks t) \<and> (\<forall>m. ft_max_write_bytes t = Some m \<longrightarrow> 1 \<le> m)"

definition fake_ready :: "fake_transport \<Rightarrow> bool" where
  "fake_ready t \<longleftrightarrow> ft_opened t \<and> \<not> ft_fail_next_read t"

lemmas fake_defs [op_defs] =
  fake_ensure_open_def fake_write_def fake_read_def fake_wire_def fake_ok_def fake_ready_def
  and_then_def

lemma fake_write_raises:
  "fake_ok t \<Longrightarrow> fake_write d t = (Inl e, t') \<Longrightarrow> fake_ok t' \<and> fake_wire t' = fake_wire t"
  by (auto simp: fake_defs Let_def split: if_splits)

lemma fake_write_accepts:
  "fake_ok t \<Longrightarrow> fake_write d t = (Inr n, t') \<Longrightarrow>
     fake_ok t' \<and> 0 < n \<and> n \<le> int (length d) \<and> fake_wire t' = fake_wire t @ take (nat n) d"
  by (auto simp: fake_defs Let_def min_le_iff_disj split: if_splits option.splits)

lemma fake_read_raises:
  "fake_ok t \<Longrightarrow> fake_read m t = (Inl e, t') \<Longrightarrow> fake_ok t' \<and> fake_wire t' = fake_wire t"
  by (auto simp: fake_defs split: if_splits list.splits)

lemma fake_read_returns:
  "fake_ok t \<Longrightarrow> 0 < m \<Longrightarrow> fake_read m t = (Inr c, t') \<Longrightarrow>
     fake_ok t' \<and> c \<noteq> [] \<and> length c \<le> m \<and> fake_wire t = c @ fake_wire t'"
  by (auto simp: fake_defs split: if_splits list.splits)

interpretation loopback: live_port fake_port fake_ok fake_wire fake_ready
proof unfold_locales
  fix w d
  show "fake_ready w \<Longrightarrow> fake_ready (snd (pt_write fake_port d w))"
    by (auto simp: fake_port_def fake_defs Let_def)
next
  fix w m
  assume "fake_ready w" "fake_wire w \<noteq> []"
  then show "\<exists>c w'. pt_read fake_port m w = (Inr c, w') \<and> fake_ready w'"
    by (cases "ft_chunks w") (auto simp: fake_port_def fake_defs)
qed (auto simp: fake_port_def dest: fake_write_raises fake_write_accepts fake_read_raises fake_read_returns)

section \<open>Properties\<close>

text \<open>
  C32: encoding and decoding are inverse to each other. Decoding the bytes of a valid frame gives
  that frame, and every byte string that decodes is the encoding of the frame it decodes to, so
  no two byte strings stand for one frame.
\<close>

theorem uart_frame_roundtrip:
  assumes "uart_frame_post_init f = Inr f"
  shows "decode (encode f) (Some (uf_transport f)) = Inr f
         \<and> (\<forall>raw k g. decode raw k = Inr g \<longrightarrow>
              raw = encode g \<and> uart_frame_post_init g = Inr g \<and> (k = None \<or> k = Some (uf_transport g)))"
  using assms decode_encode encode_decode decode_header(9,10)
  by (auto simp: uart_frame_post_init_iff)

text \<open>
  C33: damage to one byte is always noticed. Whatever byte of an encoded frame is replaced by
  another value, in the header, the payload or the check sum, the receiver rejects the result.
\<close>

theorem uart_single_byte_damage_is_rejected:
  assumes "i < length (encode f)" and "b \<noteq> encode f ! i"
  shows "\<exists>e. decode ((encode f)[i := b]) expected_transport = Inl e"
  using assms by (rule encode_byte_change)

text \<open>
  C34: sending is all or nothing on the wire, except for a reported partial write. On the loopback
  transport a successful \<^verbatim>\<open>send\<close>, whatever the number of partial writes and retries, puts the frame
  on the wire exactly once; a failed one puts a proper prefix of it, and nothing at all when it
  reports a closed transport or back-pressure.
\<close>

theorem uart_send_is_exactly_once:
  assumes "fake_ok (ss_transport s)" and "send fake_port payload sequence s = (r, s')"
  shows "case r of
           Inr f \<Rightarrow> uf_payload f = payload \<and> uf_sequence f = sequence
             \<and> fake_wire (ss_transport s') = fake_wire (ss_transport s) @ encode f
         | Inl e \<Rightarrow>
             (\<exists>k<length (encode \<lparr>uf_transport = ss_kind s, uf_sequence = sequence, uf_payload = payload\<rparr>).
                fake_wire (ss_transport s') = fake_wire (ss_transport s)
                  @ take k (encode \<lparr>uf_transport = ss_kind s, uf_sequence = sequence,
                                    uf_payload = payload\<rparr>))
             \<and> (e = TransportFailure TransportClosed \<or> e = TransportFailure TransportBackpressure
                  \<longrightarrow> fake_wire (ss_transport s') = fake_wire (ss_transport s))"
proof -
  let ?f = "\<lparr>uf_transport = ss_kind s, uf_sequence = sequence, uf_payload = payload\<rparr>"
  show ?thesis
  proof (cases "uart_frame_post_init ?f")
    case (Inl e)
    then have "e = FrameFormatError" by (auto simp: uart_frame_post_init_def split: if_splits)
    with Inl assms(2) have r: "r = Inl FrameFormatError" "s' = s" by (auto simp: send_def)
    have "\<exists>k<length (encode ?f). fake_wire (ss_transport s) = fake_wire (ss_transport s) @ take k (encode ?f)"
      by (rule exI [of _ 0]) simp
    with r show ?thesis by simp
  next
    case (Inr g)
    then have g: "g = ?f" by (simp add: uart_frame_post_init_iff)
    obtain x w where run: "send_attempts fake_port (encode ?f) (ss_max_retries s) (ss_transport s) = (x, w)"
      by fastforce
    note law = loopback.send_attempts_wire [OF assms(1) run]
    show ?thesis
    proof (cases x)
      case (Inl e)
      with assms(2) run Inr g have "r = Inl (TransportFailure e)" "s' = s\<lparr>ss_transport := w\<rparr>"
        by (simp_all add: send_def)
      with law Inl show ?thesis by simp
    next
      case (Inr u)
      with assms(2) run \<open>uart_frame_post_init ?f = Inr g\<close> g
      have "r = Inr ?f" "s' = s\<lparr>ss_transport := w\<rparr>" by (simp_all add: send_def)
      with law Inr show ?thesis by simp
    qed
  qed
qed


text \<open>
  C36: a damaged length field blocks a session for good. Once the receive buffer starts with a header
  whose length field exceeds the maximum, every \<^verbatim>\<open>receive\<close> over any transport raises
  \<^verbatim>\<open>FrameFormatError\<close> and changes nothing, so the offending bytes stay at the front of the buffer.
\<close>

theorem uart_oversized_length_blocks_receive:
  assumes "8 \<le> length (ss_rx_buffer s)" and "header_length (ss_rx_buffer s) > MAX_PAYLOAD_BYTES"
  shows "receive p expired s = (Inl FrameFormatError, s)"
  using assms
  by (simp add: receive_def receive_loop.simps take_frame_from_buffer_def Let_def frame_sizes)

section \<open>A concrete session\<close>

definition demo_uart_frame :: uart_frame where
  "demo_uart_frame = \<lparr>uf_transport = UART, uf_sequence = 65535, uf_payload = [1, 2, 3]\<rparr>"

definition demo_session :: "fake_transport session" where
  "demo_session =
     \<lparr>ss_transport = \<lparr>ft_capacity = 64, ft_max_write_bytes = Some 4, ft_chunks = [],
        ft_opened = True, ft_fail_next_write = True, ft_fail_next_read = False\<rparr>,
      ss_kind = SPI, ss_max_retries = 1, ss_read_chunk_bytes = 3, ss_rx_buffer = [],
      ss_last_rx_sequence = Some 65535\<rparr>"

lemma demo_session_sent: "\<not> isl (fst (send fake_port [7] 0 demo_session))"
  by (simp add: send_def send_attempts.simps write_loop.simps fake_port_def fake_defs Let_def
      uart_frame_post_init_def demo_session_def MAX_PAYLOAD_BYTES_def)

lemma demo_session_run:
  obtains f s' where "send fake_port [7] 0 demo_session = (Inr f, s')"
proof (cases "fst (send fake_port [7] 0 demo_session)")
  case (Inr f)
  then show thesis using that by (metis prod.collapse)
qed (use demo_session_sent in simp)

lemma demo_session_good:
  "fake_ok (ss_transport demo_session)" "fake_ready (ss_transport demo_session)"
  "fake_wire (ss_transport demo_session) = []" "ss_rx_buffer demo_session = []"
  "0 < ss_read_chunk_bytes demo_session"
  "case ss_last_rx_sequence demo_session of None \<Rightarrow> True | Some previous \<Rightarrow> is_newer 0 previous"
  by (simp_all add: demo_session_def fake_ok_def fake_ready_def fake_wire_def is_newer_def)

theorem uart_frame_roundtrip_witness:
  "decode (encode demo_uart_frame) (Some UART) = Inr demo_uart_frame"
proof -
  have "uart_frame_post_init demo_uart_frame = Inr demo_uart_frame"
    by (simp add: uart_frame_post_init_def demo_uart_frame_def MAX_PAYLOAD_BYTES_def)
  from uart_frame_roundtrip [OF this] show ?thesis by (simp add: demo_uart_frame_def)
qed

theorem uart_single_byte_damage_is_rejected_witness:
  "\<exists>e. decode ((encode demo_uart_frame)[9 := 4]) (Some UART) = Inl e"
proof (rule uart_single_byte_damage_is_rejected)
  show "9 < length (encode demo_uart_frame)" by (simp add: demo_uart_frame_def)
  show "4 \<noteq> encode demo_uart_frame ! 9"
    by (simp add: encode_def encode_body_shape demo_uart_frame_def)
qed

theorem uart_send_is_exactly_once_witness:
  "\<exists>f. fst (send fake_port [7] 0 demo_session) = Inr f
     \<and> fake_wire (ss_transport (snd (send fake_port [7] 0 demo_session))) = encode f"
proof -
  obtain f s' where run: "send fake_port [7] 0 demo_session = (Inr f, s')"
    by (rule demo_session_run)
  from uart_send_is_exactly_once [OF demo_session_good(1) run] run demo_session_good(3)
  show ?thesis by simp
qed


theorem uart_oversized_length_blocks_receive_witness:
  "let s = demo_session\<lparr>ss_rx_buffer := [0x57, 0x42, 1, 2, 0, 1, 0xFF, 0xFF] @ encode demo_uart_frame\<rparr>
   in receive fake_port (\<lambda>_. False) s = (Inl FrameFormatError, s)"
  unfolding Let_def
  by (rule uart_oversized_length_blocks_receive)
    (simp_all add: header_length_def unbe16_def MAX_PAYLOAD_BYTES_def)

end
