(* ===== verification/Json.thy ===== *)
theory Json
  imports Prelude
begin

text \<open>
  The decoder \<^verbatim>\<open>json.loads\<close> of the Python library, as the policy validator uses it on strings that
  start with a brace or a bracket.

  The decoder is recursive; the nesting depth at which it raises \<^verbatim>\<open>RecursionError\<close> depends on the
  interpreter and is an argument. An integer of more than 4300 digits raises \<^verbatim>\<open>ValueError\<close>; both are
  \<open>JsonLimit\<close>. Characters are code points below 256, so an escape of a larger one gives the letter of
  code 255, which no later check tells from any other letter outside ASCII. The value of a number
  with a fraction or an exponent is not looked at by any caller; it is an opaque \<^verbatim>\<open>float\<close>.
\<close>

datatype json_error = JSONDecodeError | JsonLimit | JsonFuel

definition json_space :: "char \<Rightarrow> bool" where
  "json_space c \<longleftrightarrow> (let n = (of_char c :: nat) in n = 32 \<or> n = 9 \<or> n = 10 \<or> n = 13)"

definition skip_space :: "string \<Rightarrow> string" where
  "skip_space s = dropWhile json_space s"

definition quote_char :: char where "quote_char = CHR 0x22"
definition backslash_char :: char where "backslash_char = CHR 0x5C"

definition json_digit :: "char \<Rightarrow> bool" where
  "json_digit c \<longleftrightarrow> (let n = (of_char c :: nat) in 48 \<le> n \<and> n \<le> 57)"

definition hex_value :: "char \<Rightarrow> nat option" where
  "hex_value c =
     (let n = (of_char c :: nat) in
      if 48 \<le> n \<and> n \<le> 57 then Some (n - 48)
      else if 65 \<le> n \<and> n \<le> 70 then Some (n - 55)
      else if 97 \<le> n \<and> n \<le> 102 then Some (n - 87)
      else None)"

definition hex4 :: "char \<Rightarrow> char \<Rightarrow> char \<Rightarrow> char \<Rightarrow> char option" where
  "hex4 a b c d =
     (case (hex_value a, hex_value b, hex_value c, hex_value d) of
        (Some w, Some x, Some y, Some z) \<Rightarrow>
          Some (char_of (min 255 (((w * 16 + x) * 16 + y) * 16 + z)))
      | _ \<Rightarrow> None)"

definition simple_escape :: "char \<Rightarrow> char option" where
  "simple_escape c =
     (if c = quote_char \<or> c = backslash_char \<or> c = CHR ''/'' then Some c
      else if c = CHR ''b'' then Some (char_of (8 :: nat))
      else if c = CHR ''f'' then Some (char_of (12 :: nat))
      else if c = CHR ''n'' then Some (char_of (10 :: nat))
      else if c = CHR ''r'' then Some (char_of (13 :: nat))
      else if c = CHR ''t'' then Some (char_of (9 :: nat))
      else None)"

text \<open>What a backslash stands for, and what follows the escape.\<close>

definition json_escape :: "string \<Rightarrow> (char \<times> string) option" where
  "json_escape s =
     (case s of
        [] \<Rightarrow> None
      | e # r \<Rightarrow>
          if e = CHR ''u'' then
            (case r of
               h1 # h2 # h3 # h4 # r' \<Rightarrow> map_option (\<lambda>ch. (ch, r')) (hex4 h1 h2 h3 h4)
             | _ \<Rightarrow> None)
          else map_option (\<lambda>ch. (ch, r)) (simple_escape e))"

lemma json_escape_length: "json_escape s = Some (ch, r) \<Longrightarrow> length r < length s"
  by (auto simp: json_escape_def split: list.splits if_splits)

text \<open>The rest of a string literal after its opening quote, and what follows it.\<close>

function json_string :: "string \<Rightarrow> json_error + string \<times> string" where
  "json_string s =
     (case s of
        [] \<Rightarrow> Inl JSONDecodeError
      | c # cs \<Rightarrow>
          if c = quote_char then Inr ([], cs)
          else if c = backslash_char then
            (case json_escape cs of
               None \<Rightarrow> Inl JSONDecodeError
             | Some (ch, r) \<Rightarrow> and_try (json_string r) (\<lambda>(t, u). Inr (ch # t, u)))
          else if (of_char c :: nat) < 32 then Inl JSONDecodeError
          else and_try (json_string cs) (\<lambda>(t, u). Inr (c # t, u)))"
  by auto
termination by (relation "measure length") (auto dest: json_escape_length)

declare json_string.simps [simp del]

lemma json_string_Nil: "json_string [] = Inl JSONDecodeError"
  by (subst json_string.simps) simp

lemma json_string_Cons:
  "json_string (c # cs) =
     (if c = quote_char then Inr ([], cs)
      else if c = backslash_char then
        (case json_escape cs of
           None \<Rightarrow> Inl JSONDecodeError
         | Some (ch, r) \<Rightarrow> and_try (json_string r) (\<lambda>(t, u). Inr (ch # t, u)))
      else if (of_char c :: nat) < 32 then Inl JSONDecodeError
      else and_try (json_string cs) (\<lambda>(t, u). Inr (c # t, u)))"
  by (subst json_string.simps) simp

section \<open>Numbers and literals\<close>

definition digits_value :: "string \<Rightarrow> int" where
  "digits_value ds = foldl (\<lambda>n c. n * 10 + int (of_char c - 48)) 0 ds"

text \<open>An optional fraction, then an optional exponent; each needs a digit to be taken.\<close>

definition json_fraction :: "string \<Rightarrow> bool \<times> string" where
  "json_fraction s =
     (case s of
        c # d # r \<Rightarrow>
          if c = CHR ''.'' \<and> json_digit d then (True, dropWhile json_digit (d # r)) else (False, s)
      | _ \<Rightarrow> (False, s))"

definition json_exponent :: "string \<Rightarrow> bool \<times> string" where
  "json_exponent s =
     (case s of
        c # r \<Rightarrow>
          if c = CHR ''e'' \<or> c = CHR ''E'' then
            (let r' = (case r of
                         x # r'' \<Rightarrow> if x = CHR ''+'' \<or> x = CHR ''-'' then r'' else r
                       | [] \<Rightarrow> r)
             in case r' of
                  d # _ \<Rightarrow> if json_digit d then (True, dropWhile json_digit r') else (False, s)
                | [] \<Rightarrow> (False, s))
          else (False, s)
      | [] \<Rightarrow> (False, s))"

definition json_unsigned :: "bool \<Rightarrow> string \<Rightarrow> json_error + pyval \<times> string" where
  "json_unsigned negative s =
     (case s of
        [] \<Rightarrow> Inl JSONDecodeError
      | c # r \<Rightarrow>
          if \<not> json_digit c then Inl JSONDecodeError
          else let ds = (if c = CHR ''0'' then [c] else takeWhile json_digit s);
                   r1 = (if c = CHR ''0'' then r else dropWhile json_digit s);
                   (frac, r2) = json_fraction r1;
                   (ex, r3) = json_exponent r2
               in if frac \<or> ex then Inr (PyObj ''float'', r3)
                  else if length ds > 4300 then Inl JsonLimit
                  else Inr (PyInt (if negative then - digits_value ds else digits_value ds), r3))"

definition strip_prefix :: "string \<Rightarrow> string \<Rightarrow> string option" where
  "strip_prefix p s = (if take (length p) s = p then Some (drop (length p) s) else None)"

definition json_literal :: "string \<Rightarrow> (pyval \<times> string) option" where
  "json_literal s =
     (case strip_prefix ''null'' s of Some r \<Rightarrow> Some (PyNone, r) | None \<Rightarrow>
      case strip_prefix ''true'' s of Some r \<Rightarrow> Some (PyBool True, r) | None \<Rightarrow>
      case strip_prefix ''false'' s of Some r \<Rightarrow> Some (PyBool False, r) | None \<Rightarrow>
      case strip_prefix ''NaN'' s of Some r \<Rightarrow> Some (PyFloat NaN, r) | None \<Rightarrow>
      case strip_prefix ''Infinity'' s of Some r \<Rightarrow> Some (PyFloat PosInf, r) | None \<Rightarrow>
      case strip_prefix ''-Infinity'' s of Some r \<Rightarrow> Some (PyFloat NegInf, r) | None \<Rightarrow> None)"

definition json_number :: "string \<Rightarrow> json_error + pyval \<times> string" where
  "json_number s =
     (case s of
        c # r \<Rightarrow> if c = CHR ''-'' then json_unsigned True r else json_unsigned False s
      | [] \<Rightarrow> Inl JSONDecodeError)"

definition json_scalar :: "string \<Rightarrow> json_error + pyval \<times> string" where
  "json_scalar s = (case json_literal s of Some vr \<Rightarrow> Inr vr | None \<Rightarrow> json_number s)"

section \<open>Values\<close>

text \<open>\<^verbatim>\<open>d[k] = v\<close>\<close>

fun dict_put :: "(string \<times> pyval) list \<Rightarrow> string \<Rightarrow> pyval \<Rightarrow> (string \<times> pyval) list" where
  "dict_put [] k v = [(k, v)]"
| "dict_put ((k', v') # d) k v = (if k' = k then (k, v) # d else (k', v') # dict_put d k v)"

text \<open>
  The three readers of the decoder: a value, the elements of an array up to its closing bracket and
  the members of an object up to its closing brace, the last two with what was read before. Each is
  given the readers for the calls it makes.
\<close>

datatype json_goal = JsonValue | JsonElements "pyval list" | JsonMembers "(string \<times> pyval) list"

type_synonym json_reader = "json_goal \<Rightarrow> nat \<Rightarrow> string \<Rightarrow> json_error + pyval \<times> string"

definition json_value :: "json_reader \<Rightarrow> nat \<Rightarrow> string \<Rightarrow> json_error + pyval \<times> string" where
  "json_value read depth s =
     (case s of
        [] \<Rightarrow> Inl JSONDecodeError
      | c # cs \<Rightarrow>
          if c = quote_char then and_try (json_string cs) (\<lambda>(t, r). Inr (PyStr t, r))
          else if c = CHR ''{'' then
            (if depth = 0 then Inl JsonLimit
             else case skip_space cs of
               [] \<Rightarrow> Inl JSONDecodeError
             | d # ds \<Rightarrow> if d = CHR ''}'' then Inr (PyDict [], ds)
                        else read (JsonMembers []) (depth - 1) (d # ds))
          else if c = CHR ''['' then
            (if depth = 0 then Inl JsonLimit
             else case skip_space cs of
               [] \<Rightarrow> Inl JSONDecodeError
             | d # ds \<Rightarrow> if d = CHR '']'' then Inr (PyList [], ds)
                        else read (JsonElements []) (depth - 1) (d # ds))
          else json_scalar s)"

definition json_elements ::
    "json_reader \<Rightarrow> pyval list \<Rightarrow> nat \<Rightarrow> string \<Rightarrow> json_error + pyval \<times> string" where
  "json_elements read vs depth s =
     and_try (read JsonValue depth s) (\<lambda>(v, r).
       case skip_space r of
         [] \<Rightarrow> Inl JSONDecodeError
       | c # cs \<Rightarrow>
           if c = CHR '']'' then Inr (PyList (vs @ [v]), cs)
           else if c = CHR '','' then read (JsonElements (vs @ [v])) depth (skip_space cs)
           else Inl JSONDecodeError)"

text \<open>A member's key up to and including the colon, with the space around it.\<close>

definition json_key :: "string \<Rightarrow> json_error + string \<times> string" where
  "json_key s =
     (case s of
        [] \<Rightarrow> Inl JSONDecodeError
      | c # cs \<Rightarrow>
          if c \<noteq> quote_char then Inl JSONDecodeError
          else and_try (json_string cs) (\<lambda>(k, r).
            case skip_space r of
              [] \<Rightarrow> Inl JSONDecodeError
            | d # ds \<Rightarrow> if d \<noteq> CHR '':'' then Inl JSONDecodeError else Inr (k, skip_space ds)))"

definition json_members ::
    "json_reader \<Rightarrow> (string \<times> pyval) list \<Rightarrow> nat \<Rightarrow> string \<Rightarrow> json_error + pyval \<times> string" where
  "json_members read d depth s =
     and_try (json_key s) (\<lambda>(k, r).
     and_try (read JsonValue depth r) (\<lambda>(v, r2).
       case skip_space r2 of
         [] \<Rightarrow> Inl JSONDecodeError
       | c # cs \<Rightarrow>
           if c = CHR ''}'' then Inr (PyDict (dict_put d k v), cs)
           else if c = CHR '','' then read (JsonMembers (dict_put d k v)) depth (skip_space cs)
           else Inl JSONDecodeError))"

primrec json_read :: "nat \<Rightarrow> json_reader" where
  "json_read 0 = (\<lambda>goal depth s. Inl JsonFuel)"
| "json_read (Suc fuel) = (\<lambda>goal depth s.
     case goal of
       JsonValue \<Rightarrow> json_value (json_read fuel) depth s
     | JsonElements vs \<Rightarrow> json_elements (json_read fuel) vs depth s
     | JsonMembers d \<Rightarrow> json_members (json_read fuel) d depth s)"

text \<open>Two calls at most share a string, so twice its length is enough fuel (\<open>json_loads_fuel\<close>).\<close>

definition json_loads :: "nat \<Rightarrow> string \<Rightarrow> json_error + pyval" where
  "json_loads depth s =
     and_try (json_read (2 * length s + 1) JsonValue depth (skip_space s)) (\<lambda>(v, r).
       if skip_space r = [] then Inr v else Inl JSONDecodeError)"

section \<open>The fuel is enough\<close>

lemma skip_space_length: "length (skip_space s) \<le> length s"
  by (simp add: skip_space_def length_dropWhile_le)

lemma skip_space_Cons: "skip_space s = c # cs \<Longrightarrow> length cs < length s"
  using skip_space_length [of s] by simp

lemma json_string_length: "json_string s = Inr (t, r) \<Longrightarrow> length r < length s"
proof (induction "length s" arbitrary: s t r rule: less_induct)
  case less
  show ?case
  proof (cases s)
    case Nil
    then show ?thesis using less.prems by (simp add: json_string_Nil)
  next
    case (Cons c cs)
    then have "cs = r \<or> (\<exists>u t'. length u \<le> length cs \<and> json_string u = Inr (t', r))"
      using less.prems
      by (auto simp: json_string_Cons and_try_Inr split: if_splits option.splits
               dest!: json_escape_length intro: less_imp_le)
    then show ?thesis
    proof (elim disjE exE conjE)
      fix u t'
      assume "length u \<le> length cs" "json_string u = Inr (t', r)"
      then show ?thesis using less.hyps [of u t' r] Cons by simp
    qed (simp add: Cons)
  qed
qed

lemma json_string_fuel: "json_string s \<noteq> Inl JsonFuel"
proof (induction "length s" arbitrary: s rule: less_induct)
  case less
  show ?case
  proof (cases s)
    case Nil
    then show ?thesis by (simp add: json_string_Nil)
  next
    case (Cons c cs)
    have "json_string u \<noteq> Inl JsonFuel" if "length u \<le> length cs" for u
      using less.hyps [of u] that Cons by simp
    moreover have "length r \<le> length cs" if "json_escape cs = Some (ch, r)" for ch r
      using json_escape_length [OF that] by simp
    ultimately show ?thesis
      using Cons by (auto simp: json_string_Cons and_try_Inl split: option.splits if_splits)
  qed
qed

lemma json_key_length: 
  assumes "json_key s = Inr (k, r)"
  shows "length r < length s"
proof -
  obtain c cs where s: "s = c # cs"
    using assms by (cases s) (simp_all add: json_key_def)
  then obtain k' u where u: "json_string cs = Inr (k', u)"
    using assms by (auto simp: json_key_def and_try_Inr split: if_splits)
  moreover obtain d ds where "skip_space u = d # ds"
    using assms s u by (cases "skip_space u") (simp_all add: json_key_def split: if_splits)
  moreover have "r = skip_space ds"
    using assms s calculation by (simp add: json_key_def split: if_splits)
  ultimately show ?thesis
    using s json_string_length [of cs k' u] skip_space_Cons [of u d ds] skip_space_length [of ds] by simp
qed

lemma json_key_fuel: "json_key s \<noteq> Inl JsonFuel"
  using json_string_fuel by (auto simp: json_key_def and_try_Inl split: list.split)

lemma json_fraction_length: "length (snd (json_fraction s)) \<le> length s"
  using length_dropWhile_le [of json_digit] by (auto simp: json_fraction_def le_Suc_eq split: list.split)

lemma json_exponent_length: "length (snd (json_exponent s)) \<le> length s"
proof -
  have digits: "length (dropWhile json_digit r) \<le> Suc n" if "length r \<le> n" for r n
    using le_trans [OF length_dropWhile_le [of json_digit r] that] by simp
  show ?thesis
    by (auto simp: json_exponent_def Let_def digits split: list.split)
qed

lemma json_unsigned_length:
  assumes "json_unsigned negative s = Inr (v, r)"
  shows "length r \<le> length s"
proof -
  obtain c list where s: "s = c # list"
    using assms by (cases s) (simp_all add: json_unsigned_def)
  define r1 where "r1 = (if c = CHR ''0'' then list else dropWhile json_digit s)"
  obtain f r2 where fr: "json_fraction r1 = (f, r2)" by fastforce
  obtain e r3 where ex: "json_exponent r2 = (e, r3)" by fastforce
  have "r = r3"
    using assms fr ex unfolding json_unsigned_def s r1_def
    by (auto simp: Let_def split: if_splits)
  moreover have "length r1 \<le> length s"
    using length_dropWhile_le [of json_digit s] by (simp add: r1_def s)
  ultimately show ?thesis
    using json_fraction_length [of r1] json_exponent_length [of r2] fr ex by simp
qed

lemma json_unsigned_fuel: "json_unsigned negative s \<noteq> Inl JsonFuel"
  by (auto simp: json_unsigned_def Let_def split: list.split prod.split)

lemma json_scalar_length: "json_scalar s = Inr (v, r) \<Longrightarrow> length r \<le> length s"
  by (auto simp: json_scalar_def json_literal_def json_number_def strip_prefix_def
           split: option.splits if_splits list.splits dest: json_unsigned_length)

lemma json_scalar_fuel: "json_scalar s \<noteq> Inl JsonFuel"
  using json_unsigned_fuel by (auto simp: json_scalar_def json_number_def split: option.split list.split)

text \<open>
  Nothing a reader returns is longer than what it was given, and a reader that gets one unit for
  each call that may share its string never asks for more.
\<close>

definition shrinks :: "json_reader \<Rightarrow> bool" where
  "shrinks read \<longleftrightarrow> (\<forall>goal depth s v r. read goal depth s = Inr (v, r) \<longrightarrow> length r \<le> length s)"

definition goal_fuel :: "json_goal \<Rightarrow> string \<Rightarrow> nat" where
  "goal_fuel goal s = (if goal = JsonValue then 2 * length s + 1 else 2 * length s + 2)"

definition fuelled :: "nat \<Rightarrow> json_reader \<Rightarrow> bool" where
  "fuelled n read \<longleftrightarrow> (\<forall>goal depth s. goal_fuel goal s \<le> n \<longrightarrow> read goal depth s \<noteq> Inl JsonFuel)"

lemma shrinksD: "shrinks read \<Longrightarrow> read goal depth s = Inr (v, r) \<Longrightarrow> length r \<le> length s"
  by (auto simp: shrinks_def)

lemma fuelledD: "fuelled n read \<Longrightarrow> goal_fuel goal s \<le> n \<Longrightarrow> read goal depth s \<noteq> Inl JsonFuel"
  by (auto simp: fuelled_def)

lemma json_value_shrinks:
  assumes "shrinks read" and "json_value read depth s = Inr (v, r)"
  shows "length r \<le> length s"
proof (cases s)
  case Nil
  then show ?thesis using assms(2) by (simp add: json_value_def)
next
  case (Cons c cs)
  have open_bracket: "length r \<le> length s"
    if "skip_space cs = d # ds" and "r = ds \<or> read goal (depth - 1) (d # ds) = Inr (v, r)" for d ds goal
    using that skip_space_length [of cs] shrinksD [OF assms(1), of goal "depth - 1" "d # ds" v r] Cons
    by auto
  show ?thesis
    using assms(2) Cons json_scalar_length [of s v r] json_string_length [of cs _ r] open_bracket
    by (auto simp: json_value_def and_try_Inr less_imp_le le_SucI split: if_splits list.split_asm)
qed

lemma json_elements_shrinks:
  assumes "shrinks read" and "json_elements read vs depth s = Inr (v, r)"
  shows "length r \<le> length s"
proof -
  obtain x u where u: "read JsonValue depth s = Inr (x, u)"
    using assms(2) by (auto simp: json_elements_def and_try_Inr)
  moreover obtain c cs where c: "skip_space u = c # cs"
    using assms(2) u by (cases "skip_space u") (simp_all add: json_elements_def)
  moreover have "r = cs \<or> read (JsonElements (vs @ [x])) depth (skip_space cs) = Inr (v, r)"
    using assms(2) u c by (auto simp: json_elements_def split: if_splits)
  ultimately show ?thesis
    using shrinksD [OF assms(1)] skip_space_Cons [of u c cs] skip_space_length [of cs]
    by (metis le_trans less_imp_le)
qed

lemma json_members_shrinks:
  assumes "shrinks read" and "json_members read d depth s = Inr (v, r)"
  shows "length r \<le> length s"
proof -
  obtain k t x u where t: "json_key s = Inr (k, t)" and u: "read JsonValue depth t = Inr (x, u)"
    using assms(2) by (auto simp: json_members_def and_try_Inr)
  moreover obtain c cs where c: "skip_space u = c # cs"
    using assms(2) t u by (cases "skip_space u") (simp_all add: json_members_def)
  moreover have "r = cs \<or> read (JsonMembers (dict_put d k x)) depth (skip_space cs) = Inr (v, r)"
    using assms(2) t u c by (auto simp: json_members_def split: if_splits)
  ultimately show ?thesis
    using shrinksD [OF assms(1)] skip_space_Cons [of u c cs] skip_space_length [of cs] json_key_length [of s k t]
    by (metis le_trans less_imp_le)
qed

lemma json_read_shrinks: "shrinks (json_read fuel)"
proof (induction fuel)
  case 0
  then show ?case by (simp add: shrinks_def)
next
  case (Suc fuel)
  have "length r \<le> length s" if "json_read (Suc fuel) goal depth s = Inr (v, r)" for goal depth s v r
    using that json_value_shrinks [OF Suc, of depth s v r] json_elements_shrinks [OF Suc, of _ depth s v r]
      json_members_shrinks [OF Suc, of _ depth s v r]
    by (cases goal) simp_all
  then show ?case unfolding shrinks_def by blast
qed

lemma json_value_fuel:
  assumes "fuelled n read" and "2 * length s \<le> n"
  shows "json_value read depth s \<noteq> Inl JsonFuel"
proof (cases s)
  case Nil
  then show ?thesis by (simp add: json_value_def)
next
  case (Cons c cs)
  have "read goal (depth - 1) (d # ds) \<noteq> Inl JsonFuel" if "skip_space cs = d # ds" for d ds goal
    using that skip_space_length [of cs] assms(2) Cons
    by (intro fuelledD [OF assms(1)]) (simp add: goal_fuel_def)
  then show ?thesis
    using Cons json_scalar_fuel [of s] json_string_fuel
    by (auto simp: json_value_def and_try_Inl split: list.split)
qed

lemma json_elements_fuel:
  assumes "fuelled n read" and "shrinks read" and "2 * length s + 1 \<le> n"
  shows "json_elements read vs depth s \<noteq> Inl JsonFuel"
proof -
  have "read JsonValue depth s \<noteq> Inl JsonFuel"
    using assms(3) by (intro fuelledD [OF assms(1)]) (simp add: goal_fuel_def)
  moreover have "read goal depth (skip_space cs) \<noteq> Inl JsonFuel"
    if "read JsonValue depth s = Inr (x, u)" and "skip_space u = c # cs" for x u c cs goal
    using shrinksD [OF assms(2) that(1)] skip_space_Cons [OF that(2)] skip_space_length [of cs] assms(3)
    by (intro fuelledD [OF assms(1)]) (simp add: goal_fuel_def)
  ultimately show ?thesis
    by (auto simp: json_elements_def and_try_Inl split: list.split_asm if_splits)
qed

lemma json_members_fuel:
  assumes "fuelled n read" and "shrinks read" and "2 * length s + 1 \<le> n"
  shows "json_members read d depth s \<noteq> Inl JsonFuel"
proof -
  have "read JsonValue depth t \<noteq> Inl JsonFuel" if "json_key s = Inr (k, t)" for k t
    using json_key_length [OF that] assms(3) by (intro fuelledD [OF assms(1)]) (simp add: goal_fuel_def)
  moreover have "read goal depth (skip_space cs) \<noteq> Inl JsonFuel"
    if "json_key s = Inr (k, t)" and "read JsonValue depth t = Inr (x, u)" and "skip_space u = c # cs"
    for k t x u c cs goal
    using shrinksD [OF assms(2) that(2)] json_key_length [OF that(1)] skip_space_Cons [OF that(3)]
      skip_space_length [of cs] assms(3)
    by (intro fuelledD [OF assms(1)]) (simp add: goal_fuel_def)
  ultimately show ?thesis
    using json_key_fuel by (auto simp: json_members_def and_try_Inl split: list.split_asm if_splits)
qed

lemma json_read_fuel: "fuelled fuel (json_read fuel)"
proof (induction fuel)
  case 0
  then show ?case by (simp add: fuelled_def goal_fuel_def)
next
  case (Suc fuel)
  then show ?case
    using json_value_fuel [OF Suc] json_elements_fuel [OF Suc json_read_shrinks]
      json_members_fuel [OF Suc json_read_shrinks]
    by (auto simp: fuelled_def [of "Suc fuel"] goal_fuel_def split: json_goal.split)
qed

lemma json_loads_fuel: "json_loads depth s \<noteq> Inl JsonFuel"
proof -
  have "json_read (2 * length s + 1) JsonValue depth (skip_space s) \<noteq> Inl JsonFuel"
    using skip_space_length [of s] by (intro fuelledD [OF json_read_fuel]) (simp add: goal_fuel_def)
  then show ?thesis
    by (auto simp del: json_read.simps simp: json_loads_def and_try_Inl)
qed

end
