(* ===== verification/JsonText.thy ===== *)
theory JsonText
  imports Json "HOL-Library.List_Lexorder" "HOL-Library.Char_ord"
begin

text \<open>
  The encoder \<^verbatim>\<open>json.dumps\<close> of the Python library with the options the world model gives it:
  \<^verbatim>\<open>ensure_ascii=False\<close>, \<^verbatim>\<open>separators=(",", ":")\<close>, \<^verbatim>\<open>sort_keys=True\<close>, \<^verbatim>\<open>allow_nan=False\<close>; and the
  arithmetic on doubles that depends on rounding.

  A finite double is the rational it stands for. Which rational a computation rounds to, and the
  shortest text that reads back as a double, are those of the interpreter and are given by a
  \<open>float_ops\<close>: \<open>fl_nearest q\<close> is the double nearest to \<open>q\<close>, \<open>fl_overflows q\<close> says that \<open>q\<close> is too
  large for one, so that \<^verbatim>\<open>float(q)\<close> raises \<^verbatim>\<open>OverflowError\<close>, and \<open>fl_repr\<close> is \<^verbatim>\<open>repr\<close> of a finite double.
\<close>

record float_ops =
  fl_nearest :: "rat \<Rightarrow> rat"
  fl_overflows :: "rat \<Rightarrow> bool"
  fl_repr :: "rat \<Rightarrow> string"

definition fl_round :: "float_ops \<Rightarrow> rat \<Rightarrow> rat option" where
  "fl_round fl q = (if fl_overflows fl q then None else Some (fl_nearest fl q))"

text \<open>What IEEE arithmetic guarantees: rounding is monotone, and zero is a double.\<close>

definition faithful_rounding :: "float_ops \<Rightarrow> bool" where
  "faithful_rounding fl \<longleftrightarrow> mono (fl_nearest fl) \<and> fl_nearest fl 0 = 0"

text \<open>Doubles without rounding, with a text for the numbers of the examples.\<close>

definition exact_floats :: float_ops where
  "exact_floats = \<lparr>fl_nearest = (\<lambda>q. q), fl_overflows = (\<lambda>q. False), fl_repr = (\<lambda>q. if q = 1 then ''1.0'' else ''0.5'')\<rparr>"

lemma exact_floats_faithful: "faithful_rounding exact_floats"
  by (simp add: faithful_rounding_def exact_floats_def mono_def)

definition hex_digit :: "nat \<Rightarrow> char" where
  "hex_digit n = char_of (if n < 10 then 48 + n else 87 + n)"

definition json_char :: "char \<Rightarrow> string" where
  "json_char c =
     (let n = (of_char c :: nat) in
      if c = quote_char \<or> c = backslash_char then [backslash_char, c]
      else if n = 8 then backslash_char # ''b''
      else if n = 9 then backslash_char # ''t''
      else if n = 10 then backslash_char # ''n''
      else if n = 12 then backslash_char # ''f''
      else if n = 13 then backslash_char # ''r''
      else if n < 16 then backslash_char # ''u000'' @ [hex_digit n]
      else if n < 32 then backslash_char # ''u001'' @ [hex_digit (n - 16)]
      else [c])"

definition json_quote :: "string \<Rightarrow> string" where
  "json_quote s = quote_char # concat (map json_char s) @ [quote_char]"

fun comma_separated :: "string list \<Rightarrow> string" where
  "comma_separated [] = ''''"
| "comma_separated [t] = t"
| "comma_separated (t # u # ts) = t @ '','' @ comma_separated (u # ts)"

text \<open>\<open>None\<close> is the \<^verbatim>\<open>TypeError\<close> or \<^verbatim>\<open>ValueError\<close> of a value JSON cannot hold.\<close>

fun json_dumps :: "float_ops \<Rightarrow> pyval \<Rightarrow> string option" where
  "json_dumps fl PyNone = Some ''null''"
| "json_dumps fl (PyBool b) = Some (if b then ''true'' else ''false'')"
| "json_dumps fl (PyInt i) = Some (show_int i)"
| "json_dumps fl (PyFloat (Finite q)) = Some (fl_repr fl q)"
| "json_dumps fl (PyStr s) = Some (json_quote s)"
| "json_dumps fl (PyList xs) =
     map_option (\<lambda>ts. ''['' @ comma_separated ts @ '']'') (those (map (json_dumps fl) xs))"
| "json_dumps fl (PyTuple xs) =
     map_option (\<lambda>ts. ''['' @ comma_separated ts @ '']'') (those (map (json_dumps fl) xs))"
| "json_dumps fl (PyDict d) =
     map_option
       (\<lambda>kts. ''{'' @ comma_separated (map (\<lambda>(k, t). json_quote k @ '':'' @ t) (sort_key fst kts)) @ ''}'')
       (those (map (\<lambda>(k, v). map_option (Pair k) (json_dumps fl v)) d))"
| "json_dumps fl _ = None"

text \<open>\<^verbatim>\<open>len(text.encode("utf-8"))\<close>\<close>

fun utf8_length :: "string \<Rightarrow> nat" where
  "utf8_length [] = 0"
| "utf8_length (c # cs) = (if (of_char c :: nat) < 128 then 1 else 2) + utf8_length cs"

end
