(* ===== verification/PowerManager.thy ===== *)
theory PowerManager
  imports JsonText
begin

text \<open>
  The power management contract of \<^verbatim>\<open>hardware/linux_drivers/pm/contract.py\<close>: resources with costs, and
  a coordinator that suspends them in reverse order and resumes them within a budget.

  Costs and budgets are checked at run time, so they are Python values here. The budget is counted down
  in doubles: \<open>float_minus\<close> is \<^verbatim>\<open>-\<close> on two doubles, with the rounding of a \<open>float_ops\<close>, and an integer
  too large for a double raises \<^verbatim>\<open>OverflowError\<close>, which is no \<open>PMError\<close>.
\<close>

datatype pm_error =
    PMError
  | PMTimeout
  | PMOverflowError
  | PMTypeError \<comment> \<open>arithmetic on a value that \<open>pm_resource_post_init\<close> refuses\<close>

datatype pm_state = PM_ACTIVE | PM_SUSPENDING | PM_SUSPENDED | PM_RESUMING | PM_FAULT | PM_CLOSED

record pm_resource =
  pr_name :: string
  pr_suspend_cost_s :: pyval
  pr_resume_cost_s :: pyval

text \<open>\<^verbatim>\<open>type(value) not in (int, float) or value < 0\<close>, and the same with \<^verbatim>\<open><=\<close>: a double that is no
  number passes both.\<close>

definition pm_number :: "pyval \<Rightarrow> bool" where
  "pm_number v \<longleftrightarrow> (case v of PyInt _ \<Rightarrow> True | PyFloat _ \<Rightarrow> True | _ \<Rightarrow> False)"

definition pm_negative :: "pyval \<Rightarrow> bool" where
  "pm_negative v \<longleftrightarrow> py_less v (PyInt 0) = Some True"

definition pm_zero :: "pyval \<Rightarrow> bool" where
  "pm_zero v \<longleftrightarrow> py_num v = Some (Finite 0)"

definition pm_resource_post_init :: "pm_resource \<Rightarrow> pm_error + pm_resource" where
  "pm_resource_post_init r =
     (if py_blank (pr_name r) then Inl PMError
      else if \<not> pm_number (pr_suspend_cost_s r) \<or> pm_negative (pr_suspend_cost_s r) then Inl PMError
      else if \<not> pm_number (pr_resume_cost_s r) \<or> pm_negative (pr_resume_cost_s r) then Inl PMError
      else Inr r)"

record power_manager =
  pm_resources :: "pm_resource list"
  pm_current :: pm_state
  pm_suspended :: "string list"

definition power_manager_new :: "pm_resource list \<Rightarrow> pm_error + power_manager" where
  "power_manager_new resources =
     (let names = map pr_name resources in
      if length names \<noteq> card (set names) then Inl PMError
      else Inr \<lparr>pm_resources = resources, pm_current = PM_ACTIVE, pm_suspended = []\<rparr>)"

definition pm_ensure_timeout :: "pyval \<Rightarrow> (power_manager, pm_error, unit) action" where
  "pm_ensure_timeout timeout_s s =
     (if \<not> pm_number timeout_s \<or> pm_negative timeout_s \<or> pm_zero timeout_s then raise PMError s else return () s)"

section \<open>Doubles\<close>

definition float_of_rat :: "float_ops \<Rightarrow> rat \<Rightarrow> pyfloat" where
  "float_of_rat fl q =
     (case fl_round fl q of Some r \<Rightarrow> Finite r | None \<Rightarrow> if q < 0 then NegInf else PosInf)"

fun float_minus :: "float_ops \<Rightarrow> pyfloat \<Rightarrow> pyfloat \<Rightarrow> pyfloat" where
  "float_minus fl (Finite a) (Finite b) = float_of_rat fl (a - b)"
| "float_minus fl (Finite a) PosInf = NegInf"
| "float_minus fl (Finite a) NegInf = PosInf"
| "float_minus fl PosInf (Finite b) = PosInf"
| "float_minus fl PosInf NegInf = PosInf"
| "float_minus fl NegInf (Finite b) = NegInf"
| "float_minus fl NegInf PosInf = NegInf"
| "float_minus fl _ _ = NaN"

definition pm_float :: "float_ops \<Rightarrow> pyval \<Rightarrow> pm_error + pyfloat" where
  "pm_float fl v =
     (case v of
        PyInt i \<Rightarrow> (case fl_round fl (of_int i) of None \<Rightarrow> Inl PMOverflowError | Some q \<Rightarrow> Inr (Finite q))
      | PyFloat f \<Rightarrow> Inr f
      | _ \<Rightarrow> Inl PMTypeError)"

section \<open>Suspend, resume and close\<close>

text \<open>
  The loop of both operations: the costs are taken from the budget one resource at a time. The list is
  that of the names handled before the loop ended.
\<close>

fun pm_spend :: "float_ops \<Rightarrow> (pm_resource \<Rightarrow> pyval) \<Rightarrow> pm_resource list \<Rightarrow> pyfloat \<Rightarrow> (pm_error + unit) \<times> string list" where
  "pm_spend fl cost [] remaining = (Inr (), [])"
| "pm_spend fl cost (r # rs) remaining =
     (case pm_float fl (cost r) of
        Inl e \<Rightarrow> (Inl e, [])
      | Inr c \<Rightarrow>
          let left = float_minus fl remaining c in
          if float_less left (Finite 0) then (Inl PMTimeout, [])
          else let (outcome, names) = pm_spend fl cost rs left in (outcome, pr_name r # names))"

text \<open>\<^verbatim>\<open>except PMError: self._state = FAULT; raise\<close>\<close>

definition pm_after_error :: "pm_error \<Rightarrow> pm_state \<Rightarrow> pm_state" where
  "pm_after_error e current = (if e = PMError \<or> e = PMTimeout then PM_FAULT else current)"

definition pm_suspend :: "float_ops \<Rightarrow> pyval \<Rightarrow> (power_manager, pm_error, unit) action" where
  "pm_suspend fl timeout_s =
     and_then (pm_ensure_timeout timeout_s) (\<lambda>_ s.
       if pm_current s \<noteq> PM_ACTIVE then raise PMError s
       else
         case pm_float fl timeout_s of
           Inl e \<Rightarrow> raise e (s\<lparr>pm_current := PM_SUSPENDING\<rparr>)
         | Inr remaining \<Rightarrow>
             let (outcome, names) = pm_spend fl pr_suspend_cost_s (rev (pm_resources s)) remaining in
             (outcome,
              s\<lparr>pm_suspended := names,
                pm_current := (case outcome of Inl e \<Rightarrow> pm_after_error e PM_SUSPENDING | Inr _ \<Rightarrow> PM_SUSPENDED)\<rparr>))"

definition pm_resume :: "float_ops \<Rightarrow> pyval \<Rightarrow> (power_manager, pm_error, unit) action" where
  "pm_resume fl timeout_s =
     and_then (pm_ensure_timeout timeout_s) (\<lambda>_ s.
       if pm_current s \<noteq> PM_SUSPENDED then raise PMError s
       else
         case pm_float fl timeout_s of
           Inl e \<Rightarrow> raise e (s\<lparr>pm_current := PM_RESUMING\<rparr>)
         | Inr remaining \<Rightarrow>
             (case fst (pm_spend fl pr_resume_cost_s (pm_resources s) remaining) of
                Inl e \<Rightarrow> raise e (s\<lparr>pm_current := pm_after_error e PM_RESUMING\<rparr>)
              | Inr _ \<Rightarrow> return () (s\<lparr>pm_suspended := [], pm_current := PM_ACTIVE\<rparr>)))"

definition pm_close :: "(power_manager, pm_error, unit) action" where
  "pm_close s =
     (if pm_current s = PM_CLOSED then return () s
      else if pm_current s = PM_SUSPENDING \<or> pm_current s = PM_RESUMING then raise PMError s
      else return () (s\<lparr>pm_suspended := [], pm_current := PM_CLOSED\<rparr>))"

section \<open>Sequences of operations\<close>

datatype pm_op = PmSuspend pyval | PmResume pyval | PmClose

fun pm_step :: "float_ops \<Rightarrow> pm_op \<Rightarrow> power_manager \<Rightarrow> power_manager" where
  "pm_step fl (PmSuspend t) s = snd (pm_suspend fl t s)"
| "pm_step fl (PmResume t) s = snd (pm_resume fl t s)"
| "pm_step fl PmClose s = snd (pm_close s)"

lemmas pm_defs [op_defs] = pm_suspend_def pm_resume_def pm_close_def pm_ensure_timeout_def and_then_def

text \<open>
  The invariant. The names in \<open>pm_suspended\<close> are the resources that are down: none while the manager is
  active or closed, all in reverse order while it is suspended, and the first of that order otherwise.
\<close>

definition pm_down_order :: "power_manager \<Rightarrow> string list" where
  "pm_down_order s = rev (map pr_name (pm_resources s))"

definition pm_ok :: "power_manager \<Rightarrow> bool" where
  "pm_ok s \<longleftrightarrow>
     (case pm_current s of
        PM_ACTIVE \<Rightarrow> pm_suspended s = []
      | PM_CLOSED \<Rightarrow> pm_suspended s = []
      | PM_SUSPENDED \<Rightarrow> pm_suspended s = pm_down_order s
      | PM_RESUMING \<Rightarrow> pm_suspended s = pm_down_order s
      | PM_SUSPENDING \<Rightarrow> prefix (pm_suspended s) (pm_down_order s)
      | PM_FAULT \<Rightarrow> prefix (pm_suspended s) (pm_down_order s))"

lemma pm_spend_names:
  assumes "pm_spend fl cost rs b = (outcome, names)"
  shows "prefix names (map pr_name rs)" and "outcome = Inr () \<Longrightarrow> names = map pr_name rs"
  using assms
  by (induction rs arbitrary: b names) (auto split: sum.splits if_splits prod.splits simp: Let_def)

lemma pm_active_none: "pm_ok s \<Longrightarrow> pm_current s = PM_ACTIVE \<Longrightarrow> pm_suspended s = []"
  by (simp add: pm_ok_def)

lemma pm_suspend_ok:
  assumes "pm_ok s"
  shows "pm_ok (snd (pm_suspend fl t s))"
proof -
  have "pm_ok (s\<lparr>pm_suspended := names,
           pm_current := (case outcome of Inl e \<Rightarrow> pm_after_error e PM_SUSPENDING | Inr _ \<Rightarrow> PM_SUSPENDED)\<rparr>)"
    if "pm_spend fl pr_suspend_cost_s (rev (pm_resources s)) b = (outcome, names)" for b outcome names
    using pm_spend_names [OF that] by (auto simp: pm_ok_def pm_down_order_def pm_after_error_def rev_map split: sum.split)
  then show ?thesis
    using assms unfolding pm_suspend_def pm_ensure_timeout_def and_then_def
    by (auto simp: pm_ok_def [of "s\<lparr>pm_current := PM_SUSPENDING\<rparr>"] pm_active_none split: sum.split prod.split)
qed

lemma pm_resume_ok:
  assumes "pm_ok s"
  shows "pm_ok (snd (pm_resume fl t s))"
proof -
  have "pm_ok (s\<lparr>pm_current := PM_RESUMING\<rparr>) \<and> pm_ok (s\<lparr>pm_current := pm_after_error e PM_RESUMING\<rparr>)"
    if "pm_current s = PM_SUSPENDED" for e
    using assms that by (simp add: pm_ok_def pm_down_order_def pm_after_error_def)
  moreover have "pm_ok (s\<lparr>pm_suspended := [], pm_current := PM_ACTIVE\<rparr>)"
    by (simp add: pm_ok_def)
  ultimately show ?thesis
    using assms unfolding pm_resume_def pm_ensure_timeout_def and_then_def by (auto split: sum.split)
qed

lemma pm_close_ok: "pm_ok s \<Longrightarrow> pm_ok (snd (pm_close s))"
  unfolding pm_close_def by (auto simp: pm_ok_def [of "s\<lparr>pm_suspended := [], pm_current := PM_CLOSED\<rparr>"])

lemma pm_step_ok: "pm_ok s \<Longrightarrow> pm_ok (pm_step fl op s)"
  by (cases op) (simp_all add: pm_suspend_ok pm_resume_ok pm_close_ok)

interpretation pm: machine_invariant "pm_step fl" pm_ok for fl
  by unfold_locales (rule pm_step_ok)

lemma pm_step_resources: "pm_resources (pm_step fl op s) = pm_resources s"
  by (cases op) (auto simp: pm_defs split: sum.split prod.split)

interpretation pm_fixed: machine_invariant "pm_step fl" "\<lambda>s. pm_resources s = rs" for fl rs
  by unfold_locales (simp add: pm_step_resources)

text \<open>A transition that an exception other than \<open>PMError\<close> interrupted is never left.\<close>

definition pm_in_transition :: "power_manager \<Rightarrow> bool" where
  "pm_in_transition s \<longleftrightarrow> pm_current s = PM_SUSPENDING \<or> pm_current s = PM_RESUMING"

lemma pm_step_in_transition: "pm_in_transition s \<Longrightarrow> pm_step fl op s = s"
  by (cases op) (auto simp: pm_defs pm_in_transition_def)

interpretation pm_stuck: machine_invariant "pm_step fl" "\<lambda>s. s = s0 \<and> pm_in_transition s0" for fl s0
  by unfold_locales (auto simp: pm_step_in_transition)

section \<open>The budget\<close>

text \<open>
  The differences the loop computes are doubles: none of them is rounded. This is the case, for
  instance, for costs and budgets that are small multiples of a power of two.
\<close>

fun exact_spend :: "float_ops \<Rightarrow> rat list \<Rightarrow> rat \<Rightarrow> bool" where
  "exact_spend fl [] b \<longleftrightarrow> True"
| "exact_spend fl (c # cs) b \<longleftrightarrow> fl_round fl (b - c) = Some (b - c) \<and> exact_spend fl cs (b - c)"

lemma pm_spend_budget:
  assumes "list_all2 (\<lambda>r c. pm_float fl (cost r) = Inr (Finite c)) rs cs" and "list_all (\<lambda>c. 0 \<le> c) cs"
    and "exact_spend fl cs b" and "0 \<le> b"
  shows "fst (pm_spend fl cost rs (Finite b)) = (if sum_list cs \<le> b then Inr () else Inl PMTimeout)"
  using assms
proof (induction rs cs arbitrary: b rule: list_all2_induct)
  case (Cons r rs c cs)
  have "0 \<le> sum_list cs"
    using Cons.prems by (simp add: list_all_iff sum_list_nonneg)
  moreover have "fst (pm_spend fl cost rs (Finite (b - c))) = (if sum_list cs \<le> b - c then Inr () else Inl PMTimeout)"
    if "c \<le> b"
    using Cons.IH [of "b - c"] Cons.prems that by simp
  ultimately show ?case
    using Cons.hyps Cons.prems
    by (cases "b < c") (auto simp: float_of_rat_def Let_def case_prod_beta algebra_simps not_less)
qed simp

text \<open>
  A budget that is no number passes the check for a positive one, and no cost exceeds it: the deadline is
  not enforced.
\<close>

lemma pm_spend_nan:
  assumes "\<forall>r\<in>set rs. \<exists>c. pm_float fl (cost r) = Inr c"
  shows "pm_spend fl cost rs NaN = (Inr (), map pr_name rs)"
  using assms by (induction rs) auto

lemma nan_budget_is_no_deadline:
  assumes "pm_current s = PM_ACTIVE" and "\<forall>r\<in>set (pm_resources s). \<exists>c. pm_float fl (pr_suspend_cost_s r) = Inr c"
  shows "fst (pm_suspend fl (PyFloat NaN) s) = Inr ()"
  using assms
  by (simp add: pm_defs pm_number_def pm_negative_def pm_zero_def py_less_def pm_float_def [of _ "PyFloat NaN"] pm_spend_nan)

section \<open>Properties\<close>

lemma pm_ok_prefix: "pm_ok s \<Longrightarrow> prefix (pm_suspended s) (pm_down_order s)"
  by (auto simp: pm_ok_def split: pm_state.splits)

lemma pm_suspend_outcome:
  "pm_suspend fl t s = (Inr (), s') \<Longrightarrow> pm_current s = PM_ACTIVE \<and> pm_current s' = PM_SUSPENDED"
  "pm_suspend fl t s = (Inl PMTimeout, s') \<Longrightarrow> pm_current s' = PM_FAULT"
  by (auto simp: pm_defs pm_float_def pm_after_error_def split: if_splits sum.splits prod.splits pyval.splits option.splits)

lemma pm_resume_outcome:
  "pm_resume fl t s = (Inr (), s') \<Longrightarrow> pm_current s = PM_SUSPENDED \<and> pm_current s' = PM_ACTIVE"
  "pm_resume fl t s = (Inl PMTimeout, s') \<Longrightarrow> pm_current s' = PM_FAULT"
  by (auto simp: pm_defs pm_float_def pm_after_error_def split: if_splits sum.splits pyval.splits option.splits)

text \<open>
  C31: The list of suspended resources is right in every reachable state. It is empty while the manager is
  active or closed, the reverse of the registration order while it is suspended, and always a first part
  of that order. A suspension succeeds from the active state only; a resumption succeeds only when every
  resource is down, and leaves none down; a missed deadline ends in the fault state.
\<close>

theorem power_manager_tracks_what_is_down:
  assumes "power_manager_new rs = Inr s0" and "s = fold (pm_step fl) ops s0"
  shows "(pm_current s = PM_ACTIVE \<or> pm_current s = PM_CLOSED \<longrightarrow> pm_suspended s = [])
     \<and> (pm_current s = PM_SUSPENDED \<longrightarrow> pm_suspended s = rev (map pr_name rs))
     \<and> prefix (pm_suspended s) (rev (map pr_name rs))
     \<and> (\<forall>t s'. pm_suspend fl t s = (Inr (), s') \<longrightarrow>
          pm_current s = PM_ACTIVE \<and> pm_suspended s' = rev (map pr_name rs))
     \<and> (\<forall>t s'. pm_resume fl t s = (Inr (), s') \<longrightarrow>
          pm_suspended s = rev (map pr_name rs) \<and> pm_suspended s' = [])
     \<and> (\<forall>t s'. pm_suspend fl t s = (Inl PMTimeout, s') \<or> pm_resume fl t s = (Inl PMTimeout, s') \<longrightarrow>
          pm_current s' = PM_FAULT)"
proof -
  have s0: "pm_ok s0" "pm_resources s0 = rs"
    using assms(1) by (auto simp: power_manager_new_def pm_ok_def Let_def split: if_splits)
  then have ok: "pm_ok s" and rs: "pm_resources s = rs"
    using pm.inv_run pm_fixed.inv_run assms(2) by blast+
  have step: "pm_ok s' \<and> pm_resources s' = rs"
    if "pm_suspend fl t s = (r, s') \<or> pm_resume fl t s = (r, s')" for t r s'
    using that ok rs pm_step_ok [OF ok, of fl "PmSuspend t"] pm_step_ok [OF ok, of fl "PmResume t"]
      pm_step_resources [of fl "PmSuspend t" s] pm_step_resources [of fl "PmResume t" s] by auto
  have order: "pm_down_order s' = rev (map pr_name rs)" if "pm_resources s' = rs" for s'
    using that by (simp add: pm_down_order_def)
  have down: "pm_suspended s' = rev (map pr_name rs)"
    if "pm_ok s'" "pm_resources s' = rs" "pm_current s' = PM_SUSPENDED" for s'
    using that order [of s'] by (simp add: pm_ok_def)
  show ?thesis
  proof (intro conjI allI impI)
    show "pm_suspended s = []" if "pm_current s = PM_ACTIVE \<or> pm_current s = PM_CLOSED"
      using that ok by (auto simp: pm_ok_def)
    show "pm_suspended s = rev (map pr_name rs)" if "pm_current s = PM_SUSPENDED"
      using ok rs that by (rule down)
    show "prefix (pm_suspended s) (rev (map pr_name rs))"
      using pm_ok_prefix [OF ok] order [OF rs] by simp
    fix t s'
    show "pm_current s = PM_ACTIVE" "pm_suspended s' = rev (map pr_name rs)" if "pm_suspend fl t s = (Inr (), s')"
      using pm_suspend_outcome(1) [OF that] down step that by blast+
    show "pm_suspended s = rev (map pr_name rs)" "pm_suspended s' = []" if "pm_resume fl t s = (Inr (), s')"
      using pm_resume_outcome(1) [OF that] down [OF ok rs] pm_active_none step that by blast+
    show "pm_current s' = PM_FAULT" if "pm_suspend fl t s = (Inl PMTimeout, s') \<or> pm_resume fl t s = (Inl PMTimeout, s')"
      using that pm_suspend_outcome(2) pm_resume_outcome(2) by blast
  qed
qed

text \<open>A budget of one second for a bus and a sensor, and doubles of at most a thousand.\<close>

definition bounded_floats :: float_ops where
  "bounded_floats = exact_floats\<lparr>fl_overflows := (\<lambda>q. 1000 < q \<or> q < - 1000)\<rparr>"

definition bus_and_sensor :: "pm_resource list" where
  "bus_and_sensor =
     [\<lparr>pr_name = ''bus'', pr_suspend_cost_s = PyFloat (Finite (1/4)), pr_resume_cost_s = PyInt 2\<rparr>,
      \<lparr>pr_name = ''sensor'', pr_suspend_cost_s = PyFloat (Finite (1/2)), pr_resume_cost_s = PyInt 0\<rparr>]"

definition active_pm :: power_manager where
  "active_pm = \<lparr>pm_resources = bus_and_sensor, pm_current = PM_ACTIVE, pm_suspended = []\<rparr>"

definition suspended_pm :: power_manager where
  "suspended_pm = \<lparr>pm_resources = bus_and_sensor, pm_current = PM_SUSPENDED, pm_suspended = [''sensor'', ''bus'']\<rparr>"

definition faulted_pm :: power_manager where
  "faulted_pm = suspended_pm\<lparr>pm_current := PM_FAULT\<rparr>"

lemma pm_example_new: "power_manager_new bus_and_sensor = Inr active_pm"
  by code_simp

lemma pm_example_run: "suspended_pm = fold (pm_step bounded_floats) [PmSuspend (PyInt 1)] active_pm"
  by code_simp

lemma pm_example_resume: "pm_resume bounded_floats (PyInt 1) suspended_pm = (Inl PMTimeout, faulted_pm)"
  by code_simp

theorem power_manager_tracks_what_is_down_witness:
  "power_manager_new bus_and_sensor = Inr active_pm
   \<and> suspended_pm = fold (pm_step bounded_floats) [PmSuspend (PyInt 1)] active_pm
   \<and> pm_suspended suspended_pm = [''sensor'', ''bus'']
   \<and> pm_resume bounded_floats (PyInt 1) suspended_pm = (Inl PMTimeout, faulted_pm) \<and> pm_current faulted_pm = PM_FAULT"
proof -
  have "pm_suspended suspended_pm = rev (map pr_name bus_and_sensor)" and "pm_current faulted_pm = PM_FAULT"
    using power_manager_tracks_what_is_down [OF pm_example_new pm_example_run] pm_example_resume
    by (simp_all add: suspended_pm_def)
  then show ?thesis
    using pm_example_new pm_example_run pm_example_resume by (simp add: bus_and_sensor_def)
qed

text \<open>
  C40: A budget that no double can hold wedges the manager. The conversion raises \<^verbatim>\<open>OverflowError\<close> after the
  state was set to suspending, and the handler for \<open>PMError\<close> does not see it: no operation leaves that state,
  and closing is refused for ever.
\<close>

theorem oversized_budget_wedges_the_manager:
  assumes "pm_current s = PM_ACTIVE" and "0 < i" and "fl_overflows fl (of_int i)"
  shows "\<exists>s'. pm_suspend fl (PyInt i) s = (Inl PMOverflowError, s') \<and> pm_current s' = PM_SUSPENDING
     \<and> (\<forall>ops. fold (pm_step fl) ops s' = s') \<and> pm_close s' = (Inl PMError, s')"
proof -
  let ?s = "s\<lparr>pm_current := PM_SUSPENDING\<rparr>"
  have "pm_suspend fl (PyInt i) s = (Inl PMOverflowError, ?s)"
    using assms by (simp add: pm_defs pm_number_def pm_negative_def pm_zero_def py_less_def pm_float_def fl_round_def)
  moreover have "fold (pm_step fl) ops ?s = ?s" for ops
    using pm_stuck.inv_run [of ?s ?s fl ops] by (simp add: pm_in_transition_def)
  moreover have "pm_close ?s = (Inl PMError, ?s)"
    by (simp add: pm_close_def)
  ultimately show ?thesis
    by auto
qed

theorem oversized_budget_wedges_the_manager_witness:
  "pm_current active_pm = PM_ACTIVE \<and> fl_overflows bounded_floats (of_int 2000)
   \<and> (\<exists>s'. pm_suspend bounded_floats (PyInt 2000) active_pm = (Inl PMOverflowError, s') \<and> pm_current s' = PM_SUSPENDING
       \<and> (\<forall>ops. fold (pm_step bounded_floats) ops s' = s') \<and> pm_close s' = (Inl PMError, s'))"
proof -
  have "pm_current active_pm = PM_ACTIVE" and "fl_overflows bounded_floats (of_int 2000)"
    by (simp_all add: active_pm_def bounded_floats_def)
  then show ?thesis
    using oversized_budget_wedges_the_manager [of active_pm 2000 bounded_floats] by simp
qed

end
