(* ===== verification/VirtualMcu.thy ===== *)
theory VirtualMcu
  imports Prelude
begin

text \<open>
  The virtual microcontroller of
  \<^verbatim>\<open>firmware/virtual_mcu/workbench_virtual_mcu/state_machine.py\<close> and the logical frames it is spoken to
  with, from \<^verbatim>\<open>libs/contracts/workbench_contracts/models.py\<close>.
\<close>

section \<open>The state machine\<close>

datatype mcu_state = MCU_IDLE | MCU_EXECUTING | MCU_SAFE_STOP | MCU_FAULT

datatype mcu_command_status = MCU_ACCEPTED | MCU_REJECTED

datatype mcu_command_rejection = NON_STRING | EMPTY | MALFORMED | UNKNOWN | INVALID_STATE

record mcu_command_result =
  mr_status :: mcu_command_status
  mr_state :: mcu_state
  mr_reason :: "mcu_command_rejection option"

text \<open>\<^verbatim>\<open>__post_init__\<close>: whether the constructor returns.\<close>

definition command_result_ok :: "mcu_command_result \<Rightarrow> bool" where
  "command_result_ok r \<longleftrightarrow>
     \<not> (mr_status r = MCU_ACCEPTED \<and> mr_reason r \<noteq> None) \<and> \<not> (mr_status r = MCU_REJECTED \<and> mr_reason r = None)"

definition COMMAND_ALLOWED_STATES :: "(string \<times> mcu_state list) list" where
  "COMMAND_ALLOWED_STATES =
     [(''stop'', [MCU_IDLE, MCU_EXECUTING, MCU_SAFE_STOP, MCU_FAULT]),
      (''reset'', [MCU_SAFE_STOP, MCU_FAULT]),
      (''execute'', [MCU_IDLE]),
      (''complete'', [MCU_EXECUTING])]"

record virtual_mcu =
  mcu_state :: mcu_state
  mcu_fault_code :: "string option"

definition init_mcu :: virtual_mcu where
  "init_mcu = \<lparr>mcu_state = MCU_IDLE, mcu_fault_code = None\<rparr>"

definition mcu_reject :: "mcu_command_rejection \<Rightarrow> virtual_mcu \<Rightarrow> mcu_command_result \<times> virtual_mcu" where
  "mcu_reject reason m = (\<lparr>mr_status = MCU_REJECTED, mr_state = mcu_state m, mr_reason = Some reason\<rparr>, m)"

definition mcu_command :: "pyval \<Rightarrow> virtual_mcu \<Rightarrow> mcu_command_result \<times> virtual_mcu" where
  "mcu_command command m =
     (case command of
        PyStr c \<Rightarrow>
          if c = [] then mcu_reject EMPTY m
          else if c \<noteq> py_strip c then mcu_reject MALFORMED m
          else (case map_of COMMAND_ALLOWED_STATES c of
             None \<Rightarrow> mcu_reject UNKNOWN m
           | Some allowed \<Rightarrow>
               if mcu_state m \<notin> set allowed then mcu_reject INVALID_STATE m
               else let m' = (if c = ''stop'' then m\<lparr>mcu_state := MCU_SAFE_STOP\<rparr>
                              else if c = ''reset'' then m\<lparr>mcu_state := MCU_IDLE, mcu_fault_code := None\<rparr>
                              else if c = ''execute'' then m\<lparr>mcu_state := MCU_EXECUTING\<rparr>
                              else if c = ''complete'' then m\<lparr>mcu_state := MCU_IDLE\<rparr>
                              else m)
                    in (\<lparr>mr_status = MCU_ACCEPTED, mr_state = mcu_state m', mr_reason = None\<rparr>, m'))
      | _ \<Rightarrow> mcu_reject NON_STRING m)"

definition watchdog_timeout :: "virtual_mcu \<Rightarrow> mcu_state \<times> virtual_mcu" where
  "watchdog_timeout m =
     (MCU_FAULT, m\<lparr>mcu_state := MCU_FAULT, mcu_fault_code := Some ''WATCHDOG_TIMEOUT''\<rparr>)"

datatype mcu_op = Command pyval | WatchdogTimeout

definition mcu_step :: "mcu_op \<Rightarrow> virtual_mcu \<Rightarrow> virtual_mcu" where
  "mcu_step op m = (case op of Command c \<Rightarrow> snd (mcu_command c m) | WatchdogTimeout \<Rightarrow> snd (watchdog_timeout m))"

section \<open>Frames\<close>

datatype mcu_opcode = OP_MOVE | OP_GRIP_OPEN | OP_GRIP_CLOSE | OP_HOLD | OP_STOP | OP_HEARTBEAT

datatype mcu_fault_code =
    FAULT_NONE | FAULT_ACK_TIMEOUT | FAULT_STOP_TIMEOUT | FAULT_STOP_REJECTED | FAULT_LINK_LOST
  | FAULT_DUPLICATE_FRAME | FAULT_WATCHDOG_EXPIRED | FAULT_MALFORMED_FRAME

datatype mcu_device_mode = MODE_IDLE | MODE_MOVING | MODE_HOLDING | MODE_STOPPED | MODE_FAULTED

record mcu_frame_base =
  fb_protocol_version :: string
  fb_frame_id :: string
  fb_sent_at_us :: int
  fb_clock_id :: string

record mcu_ack =
  fa_result_code :: int
  fa_fault_code :: mcu_fault_code
  fa_device_mode :: mcu_device_mode

text \<open>The five frames; each command carries its id, opcode and retry count, each answer also its result.\<close>

datatype mcu_frame =
    McuCommandFrame mcu_frame_base int mcu_opcode int
  | McuAckFrame mcu_frame_base int mcu_opcode mcu_ack int
  | McuTelemetryFrame mcu_frame_base int mcu_fault_code mcu_device_mode
  | McuStopFrame mcu_frame_base int mcu_opcode int
  | McuStopAckFrame mcu_frame_base int mcu_opcode mcu_ack int

definition between :: "int \<Rightarrow> int \<Rightarrow> int \<Rightarrow> bool" where
  "between lo hi n \<longleftrightarrow> lo \<le> n \<and> n \<le> hi"

definition McuOrdinaryCommandId :: "int \<Rightarrow> bool" where "McuOrdinaryCommandId = between 0 32767"
definition McuStopCommandId :: "int \<Rightarrow> bool" where "McuStopCommandId = between 32768 65535"
definition McuSequenceNo :: "int \<Rightarrow> bool" where "McuSequenceNo = between 0 4294967295"
definition McuRetryCount :: "int \<Rightarrow> bool" where "McuRetryCount = between 0 255"
definition McuMonotonicUs :: "int \<Rightarrow> bool" where "McuMonotonicUs = between 0 18446744073709551615"
definition McuResultCode :: "int \<Rightarrow> bool" where "McuResultCode n \<longleftrightarrow> n = 0 \<or> n = 1"

definition McuOrdinaryOpcode :: "mcu_opcode \<Rightarrow> bool" where
  "McuOrdinaryOpcode c \<longleftrightarrow> c \<in> {OP_MOVE, OP_GRIP_OPEN, OP_GRIP_CLOSE, OP_HOLD, OP_HEARTBEAT}"

definition ascii_alnum :: "char \<Rightarrow> bool" where
  "ascii_alnum c \<longleftrightarrow>
     (let n = (of_char c :: nat) in (48 \<le> n \<and> n \<le> 57) \<or> (65 \<le> n \<and> n \<le> 90) \<or> (97 \<le> n \<and> n \<le> 122))"

definition McuFrameId :: "string \<Rightarrow> bool" where
  "McuFrameId s \<longleftrightarrow>
     11 \<le> length s \<and> length s \<le> 74 \<and> take 10 s = ''mcu-frame-''
     \<and> (case drop 10 s of
          [] \<Rightarrow> False
        | c # cs \<Rightarrow> ascii_alnum c \<and> length cs \<le> 63 \<and> list_all (\<lambda>c. ascii_alnum c \<or> c \<in> set ''._:-'') cs)"

definition frame_base_ok :: "mcu_frame_base \<Rightarrow> bool" where
  "frame_base_ok b \<longleftrightarrow>
     fb_protocol_version b = ''1.0'' \<and> McuFrameId (fb_frame_id b) \<and> McuMonotonicUs (fb_sent_at_us b)
     \<and> fb_clock_id b = ''monotonic''"

definition validate_result :: "mcu_ack \<Rightarrow> bool" where
  "validate_result a \<longleftrightarrow>
     (if fa_result_code a = 0 then fa_fault_code a = FAULT_NONE \<and> fa_device_mode a \<noteq> MODE_FAULTED
      else fa_fault_code a \<in> {FAULT_DUPLICATE_FRAME, FAULT_MALFORMED_FRAME} \<and> fa_device_mode a = MODE_FAULTED)"

definition validate_fault_state :: "mcu_fault_code \<Rightarrow> mcu_device_mode \<Rightarrow> bool" where
  "validate_fault_state fault mode \<longleftrightarrow>
     fault \<in> {FAULT_NONE, FAULT_LINK_LOST, FAULT_WATCHDOG_EXPIRED}
     \<and> \<not> ((fault = FAULT_NONE) = (mode = MODE_FAULTED))"

definition validate_stop_result :: "mcu_ack \<Rightarrow> bool" where
  "validate_stop_result a \<longleftrightarrow>
     (if fa_result_code a = 0 then fa_fault_code a = FAULT_NONE \<and> fa_device_mode a = MODE_STOPPED
      else fa_fault_code a = FAULT_STOP_REJECTED \<and> fa_device_mode a = MODE_FAULTED)"

definition mcu_frame_ok :: "mcu_frame \<Rightarrow> bool" where
  "mcu_frame_ok f =
     (case f of
        McuCommandFrame b i c n \<Rightarrow> frame_base_ok b \<and> McuOrdinaryCommandId i \<and> McuOrdinaryOpcode c \<and> McuRetryCount n
      | McuAckFrame b i c a n \<Rightarrow>
          frame_base_ok b \<and> McuOrdinaryCommandId i \<and> McuOrdinaryOpcode c \<and> McuRetryCount n
          \<and> McuResultCode (fa_result_code a) \<and> validate_result a
      | McuTelemetryFrame b i fault mode \<Rightarrow> frame_base_ok b \<and> McuSequenceNo i \<and> validate_fault_state fault mode
      | McuStopFrame b i c n \<Rightarrow> frame_base_ok b \<and> McuStopCommandId i \<and> c = OP_STOP \<and> McuRetryCount n
      | McuStopAckFrame b i c a n \<Rightarrow>
          frame_base_ok b \<and> McuStopCommandId i \<and> c = OP_STOP \<and> McuRetryCount n
          \<and> McuResultCode (fa_result_code a) \<and> validate_stop_result a)"

section \<open>Lemmas\<close>

text \<open>The four words pass the checks in front of the table.\<close>

lemma mcu_words:
  "w \<in> {''stop'', ''reset'', ''execute'', ''complete''} \<Longrightarrow> w \<noteq> [] \<and> w = py_strip w"
  by (elim insertE emptyE; simp; code_simp)

text \<open>Every command is rejected and changes nothing, or is one of the four words in a state that allows it.\<close>

lemma mcu_command_cases:
  obtains (rejected) reason where "mcu_command c m = mcu_reject reason m"
  | (stop) "c = PyStr ''stop''" "snd (mcu_command c m) = m\<lparr>mcu_state := MCU_SAFE_STOP\<rparr>"
      "mr_status (fst (mcu_command c m)) = MCU_ACCEPTED"
  | (reset) "c = PyStr ''reset''" "snd (mcu_command c m) = m\<lparr>mcu_state := MCU_IDLE, mcu_fault_code := None\<rparr>"
  | (execute) "c = PyStr ''execute''" "mcu_state m = MCU_IDLE" "snd (mcu_command c m) = m\<lparr>mcu_state := MCU_EXECUTING\<rparr>"
  | (complete) "c = PyStr ''complete''" "mcu_state m = MCU_EXECUTING" "snd (mcu_command c m) = m\<lparr>mcu_state := MCU_IDLE\<rparr>"
proof (cases "\<exists>reason. mcu_command c m = mcu_reject reason m")
  case True
  then show thesis using rejected by blast
next
  case False
  then obtain w where c: "c = PyStr w" by (cases c) (auto simp: mcu_command_def)
  then obtain allowed where table: "map_of COMMAND_ALLOWED_STATES w = Some allowed" and "mcu_state m \<in> set allowed"
    using False by (auto simp: mcu_command_def split: if_splits option.splits)
  then have "(w, allowed) \<in> set COMMAND_ALLOWED_STATES" by (auto dest: map_of_SomeD)
  then have w: "w \<in> {''stop'', ''reset'', ''execute'', ''complete''}" by (auto simp: COMMAND_ALLOWED_STATES_def)
  have accepted: "w \<noteq> []" "w = py_strip w" using mcu_words [OF w] by auto
  note facts = c table accepted \<open>mcu_state m \<in> set allowed\<close>
  from w consider "w = ''stop''" | "w = ''reset''" | "w = ''execute''" | "w = ''complete''" by blast
  then show thesis
  proof cases
    case 1
    then show thesis using facts by (intro stop) (auto simp: mcu_command_def)
  next
    case 2
    then show thesis using facts by (intro reset) (auto simp: mcu_command_def)
  next
    case 3
    then show thesis
      using facts by (intro execute) (auto simp: mcu_command_def COMMAND_ALLOWED_STATES_def)
  next
    case 4
    then show thesis
      using facts by (intro complete) (auto simp: mcu_command_def COMMAND_ALLOWED_STATES_def)
  qed
qed

definition mcu_halted :: "virtual_mcu \<Rightarrow> bool" where
  "mcu_halted m \<longleftrightarrow> mcu_state m = MCU_SAFE_STOP \<or> mcu_state m = MCU_FAULT"

lemma mcu_halted_step: "mcu_halted m \<Longrightarrow> op \<noteq> Command (PyStr ''reset'') \<Longrightarrow> mcu_halted (mcu_step op m)"
proof (cases op)
  case (Command c)
  assume "mcu_halted m" and "op \<noteq> Command (PyStr ''reset'')"
  then show ?thesis
    using Command by (cases rule: mcu_command_cases [of c m]) (auto simp: mcu_step_def mcu_halted_def mcu_reject_def)
qed (simp add: mcu_step_def mcu_halted_def watchdog_timeout_def)

lemma mcu_halted_run: "mcu_halted m \<Longrightarrow> Command (PyStr ''reset'') \<notin> set ops \<Longrightarrow> mcu_halted (fold mcu_step ops m)"
proof (induction ops arbitrary: m)
  case (Cons op ops)
  then have "mcu_halted (mcu_step op m)" by (intro mcu_halted_step) auto
  then show ?case using Cons by simp
qed simp

text \<open>A recorded fault belongs to a halted device, and the device in state \<^verbatim>\<open>fault\<close> has one.\<close>

definition mcu_fault_inv :: "virtual_mcu \<Rightarrow> bool" where
  "mcu_fault_inv m \<longleftrightarrow>
     (mcu_fault_code m \<noteq> None \<longrightarrow> mcu_halted m)
     \<and> (mcu_state m = MCU_FAULT \<longrightarrow> mcu_fault_code m = Some ''WATCHDOG_TIMEOUT'')"

interpretation mcu: machine_invariant mcu_step mcu_fault_inv
proof unfold_locales
  fix m op
  assume inv: "mcu_fault_inv m"
  show "mcu_fault_inv (mcu_step op m)"
  proof (cases op)
    case (Command c)
    then show ?thesis
      using inv
      by (cases rule: mcu_command_cases [of c m])
         (auto simp: mcu_step_def mcu_fault_inv_def mcu_halted_def mcu_reject_def)
  qed (simp add: mcu_step_def mcu_fault_inv_def mcu_halted_def watchdog_timeout_def)
qed

lemma mcu_stop_result:
  "mcu_command (PyStr ''stop'') m =
     (\<lparr>mr_status = MCU_ACCEPTED, mr_state = MCU_SAFE_STOP, mr_reason = None\<rparr>, m\<lparr>mcu_state := MCU_SAFE_STOP\<rparr>)"
proof -
  have "py_strip ''stop'' = ''stop''" by code_simp
  then show ?thesis
    by (cases "mcu_state m") (simp_all add: mcu_command_def COMMAND_ALLOWED_STATES_def)
qed

section \<open>Properties\<close>

text \<open>
  C16: stop always works and latches. In every reachable state the command \<^verbatim>\<open>stop\<close> is accepted and leads
  to \<^verbatim>\<open>safe_stop\<close>; after it, and after a watchdog time-out, whatever commands and time-outs follow, the
  device stays in \<^verbatim>\<open>safe_stop\<close> or \<^verbatim>\<open>fault\<close> until the command \<^verbatim>\<open>reset\<close>; and a recorded fault code is only
  there while the device is in one of these two states.
\<close>

theorem mcu_stop_latches_until_reset:
  assumes "m = fold mcu_step earlier init_mcu" and "Command (PyStr ''reset'') \<notin> set ops"
  shows "fst (mcu_command (PyStr ''stop'') m) = \<lparr>mr_status = MCU_ACCEPTED, mr_state = MCU_SAFE_STOP, mr_reason = None\<rparr>
     \<and> mcu_halted (fold mcu_step ops (snd (mcu_command (PyStr ''stop'') m)))
     \<and> mcu_halted (fold mcu_step ops (snd (watchdog_timeout m)))
     \<and> (mcu_fault_code m = None \<or> mcu_halted m)"
proof (intro conjI)
  have "mcu_fault_inv m"
    unfolding assms(1) by (rule mcu.inv_run) (simp add: mcu_fault_inv_def init_mcu_def)
  then show "mcu_fault_code m = None \<or> mcu_halted m" by (auto simp: mcu_fault_inv_def)
  show "mcu_halted (fold mcu_step ops (snd (mcu_command (PyStr ''stop'') m)))"
    by (rule mcu_halted_run) (use assms(2) in \<open>simp_all add: mcu_stop_result mcu_halted_def\<close>)
  show "mcu_halted (fold mcu_step ops (snd (watchdog_timeout m)))"
    by (rule mcu_halted_run) (use assms(2) in \<open>simp_all add: watchdog_timeout_def mcu_halted_def\<close>)
qed (simp add: mcu_stop_result)

text \<open>The answer a frame carries: its result code, if it has one, its fault and its mode.\<close>

definition frame_answer :: "mcu_frame \<Rightarrow> (int option \<times> mcu_fault_code \<times> mcu_device_mode) option" where
  "frame_answer f =
     (case f of
        McuAckFrame b i c a n \<Rightarrow> Some (Some (fa_result_code a), fa_fault_code a, fa_device_mode a)
      | McuTelemetryFrame b i fault mode \<Rightarrow> Some (None, fault, mode)
      | McuStopAckFrame b i c a n \<Rightarrow> Some (Some (fa_result_code a), fa_fault_code a, fa_device_mode a)
      | _ \<Rightarrow> None)"

definition frame_command_id :: "mcu_frame \<Rightarrow> int option" where
  "frame_command_id f =
     (case f of
        McuCommandFrame b i c n \<Rightarrow> Some i
      | McuAckFrame b i c a n \<Rightarrow> Some i
      | McuStopFrame b i c n \<Rightarrow> Some i
      | McuStopAckFrame b i c a n \<Rightarrow> Some i
      | McuTelemetryFrame b i fault mode \<Rightarrow> None)"

definition concerns_stop :: "mcu_frame \<Rightarrow> bool" where
  "concerns_stop f = (case f of McuStopFrame b i c n \<Rightarrow> True | McuStopAckFrame b i c a n \<Rightarrow> True | _ \<Rightarrow> False)"

text \<open>
  C39: an accepted frame cannot mislead. In a frame that passes validation the mode is \<^verbatim>\<open>faulted\<close> exactly
  when a fault is named, a result code of zero exactly when none is, a successful stop answer says
  that the device is stopped, and the id of a STOP and of its answer is the id of no ordinary command.
\<close>

theorem mcu_frames_are_consistent:
  assumes "mcu_frame_ok f" and "mcu_frame_ok g"
  shows "(\<forall>result fault mode. frame_answer f = Some (result, fault, mode) \<longrightarrow>
            (mode = MODE_FAULTED \<longleftrightarrow> fault \<noteq> FAULT_NONE)
            \<and> (\<forall>r. result = Some r \<longrightarrow> (r = 0 \<longleftrightarrow> fault = FAULT_NONE))
            \<and> (concerns_stop f \<longrightarrow> result = Some 0 \<longrightarrow> mode = MODE_STOPPED))
         \<and> (concerns_stop f \<and> \<not> concerns_stop g \<and> frame_command_id g \<noteq> None \<longrightarrow> frame_command_id f \<noteq> frame_command_id g)"
proof
  show "\<forall>result fault mode. frame_answer f = Some (result, fault, mode) \<longrightarrow>
            (mode = MODE_FAULTED \<longleftrightarrow> fault \<noteq> FAULT_NONE)
            \<and> (\<forall>r. result = Some r \<longrightarrow> (r = 0 \<longleftrightarrow> fault = FAULT_NONE))
            \<and> (concerns_stop f \<longrightarrow> result = Some 0 \<longrightarrow> mode = MODE_STOPPED)"
    using assms(1)
    by (cases f) (auto simp: mcu_frame_ok_def frame_answer_def concerns_stop_def validate_result_def
        validate_fault_state_def validate_stop_result_def split: if_splits)
  show "concerns_stop f \<and> \<not> concerns_stop g \<and> frame_command_id g \<noteq> None \<longrightarrow> frame_command_id f \<noteq> frame_command_id g"
    using assms
    by (cases f; cases g)
       (simp_all add: mcu_frame_ok_def frame_command_id_def concerns_stop_def McuOrdinaryCommandId_def
          McuStopCommandId_def between_def)
qed

section \<open>Concrete devices and frames\<close>

theorem mcu_stop_latches_until_reset_witness:
  "mcu_state (fold mcu_step [Command (PyStr ''execute'')] init_mcu) = MCU_EXECUTING
   \<and> mcu_halted (fold mcu_step [Command (PyStr ''execute''), WatchdogTimeout, Command (PyStr ''complete'')]
        (snd (mcu_command (PyStr ''stop'') (fold mcu_step [Command (PyStr ''execute'')] init_mcu))))"
proof
  show "mcu_state (fold mcu_step [Command (PyStr ''execute'')] init_mcu) = MCU_EXECUTING" by code_simp
  have "Command (PyStr ''reset'') \<notin> set [Command (PyStr ''execute''), WatchdogTimeout, Command (PyStr ''complete'')]"
    by simp
  from mcu_stop_latches_until_reset [OF refl this, of "[Command (PyStr ''execute'')]"]
  show "mcu_halted (fold mcu_step [Command (PyStr ''execute''), WatchdogTimeout, Command (PyStr ''complete'')]
        (snd (mcu_command (PyStr ''stop'') (fold mcu_step [Command (PyStr ''execute'')] init_mcu))))" by blast
qed

definition demo_base :: mcu_frame_base where
  "demo_base =
     \<lparr>fb_protocol_version = ''1.0'', fb_frame_id = ''mcu-frame-a1'', fb_sent_at_us = 7, fb_clock_id = ''monotonic''\<rparr>"

definition demo_stop_ack :: mcu_frame where
  "demo_stop_ack = McuStopAckFrame demo_base 40000 OP_STOP
     \<lparr>fa_result_code = 0, fa_fault_code = FAULT_NONE, fa_device_mode = MODE_STOPPED\<rparr> 0"

definition demo_command :: mcu_frame where
  "demo_command = McuCommandFrame demo_base 12 OP_MOVE 0"

theorem mcu_frames_are_consistent_witness:
  "mcu_frame_ok demo_stop_ack \<and> mcu_frame_ok demo_command
   \<and> frame_command_id demo_stop_ack \<noteq> frame_command_id demo_command"
proof -
  have ok: "mcu_frame_ok demo_stop_ack" "mcu_frame_ok demo_command" by code_simp+
  have kinds: "concerns_stop demo_stop_ack" "\<not> concerns_stop demo_command" "frame_command_id demo_command \<noteq> None"
    by code_simp+
  show ?thesis using mcu_frames_are_consistent [OF ok] ok kinds by blast
qed

end
