(* ===== verification/Contracts.thy ===== *)
theory Contracts
  imports Prelude
begin

text \<open>
  The runtime contracts of \<^verbatim>\<open>libs/contracts/workbench_contracts/models.py\<close> that the agent runtime
  works on: semantic actions, their results, task graphs and verification results, each with the
  validator the source attaches to its model. The library that builds the models from JSON checks
  the declared field types before a validator runs; the records below have those types.
\<close>

datatype action_type =
    OBSERVE | GRASP | PLACE | ASK_CONFIRM | EXPRESS | STOP | NAVIGATE | OPEN | CLOSE

record semantic_action =
  sa_action_id :: string
  sa_action_type :: action_type
  sa_target_id :: "string option"
  sa_parameters :: "(string \<times> pyval) list"

text \<open>\<^verbatim>\<open>isinstance(target_id, str) and target_id.strip()\<close>\<close>

definition has_target :: "semantic_action \<Rightarrow> bool" where
  "has_target a \<longleftrightarrow> (case sa_target_id a of None \<Rightarrow> False | Some t \<Rightarrow> \<not> py_blank t)"

definition validate_bounded_action_boundary :: "semantic_action \<Rightarrow> bool" where
  "validate_bounded_action_boundary a \<longleftrightarrow>
     (if sa_action_type a = NAVIGATE
      then has_target a \<and> sa_parameters a = []
      else if sa_action_type a = OPEN \<or> sa_action_type a = CLOSE
      then has_target a \<and> sa_parameters a = []
      else True)"

datatype action_outcome =
    OUTCOME_COMPLETED | OUTCOME_FAILED | OUTCOME_CANCELED | OUTCOME_SAFE_STOP | OUTCOME_TIMEOUT

datatype dispatch_state = NOT_SENT | SENT | SEND_FAILED

datatype device_state = UNCONFIRMED | CONFIRMED | REJECTED | DEVICE_STOPPED

datatype clock_id = MONOTONIC | WALL

record action_result =
  ar_result_id :: string
  ar_action_id :: string
  ar_run_id :: string
  ar_outcome :: action_outcome
  ar_dispatch_state :: dispatch_state
  ar_device_state :: device_state
  ar_error_code :: "int option"
  ar_error_reason :: "string option"
  ar_started_at :: string
  ar_ended_at :: string
  ar_clock_id :: clock_id
  ar_retry_count :: int
  ar_entity_id :: "string option"
  ar_resulting_location :: "string option"
  ar_evidence_refs :: "string list"

definition validate_completion_state :: "action_result \<Rightarrow> bool" where
  "validate_completion_state r \<longleftrightarrow>
     \<not> (ar_outcome r = OUTCOME_COMPLETED
        \<and> (ar_dispatch_state r \<noteq> SENT \<or> ar_device_state r \<noteq> CONFIRMED))"

record task_step =
  ts_step_id :: string
  ts_action :: semantic_action
  ts_depends_on :: "string list"

record task_graph =
  tg_task_id :: string
  tg_goal :: string
  tg_steps :: "task_step list"
  tg_planner :: string
  tg_model_route :: string

text \<open>
  What it takes for a graph to be a model instance: at least one step, and every action within its
  boundary.
\<close>

definition task_graph_valid :: "task_graph \<Rightarrow> bool" where
  "task_graph_valid g \<longleftrightarrow>
     tg_steps g \<noteq> [] \<and> (\<forall>s\<in>set (tg_steps g). validate_bounded_action_boundary (ts_action s))"

abbreviation step_action_id :: "task_step \<Rightarrow> string" where
  "step_action_id s \<equiv> sa_action_id (ts_action s)"

end
