(* ===== verification/ToolRegistry.thy ===== *)
theory ToolRegistry
  imports Contracts
begin

text \<open>
  The tool registry of \<^verbatim>\<open>services/agent_runtime/workbench_agent_runtime/tool_registry.py\<close> and the
  schemas of \<^verbatim>\<open>tool_schemas.py\<close>.

  A schema is the untyped mapping the caller passes to \<^verbatim>\<open>register\<close>; mappings have string keys. The
  exceptions that reading a schema could raise inside \<^verbatim>\<open>validate\<close> are outcomes of the model, so that
  it is a theorem, not an assumption, that a registered schema never raises them. Error messages
  are reduced to codes, kept with the field they name. An action has the types of its contract, so
  the guards against an action type or parameters of another type have no branch.
\<close>

type_synonym schema = "(string \<times> pyval) list"

datatype schema_error =
    AlreadyRegistered
  | SchemaKeysMissing
  | SchemaKeysUnknown
  | DescriptionNotString
  | TargetFlagNotBool
  | ParamSetNotSet
  | ParamSetNotStrings
  | ParamSetsOverlap
  | ParamTypesNotMapping
  | ParamTypesMissing
  | ParamTypesUnknown
  | ParamTypesUnsupported
  | ConstraintsNotMapping
  | ConstraintsUnknownParam
  | RulesNotMapping
  | RulesUnknown
  | FlagNotTrue
  | NonBlankNeedsString
  | NumericNeedsNumber
  | BoundNotFinite
  | MinimumExceedsMaximum
  | RelationsUnsupported
  | RelationNeedsParams
  | RelationNeedsInts

datatype field_error =
    ActionTypeUnknown
  | TargetRequired
  | KeysForbidden
  | KeysMissing
  | WrongType
  | MustBeNonBlank
  | MustBeFinite
  | BelowMinimum
  | AboveMaximum
  | CountsIncomplete
  | CountsInconsistent
  | EmotionInvalid
  | AttributesUnknown
  | AttributesNotStrings

datatype py_exception = KeyError | TypeError

type_synonym validation_error = "string \<times> field_error"

record validation_result =
  vr_is_valid :: bool
  vr_action_id :: string
  vr_errors :: "validation_error list"

definition vr_ok :: "string \<Rightarrow> validation_result" where
  "vr_ok action_id = \<lparr>vr_is_valid = True, vr_action_id = action_id, vr_errors = []\<rparr>"

definition vr_fail :: "string \<Rightarrow> validation_error list \<Rightarrow> validation_result" where
  "vr_fail action_id errors =
     \<lparr>vr_is_valid = False, vr_action_id = action_id, vr_errors = errors\<rparr>"

section \<open>Schemas\<close>

definition SCHEMA_KEYS :: "string list" where
  "SCHEMA_KEYS =
     [''description'', ''target_id_required'', ''required_params'', ''optional_params'',
      ''param_types'', ''param_constraints'', ''relational_constraints'']"

definition SUPPORTED_PARAM_TYPES :: "pyval list" where
  "SUPPORTED_PARAM_TYPES =
     [PyType ''str'', PyType ''int'', PyType ''float'', PyType ''bool'', PyType ''list'']"

definition CONSTRAINT_KEYS :: "string list" where
  "CONSTRAINT_KEYS = [''non_blank'', ''finite'', ''minimum'', ''maximum'']"

definition DESTINATION_COUNTS_CONSISTENT :: string where
  "DESTINATION_COUNTS_CONSISTENT = ''destination_counts_consistent''"

definition DESTINATION_COUNT_PARAMS :: "string list" where
  "DESTINATION_COUNT_PARAMS =
     [''destination_capacity'', ''destination_occupancy_after'', ''destination_remaining_after'']"

text \<open>\<^verbatim>\<open>_freeze_value\<close>: lists become tuples, at every depth.\<close>

primrec freeze_value :: "pyval \<Rightarrow> pyval" where
  "freeze_value PyNone = PyNone"
| "freeze_value (PyBool b) = PyBool b"
| "freeze_value (PyInt i) = PyInt i"
| "freeze_value (PyFloat f) = PyFloat f"
| "freeze_value (PyStr s) = PyStr s"
| "freeze_value (PyList xs) = PyTuple (map freeze_value xs)"
| "freeze_value (PyTuple xs) = PyTuple (map freeze_value xs)"
| "freeze_value (PySet xs) = PySet (map freeze_value xs)"
| "freeze_value (PyDict d) = PyDict (map (map_prod id freeze_value) d)"
| "freeze_value (PyType c) = PyType c"
| "freeze_value (PyObj c) = PyObj c"

definition freeze_mapping :: "schema \<Rightarrow> schema" where
  "freeze_mapping d = map (map_prod id freeze_value) d"

definition is_finite_number :: "pyval \<Rightarrow> bool" where
  "is_finite_number v \<longleftrightarrow>
     (case v of PyInt _ \<Rightarrow> True | PyBool _ \<Rightarrow> True | PyFloat (Finite _) \<Rightarrow> True | _ \<Rightarrow> False)"

fun py_string :: "pyval \<Rightarrow> string option" where
  "py_string (PyStr s) = Some s"
| "py_string _ = None"

definition validate_param_set :: "pyval \<Rightarrow> schema_error + string list" where
  "validate_param_set v =
     (case v of
        PySet xs \<Rightarrow>
          if \<exists>x\<in>set xs. py_string x = None then Inl ParamSetNotStrings
          else Inr (map (the \<circ> py_string) xs)
      | _ \<Rightarrow> Inl ParamSetNotSet)"

text \<open>A bound of a constraint: a number, not a Boolean, and finite.\<close>

definition bound_ok :: "pyval \<Rightarrow> bool" where
  "bound_ok v \<longleftrightarrow>
     (case v of PyInt _ \<Rightarrow> True | PyFloat _ \<Rightarrow> True | _ \<Rightarrow> False) \<and> is_finite_number v"

definition validate_rules :: "(string \<times> pyval) list \<Rightarrow> string \<times> pyval \<Rightarrow> schema_error + unit" where
  "validate_rules param_types nr =
     (case snd nr of
        PyDict rules \<Rightarrow>
          let has = (\<lambda>k. map_of rules k \<noteq> None); expected = map_of param_types (fst nr) in
          require (\<forall>k\<in>set (map fst rules). k \<in> set CONSTRAINT_KEYS) RulesUnknown
          (require (\<forall>flag\<in>{''non_blank'', ''finite''}.
                      has flag \<longrightarrow> map_of rules flag = Some (PyBool True)) FlagNotTrue
          (require (has ''non_blank'' \<longrightarrow> expected = Some (PyType ''str'')) NonBlankNeedsString
          (require (has ''finite'' \<or> has ''minimum'' \<or> has ''maximum'' \<longrightarrow>
                      expected = Some (PyType ''int'') \<or> expected = Some (PyType ''float''))
                   NumericNeedsNumber
          (require (\<forall>b\<in>{''minimum'', ''maximum''}.
                      case map_of rules b of None \<Rightarrow> True | Some v \<Rightarrow> bound_ok v)
                   BoundNotFinite
          (require (case (map_of rules ''minimum'', map_of rules ''maximum'') of
                      (Some lo, Some hi) \<Rightarrow> py_less hi lo \<noteq> Some True | _ \<Rightarrow> True)
                   MinimumExceedsMaximum
          (Inr ()))))))
      | _ \<Rightarrow> Inl RulesNotMapping)"

definition validate_param_constraints ::
    "pyval \<Rightarrow> string list \<Rightarrow> (string \<times> pyval) list \<Rightarrow> schema_error + unit" where
  "validate_param_constraints constraints allowed param_types =
     (case constraints of
        PyDict cs \<Rightarrow>
          require (set (map fst cs) \<subseteq> set allowed) ConstraintsUnknownParam
            (for_each (validate_rules param_types) cs)
      | _ \<Rightarrow> Inl ConstraintsNotMapping)"

definition validate_relations ::
    "string list \<Rightarrow> string list \<Rightarrow> (string \<times> pyval) list \<Rightarrow> schema_error + unit" where
  "validate_relations relations allowed param_types =
     require (set relations \<subseteq> {DESTINATION_COUNTS_CONSISTENT}) RelationsUnsupported
     (if DESTINATION_COUNTS_CONSISTENT \<in> set relations then
        require (set DESTINATION_COUNT_PARAMS \<subseteq> set allowed) RelationNeedsParams
        (require (\<forall>n\<in>set DESTINATION_COUNT_PARAMS. map_of param_types n = Some (PyType ''int''))
                 RelationNeedsInts
        (Inr ()))
      else Inr ())"

text \<open>The keys are checked first, so the lookups below cannot fail.\<close>

definition schema_item :: "schema \<Rightarrow> string \<Rightarrow> pyval" where
  "schema_item s k = py_get s k PyNone"

definition validate_schema :: "schema \<Rightarrow> schema_error + unit" where
  "validate_schema s =
     require (set SCHEMA_KEYS \<subseteq> set (map fst s)) SchemaKeysMissing
     (require (set (map fst s) \<subseteq> set SCHEMA_KEYS) SchemaKeysUnknown
     (require (py_string (schema_item s ''description'') \<noteq> None) DescriptionNotString
     (require (case schema_item s ''target_id_required'' of PyBool _ \<Rightarrow> True | _ \<Rightarrow> False)
              TargetFlagNotBool
     (and_try (validate_param_set (schema_item s ''required_params'')) (\<lambda>required.
      and_try (validate_param_set (schema_item s ''optional_params'')) (\<lambda>optional.
      require (set required \<inter> set optional = {}) ParamSetsOverlap
      (case schema_item s ''param_types'' of
         PyDict param_types \<Rightarrow>
           let allowed = required @ optional; declared = map fst param_types in
           require (set allowed \<subseteq> set declared) ParamTypesMissing
           (require (set declared \<subseteq> set allowed) ParamTypesUnknown
           (require (\<forall>t\<in>set (map snd param_types). t \<in> set SUPPORTED_PARAM_TYPES)
                    ParamTypesUnsupported
           (and_try (validate_param_constraints (schema_item s ''param_constraints'') allowed param_types)
             (\<lambda>_. and_try (validate_param_set (schema_item s ''relational_constraints''))
               (\<lambda>relations. validate_relations relations allowed param_types)))))
       | _ \<Rightarrow> Inl ParamTypesNotMapping)))))))"

section \<open>The registry\<close>

type_synonym registry = "(action_type \<times> schema) list"

definition register :: "action_type \<Rightarrow> schema \<Rightarrow> registry \<Rightarrow> schema_error + registry" where
  "register action_type schema reg =
     require (map_of reg action_type = None) AlreadyRegistered
       (let frozen = freeze_mapping schema in
        and_try (validate_schema frozen) (\<lambda>_. Inr (reg @ [(action_type, frozen)])))"

definition get_schema :: "registry \<Rightarrow> action_type \<Rightarrow> py_exception + schema" where
  "get_schema reg t = (case map_of reg t of None \<Rightarrow> Inl KeyError | Some s \<Rightarrow> Inr s)"

definition list_all_tools :: "registry \<Rightarrow> action_type list" where
  "list_all_tools reg = map fst reg"

text \<open>Reading an entry of a schema that must be a set or a mapping.\<close>

definition schema_set :: "schema \<Rightarrow> string \<Rightarrow> py_exception + pyval list" where
  "schema_set s k =
     (case map_of s k of
        None \<Rightarrow> Inl KeyError
      | Some v \<Rightarrow> (case v of PySet xs \<Rightarrow> Inr xs | _ \<Rightarrow> Inl TypeError))"

definition schema_dict :: "schema \<Rightarrow> string \<Rightarrow> py_exception + (string \<times> pyval) list" where
  "schema_dict s k =
     (case map_of s k of
        None \<Rightarrow> Inl KeyError
      | Some v \<Rightarrow> (case v of PyDict d \<Rightarrow> Inr d | _ \<Rightarrow> Inl TypeError))"

definition required_params :: "registry \<Rightarrow> action_type \<Rightarrow> py_exception + pyval list" where
  "required_params reg t = and_try (get_schema reg t) (\<lambda>s. schema_set s ''required_params'')"

definition optional_params :: "registry \<Rightarrow> action_type \<Rightarrow> py_exception + pyval list" where
  "optional_params reg t = and_try (get_schema reg t) (\<lambda>s. schema_set s ''optional_params'')"

definition allowed_params :: "registry \<Rightarrow> action_type \<Rightarrow> py_exception + pyval list" where
  "allowed_params reg t =
     and_try (required_params reg t) (\<lambda>r. and_try (optional_params reg t) (\<lambda>opt. Inr (r @ opt)))"

section \<open>Validation\<close>

definition EXPRESS_EMOTION_STATES :: "string list" where
  "EXPRESS_EMOTION_STATES = [''idle'', ''thinking'', ''uncertain'', ''pleased'']"

definition KNOWN_OBSERVE_ATTRIBUTES :: "string list" where
  "KNOWN_OBSERVE_ATTRIBUTES =
     [''presence'', ''identity'', ''orientation'', ''label_status'', ''condition'',
      ''tracking_id'', ''barcode'', ''parcel_uid'']"

definition param_field :: "string \<Rightarrow> string" where
  "param_field k = ''parameters.'' @ k"

text \<open>
  Whether a value has the declared type. The last case is the fallback \<^verbatim>\<open>isinstance\<close>: of an instance
  of another class only the class name is known.
\<close>

definition has_type :: "pyval \<Rightarrow> string \<Rightarrow> bool" where
  "has_type v t \<longleftrightarrow>
     (if t = ''bool'' then (case v of PyBool _ \<Rightarrow> True | _ \<Rightarrow> False)
      else if t = ''int'' then (case v of PyInt _ \<Rightarrow> True | _ \<Rightarrow> False)
      else if t = ''float'' then (case v of PyInt _ \<Rightarrow> True | PyFloat _ \<Rightarrow> True | _ \<Rightarrow> False)
      else if t = ''str'' then (case v of PyStr _ \<Rightarrow> True | _ \<Rightarrow> False)
      else if t = ''list'' then (case v of PyList _ \<Rightarrow> True | _ \<Rightarrow> False)
      else v = PyObj t)"

definition check_type ::
    "(string \<times> pyval) list \<Rightarrow> string \<times> pyval \<Rightarrow> py_exception + validation_error list" where
  "check_type param_types kv =
     (case map_of param_types (fst kv) of
        None \<Rightarrow> Inr []
      | Some PyNone \<Rightarrow> Inr []
      | Some (PyType t) \<Rightarrow>
          Inr (if has_type (snd kv) t then [] else [(param_field (fst kv), WrongType)])
      | Some _ \<Rightarrow> Inl TypeError)"

text \<open>\<^verbatim>\<open>name in rules and value < rules[name]\<close>, and the same for the maximum.\<close>

definition check_minimum :: "(string \<times> pyval) list \<Rightarrow> pyval \<Rightarrow> py_exception + field_error list" where
  "check_minimum rules v =
     (case map_of rules ''minimum'' of
        None \<Rightarrow> Inr []
      | Some b \<Rightarrow> (case py_less v b of
           None \<Rightarrow> Inl TypeError | Some below \<Rightarrow> Inr (if below then [BelowMinimum] else [])))"

definition check_maximum :: "(string \<times> pyval) list \<Rightarrow> pyval \<Rightarrow> py_exception + field_error list" where
  "check_maximum rules v =
     (case map_of rules ''maximum'' of
        None \<Rightarrow> Inr []
      | Some b \<Rightarrow> (case py_less b v of
           None \<Rightarrow> Inl TypeError | Some over \<Rightarrow> Inr (if over then [AboveMaximum] else [])))"

definition check_rules :: "(string \<times> pyval) list \<Rightarrow> pyval \<Rightarrow> py_exception + field_error list" where
  "check_rules rules v =
     (let blank = (if py_truthy (py_get rules ''non_blank'' PyNone)
                      \<and> (case v of PyStr s \<Rightarrow> py_blank s | _ \<Rightarrow> False)
                   then [MustBeNonBlank] else [])
      in if py_truthy (py_get rules ''finite'' PyNone)
            \<and> (case v of PyInt _ \<Rightarrow> True | PyBool _ \<Rightarrow> True | PyFloat _ \<Rightarrow> True | _ \<Rightarrow> False)
            \<and> \<not> is_finite_number v
         then Inr (blank @ [MustBeFinite])
         else and_try (check_minimum rules v) (\<lambda>lo.
              and_try (check_maximum rules v) (\<lambda>hi. Inr (blank @ lo @ hi))))"

definition check_constraint ::
    "(string \<times> pyval) list \<Rightarrow> string \<times> pyval \<Rightarrow> py_exception + validation_error list" where
  "check_constraint params nr =
     (case map_of params (fst nr) of
        None \<Rightarrow> Inr []
      | Some v \<Rightarrow>
          (case snd nr of
             PyDict rules \<Rightarrow>
               and_try (check_rules rules v) (\<lambda>es. Inr (map (Pair (param_field (fst nr))) es))
           | _ \<Rightarrow> Inl TypeError))"

text \<open>The counts are declared integers, so only integers are added.\<close>

definition check_relations ::
    "(string \<times> pyval) list \<Rightarrow> pyval list \<Rightarrow> py_exception + validation_error list" where
  "check_relations params relations =
     (if PyStr DESTINATION_COUNTS_CONSISTENT \<in> set relations
         \<and> (\<exists>n\<in>set DESTINATION_COUNT_PARAMS. map_of params n \<noteq> None)
      then if \<exists>n\<in>set DESTINATION_COUNT_PARAMS. map_of params n = None
           then Inr [(''parameters'', CountsIncomplete)]
           else (case (map_of params ''destination_capacity'',
                       map_of params ''destination_occupancy_after'',
                       map_of params ''destination_remaining_after'') of
                   (Some (PyInt c), Some (PyInt occ), Some (PyInt r)) \<Rightarrow>
                     Inr (if c \<noteq> occ + r then [(''parameters'', CountsInconsistent)] else [])
                 | _ \<Rightarrow> Inl TypeError)
      else Inr [])"

definition check_semantics :: "semantic_action \<Rightarrow> validation_error list" where
  "check_semantics a =
     (if sa_action_type a = EXPRESS
      then (case map_of (sa_parameters a) ''emotion_state'' of
              Some (PyStr e) \<Rightarrow>
                if e \<in> set EXPRESS_EMOTION_STATES then []
                else [(param_field ''emotion_state'', EmotionInvalid)]
            | _ \<Rightarrow> [])
      else [])
     @ (if sa_action_type a = OBSERVE
        then (case map_of (sa_parameters a) ''attributes'' of
                Some (PyList xs) \<Rightarrow>
                  (if \<exists>x\<in>set xs. case py_string x of
                        None \<Rightarrow> True | Some s \<Rightarrow> s \<notin> set KNOWN_OBSERVE_ATTRIBUTES
                   then [(param_field ''attributes'', AttributesUnknown)] else [])
                  @ (if \<exists>x\<in>set xs. py_string x = None
                     then [(param_field ''attributes'', AttributesNotStrings)] else [])
              | _ \<Rightarrow> [])
        else [])"

text \<open>Layers two and three: the target and the set of fields.\<close>

definition check_fields :: "bool \<Rightarrow> pyval list \<Rightarrow> pyval list \<Rightarrow> semantic_action \<Rightarrow> validation_error list" where
  "check_fields target_required required allowed a =
     (let keys = map (PyStr \<circ> fst) (sa_parameters a) in
      (if target_required \<and> \<not> has_target a then [(''target_id'', TargetRequired)] else [])
      @ (if \<exists>k\<in>set keys. k \<notin> set allowed then [(''parameters'', KeysForbidden)] else [])
      @ (if \<exists>k\<in>set required. k \<notin> set keys then [(''parameters'', KeysMissing)] else []))"

text \<open>Layers four to six, on parameters whose fields are right.\<close>

definition check_values ::
    "schema \<Rightarrow> (string \<times> pyval) list \<Rightarrow> semantic_action \<Rightarrow> py_exception + validation_result" where
  "check_values schema param_types a =
     and_try (gather (check_type param_types) (sa_parameters a)) (\<lambda>type_errors.
       if type_errors \<noteq> [] then Inr (vr_fail (sa_action_id a) type_errors)
       else and_try (schema_dict schema ''param_constraints'') (\<lambda>constraints.
            and_try (gather (check_constraint (sa_parameters a)) constraints) (\<lambda>value_errors.
            and_try (schema_set schema ''relational_constraints'') (\<lambda>relations.
            and_try (check_relations (sa_parameters a) relations) (\<lambda>relation_errors.
              let errors = value_errors @ relation_errors @ check_semantics a in
              if errors \<noteq> [] then Inr (vr_fail (sa_action_id a) errors)
              else Inr (vr_ok (sa_action_id a)))))))"

definition validate_action :: "registry \<Rightarrow> semantic_action \<Rightarrow> py_exception + validation_result" where
  "validate_action reg a =
     (case map_of reg (sa_action_type a) of
        None \<Rightarrow> Inr (vr_fail (sa_action_id a) [(''action_type'', ActionTypeUnknown)])
      | Some schema \<Rightarrow>
          and_try (schema_set schema ''required_params'') (\<lambda>required.
          and_try (schema_set schema ''optional_params'') (\<lambda>optional.
          and_try (schema_dict schema ''param_types'') (\<lambda>param_types.
            let target_required = py_truthy (py_get schema ''target_id_required'' (PyBool False));
                errors = check_fields target_required required (required @ optional) a
            in if errors \<noteq> [] then Inr (vr_fail (sa_action_id a) errors)
               else check_values schema param_types a))))"

section \<open>The nine tools\<close>

text \<open>The descriptions are documentation; here they are the empty string.\<close>

definition tool_schema ::
    "bool \<Rightarrow> string list \<Rightarrow> string list \<Rightarrow> (string \<times> string) list
     \<Rightarrow> (string \<times> (string \<times> pyval) list) list \<Rightarrow> string list \<Rightarrow> schema" where
  "tool_schema target required optional types constraints relations =
     [(''description'', PyStr []),
      (''target_id_required'', PyBool target),
      (''required_params'', PySet (map PyStr required)),
      (''optional_params'', PySet (map PyStr optional)),
      (''param_types'', PyDict (map (map_prod id PyType) types)),
      (''param_constraints'', PyDict (map (map_prod id PyDict) constraints)),
      (''relational_constraints'', PySet (map PyStr relations))]"

definition non_blank_rule :: "(string \<times> pyval) list" where
  "non_blank_rule = [(''non_blank'', PyBool True)]"

definition count_rule :: "(string \<times> pyval) list" where
  "count_rule = [(''minimum'', PyInt 0)]"

definition PLACE_TEXTS :: "string list" where
  "PLACE_TEXTS =
     [''routing_reason'', ''routing_priority'', ''policy_version'', ''identity_guard'',
      ''manifest_guard'', ''manifest_id'']"

definition TARGET_ONLY :: schema where
  "TARGET_ONLY = tool_schema True [] [] [] [] []"

definition TOOL_SCHEMAS :: "(action_type \<times> schema) list" where
  "TOOL_SCHEMAS =
     [(OBSERVE, tool_schema False [] [''required_confidence'', ''attributes'']
         [(''required_confidence'', ''float''), (''attributes'', ''list'')]
         [(''required_confidence'',
           [(''finite'', PyBool True), (''minimum'', PyFloat (Finite 0)),
            (''maximum'', PyFloat (Finite 1))])] []),
      (GRASP, TARGET_ONLY),
      (PLACE, tool_schema True [''destination_id'']
         (PLACE_TEXTS @ DESTINATION_COUNT_PARAMS)
         ((''destination_id'', ''str'') # map (\<lambda>n. (n, ''str'')) PLACE_TEXTS
          @ map (\<lambda>n. (n, ''int'')) DESTINATION_COUNT_PARAMS)
         ((''destination_id'', non_blank_rule) # map (\<lambda>n. (n, non_blank_rule)) PLACE_TEXTS
          @ map (\<lambda>n. (n, count_rule)) DESTINATION_COUNT_PARAMS)
         [DESTINATION_COUNTS_CONSISTENT]),
      (ASK_CONFIRM, tool_schema False [''question''] [''timeout_s'']
         [(''question'', ''str''), (''timeout_s'', ''int'')]
         [(''question'', non_blank_rule),
          (''timeout_s'', [(''minimum'', PyInt 1), (''maximum'', PyInt 600)])] []),
      (EXPRESS, tool_schema False [''emotion_state''] [''duration_ms'']
         [(''emotion_state'', ''str''), (''duration_ms'', ''int'')]
         [(''emotion_state'', non_blank_rule),
          (''duration_ms'', [(''minimum'', PyInt 1), (''maximum'', PyInt 600000)])] []),
      (NAVIGATE, TARGET_ONLY),
      (OPEN, TARGET_ONLY),
      (CLOSE, TARGET_ONLY),
      (STOP, tool_schema False [] [''reason''] [(''reason'', ''str'')]
         [(''reason'', non_blank_rule)] [])]"

text \<open>\<^verbatim>\<open>ToolRegistry()\<close>: the schemas registered one after the other.\<close>

fun register_all :: "(action_type \<times> schema) list \<Rightarrow> registry \<Rightarrow> schema_error + registry" where
  "register_all [] reg = Inr reg"
| "register_all ((t, s) # rest) reg = and_try (register t s reg) (register_all rest)"

definition default_registry :: "schema_error + registry" where
  "default_registry = register_all TOOL_SCHEMAS []"

lemma default_registry_loads: "default_registry = Inr TOOL_SCHEMAS"
  by code_simp

section \<open>A registered schema never makes validation raise\<close>

text \<open>What \<^verbatim>\<open>_validate_schema\<close> establishes of a schema it accepts.\<close>

definition schema_wf :: "schema \<Rightarrow> string list \<Rightarrow> string list \<Rightarrow> (string \<times> pyval) list
    \<Rightarrow> (string \<times> pyval) list \<Rightarrow> string list \<Rightarrow> bool" where
  "schema_wf s required optional types constraints relations \<longleftrightarrow>
     schema_set s ''required_params'' = Inr (map PyStr required)
     \<and> schema_set s ''optional_params'' = Inr (map PyStr optional)
     \<and> schema_dict s ''param_types'' = Inr types
     \<and> schema_dict s ''param_constraints'' = Inr constraints
     \<and> schema_set s ''relational_constraints'' = Inr (map PyStr relations)
     \<and> set (map snd types) \<subseteq> set SUPPORTED_PARAM_TYPES
     \<and> (\<forall>nr\<in>set constraints. validate_rules types nr = Inr ())
     \<and> validate_relations relations (required @ optional) types = Inr ()"

lemma validate_param_set_Inr:
  "validate_param_set (schema_item s k) = Inr xs \<Longrightarrow> schema_set s k = Inr (map PyStr xs)"
proof -
  have strs: "map PyStr (map (the \<circ> py_string) ys) = ys" if "\<forall>y\<in>set ys. py_string y \<noteq> None" for ys
    using that by (induction ys) (auto elim: py_string.elims)
  assume v: "validate_param_set (schema_item s k) = Inr xs"
  then obtain ys where ys: "schema_item s k = PySet ys" "\<forall>y\<in>set ys. py_string y \<noteq> None"
    "xs = map (the \<circ> py_string) ys"
    by (auto simp: validate_param_set_def split: pyval.splits if_splits)
  then have "map_of s k = Some (PySet ys)"
    by (auto simp: schema_item_def py_get_def split: option.splits)
  then show ?thesis using strs [OF ys(2)] ys(3) by (simp add: schema_set_def)
qed

lemma schema_item_dict: "schema_item s k = PyDict d \<Longrightarrow> schema_dict s k = Inr d"
  by (auto simp: schema_item_def py_get_def schema_dict_def split: option.splits)

lemma validate_schema_wf:
  assumes "validate_schema s = Inr u"
  obtains required optional types constraints relations
  where "schema_wf s required optional types constraints relations"
proof -
  have "\<exists>types. schema_item s ''param_types'' = PyDict types"
    using assms unfolding validate_schema_def
    by (cases "schema_item s ''param_types''") (auto simp: outcome_simps)
  then obtain types where types0: "schema_item s ''param_types'' = PyDict types" by blast
  obtain required optional where
    sets: "validate_param_set (schema_item s ''required_params'') = Inr required"
      "validate_param_set (schema_item s ''optional_params'') = Inr optional"
    and types: "\<forall>t\<in>set types. snd t \<in> set SUPPORTED_PARAM_TYPES"
    and rest: "validate_param_constraints (schema_item s ''param_constraints'') (required @ optional) types = Inr ()"
      "\<exists>rel. validate_param_set (schema_item s ''relational_constraints'') = Inr rel
         \<and> validate_relations rel (required @ optional) types = Inr u"
    using assms unfolding validate_schema_def types0
    by (auto simp: outcome_simps Let_def)
  obtain cs where cs: "schema_item s ''param_constraints'' = PyDict cs"
    "\<forall>nr\<in>set cs. validate_rules types nr = Inr ()"
    using rest(1) by (auto simp: validate_param_constraints_def outcome_simps split: pyval.splits)
  obtain rel where rel: "validate_param_set (schema_item s ''relational_constraints'') = Inr rel"
    "validate_relations rel (required @ optional) types = Inr ()"
    using rest(2) by auto
  show thesis
    by (rule that [of required optional types cs rel])
      (use sets types types0 cs rel in
        \<open>auto simp: schema_wf_def validate_param_set_Inr schema_item_dict\<close>)
qed

lemma check_type_total:
  assumes "set (map snd types) \<subseteq> set SUPPORTED_PARAM_TYPES"
  shows "\<exists>es. check_type types kv = Inr es"
proof (cases "map_of types (fst kv)")
  case (Some t)
  then have "t \<in> set SUPPORTED_PARAM_TYPES" using assms map_of_SomeD by fastforce
  with Some show ?thesis by (auto simp: check_type_def SUPPORTED_PARAM_TYPES_def)
qed (simp add: check_type_def)

lemma py_less_numbers: "py_num a \<noteq> None \<Longrightarrow> py_num b \<noteq> None \<Longrightarrow> \<exists>x. py_less a b = Some x"
  by (auto simp: py_less_def)

lemma bound_ok_num: "bound_ok v \<Longrightarrow> py_num v \<noteq> None"
  by (cases v) (auto simp: bound_ok_def)

lemma check_rules_total:
  assumes "\<And>b. map_of rules ''minimum'' = Some b \<Longrightarrow> py_num b \<noteq> None \<and> py_num v \<noteq> None"
    and "\<And>b. map_of rules ''maximum'' = Some b \<Longrightarrow> py_num b \<noteq> None \<and> py_num v \<noteq> None"
  shows "\<exists>es. check_rules rules v = Inr es"
proof -
  have "\<exists>es. check_minimum rules v = Inr es"
    using assms(1) py_less_numbers by (fastforce simp: check_minimum_def split: option.split)
  moreover have "\<exists>es. check_maximum rules v = Inr es"
    using assms(2) py_less_numbers by (fastforce simp: check_maximum_def split: option.split)
  ultimately show ?thesis by (auto simp: check_rules_def Let_def)
qed

lemma has_type_num: "has_type v ''int'' \<or> has_type v ''float'' \<Longrightarrow> py_num v \<noteq> None"
  by (cases v) (auto simp: has_type_def)

lemma check_type_Nil:
  "check_type types (k, v) = Inr [] \<Longrightarrow> map_of types k = Some (PyType t) \<Longrightarrow> has_type v t"
  by (auto simp: check_type_def split: if_splits)

lemma validate_rules_PyDict:
  assumes "validate_rules types nr = Inr ()"
  obtains rules where "snd nr = PyDict rules"
    "\<And>b. map_of rules ''minimum'' = Some b \<Longrightarrow> bound_ok b \<and>
       (map_of types (fst nr) = Some (PyType ''int'') \<or> map_of types (fst nr) = Some (PyType ''float''))"
    "\<And>b. map_of rules ''maximum'' = Some b \<Longrightarrow> bound_ok b \<and>
       (map_of types (fst nr) = Some (PyType ''int'') \<or> map_of types (fst nr) = Some (PyType ''float''))"
proof (cases "snd nr")
  case (PyDict rules)
  then show thesis
    using assms that [of rules]
    by (simp add: validate_rules_def outcome_simps Let_def split: option.splits)
qed (use assms in \<open>simp_all add: validate_rules_def\<close>)

lemma check_constraint_total:
  assumes rules: "validate_rules types nr = Inr ()"
    and typed: "\<forall>kv\<in>set params. check_type types kv = Inr []"
  shows "\<exists>es. check_constraint params nr = Inr es"
proof (cases "map_of params (fst nr)")
  case None
  then show ?thesis by (simp add: check_constraint_def)
next
  case (Some v)
  then have mem: "(fst nr, v) \<in> set params" by (rule map_of_SomeD)
  obtain r where r: "snd nr = PyDict r"
    "\<And>b. map_of r ''minimum'' = Some b \<Longrightarrow> bound_ok b \<and>
       (map_of types (fst nr) = Some (PyType ''int'') \<or> map_of types (fst nr) = Some (PyType ''float''))"
    "\<And>b. map_of r ''maximum'' = Some b \<Longrightarrow> bound_ok b \<and>
       (map_of types (fst nr) = Some (PyType ''int'') \<or> map_of types (fst nr) = Some (PyType ''float''))"
    using validate_rules_PyDict [OF rules] by metis
  have num: "py_num v \<noteq> None"
    if "map_of types (fst nr) = Some (PyType ''int'') \<or> map_of types (fst nr) = Some (PyType ''float'')"
    using that check_type_Nil typed mem has_type_num by blast
  obtain es where "check_rules r v = Inr es"
    using check_rules_total [of r v] r(2,3) num bound_ok_num by blast
  with Some r(1) show ?thesis by (simp add: check_constraint_def)
qed

lemma check_relations_total:
  assumes rel: "validate_relations relations allowed types = Inr ()"
    and typed: "\<forall>kv\<in>set params. check_type types kv = Inr []"
  shows "\<exists>es. check_relations params (map PyStr relations) = Inr es"
proof (cases "DESTINATION_COUNTS_CONSISTENT \<in> set relations")
  case True
  have "\<exists>i. v = PyInt i" if n: "n \<in> set DESTINATION_COUNT_PARAMS" and v: "map_of params n = Some v" for n v
  proof -
    have "map_of types n = Some (PyType ''int'')"
      using rel True n by (auto simp: validate_relations_def outcome_simps)
    then have "has_type v ''int''" using check_type_Nil typed map_of_SomeD [OF v] by blast
    then show ?thesis by (cases v) (auto simp: has_type_def)
  qed
  note ints = this
  show ?thesis
  proof (cases "\<exists>n\<in>set DESTINATION_COUNT_PARAMS. map_of params n = None")
    case False
    have "\<exists>i. map_of params n = Some (PyInt i)" if "n \<in> set DESTINATION_COUNT_PARAMS" for n
      using that False ints by (metis option.exhaust)
    then obtain c occ r where "map_of params ''destination_capacity'' = Some (PyInt c)"
      "map_of params ''destination_occupancy_after'' = Some (PyInt occ)"
      "map_of params ''destination_remaining_after'' = Some (PyInt r)"
      by (fastforce simp: DESTINATION_COUNT_PARAMS_def)
    then show ?thesis by (simp add: check_relations_def)
  qed (simp add: check_relations_def)
qed (auto simp: check_relations_def)

definition registry_ok :: "registry \<Rightarrow> bool" where
  "registry_ok reg \<longleftrightarrow> distinct (map fst reg) \<and> (\<forall>ts\<in>set reg. validate_schema (snd ts) = Inr ())"

lemma register_keeps_ok:
  assumes "registry_ok reg" "register t s reg = Inr reg'"
  shows "registry_ok reg'"
proof -
  have "map_of reg t = None" "validate_schema (freeze_mapping s) = Inr ()"
    "reg' = reg @ [(t, freeze_mapping s)]"
    using assms(2) by (auto simp: register_def outcome_simps Let_def)
  with assms(1) show ?thesis by (auto simp: registry_ok_def map_of_eq_None_iff)
qed

lemma register_all_ok: "registry_ok reg \<Longrightarrow> register_all tss reg = Inr reg' \<Longrightarrow> registry_ok reg'"
proof (induction tss arbitrary: reg)
  case (Cons ts tss)
  then show ?case by (cases ts) (auto simp: and_try_Inr intro: register_keeps_ok)
qed simp

lemma check_values_total:
  assumes "schema_wf s required optional types constraints relations"
  shows "\<exists>r. check_values s types a = Inr r"
proof -
  note wf = assms [unfolded schema_wf_def]
  obtain te where te: "gather (check_type types) (sa_parameters a) = Inr te"
    using gather_total [of "sa_parameters a" "check_type types"] check_type_total wf by blast
  show ?thesis
  proof (cases "te = []")
    case True
    then have typed: "\<forall>kv\<in>set (sa_parameters a). check_type types kv = Inr []"
      using te by (simp add: gather_Nil)
    obtain ve where ve: "gather (check_constraint (sa_parameters a)) constraints = Inr ve"
      using gather_total [of constraints "check_constraint (sa_parameters a)"]
        check_constraint_total typed wf by blast
    obtain re where re: "check_relations (sa_parameters a) (map PyStr relations) = Inr re"
      using check_relations_total typed wf by blast
    show ?thesis using te True ve re wf by (simp add: check_values_def Let_def)
  qed (use te in \<open>simp add: check_values_def\<close>)
qed

lemma validate_action_total:
  assumes "registry_ok reg"
  shows "\<exists>r. validate_action reg a = Inr r \<and> vr_action_id r = sa_action_id a
           \<and> (vr_is_valid r \<longleftrightarrow> vr_errors r = [])"
proof (cases "map_of reg (sa_action_type a)")
  case None
  then show ?thesis by (simp add: validate_action_def vr_fail_def)
next
  case (Some s)
  have "validate_schema s = Inr ()" using assms map_of_SomeD [OF Some] by (auto simp: registry_ok_def)
  then obtain required optional types constraints relations
    where wf: "schema_wf s required optional types constraints relations"
    by (rule validate_schema_wf)
  then have sets: "schema_set s ''required_params'' = Inr (map PyStr required)"
    "schema_set s ''optional_params'' = Inr (map PyStr optional)"
    "schema_dict s ''param_types'' = Inr types"
    by (simp_all add: schema_wf_def)
  obtain r where r: "check_values s types a = Inr r" using check_values_total [OF wf] by blast
  have "vr_action_id r = sa_action_id a \<and> (vr_is_valid r \<longleftrightarrow> vr_errors r = [])"
    using r by (auto simp: check_values_def vr_fail_def vr_ok_def outcome_simps Let_def split: if_splits)
  then show ?thesis using Some sets r by (simp add: validate_action_def Let_def vr_fail_def)
qed

section \<open>What the default registry accepts\<close>

definition accepts :: "registry \<Rightarrow> semantic_action \<Rightarrow> bool" where
  "accepts reg a \<longleftrightarrow> (case validate_action reg a of Inr r \<Rightarrow> vr_is_valid r | Inl _ \<Rightarrow> False)"

text \<open>\<open>param a k P\<close>: the parameter \<open>k\<close>, if it is there, satisfies \<open>P\<close>.\<close>

definition param :: "semantic_action \<Rightarrow> string \<Rightarrow> (pyval \<Rightarrow> bool) \<Rightarrow> bool" where
  "param a k P \<longleftrightarrow> (case map_of (sa_parameters a) k of None \<Rightarrow> True | Some v \<Rightarrow> P v)"

definition present :: "semantic_action \<Rightarrow> string \<Rightarrow> bool" where
  "present a k \<longleftrightarrow> map_of (sa_parameters a) k \<noteq> None"

definition only_params :: "semantic_action \<Rightarrow> string list \<Rightarrow> bool" where
  "only_params a ks \<longleftrightarrow> set (map fst (sa_parameters a)) \<subseteq> set ks"

definition text_value :: "pyval \<Rightarrow> bool" where
  "text_value v \<longleftrightarrow> (case v of PyStr s \<Rightarrow> \<not> py_blank s | _ \<Rightarrow> False)"

definition int_between :: "int \<Rightarrow> int \<Rightarrow> pyval \<Rightarrow> bool" where
  "int_between lo hi v \<longleftrightarrow> (case v of PyInt i \<Rightarrow> lo \<le> i \<and> i \<le> hi | _ \<Rightarrow> False)"

definition count_value :: "pyval \<Rightarrow> bool" where
  "count_value v \<longleftrightarrow> (case v of PyInt i \<Rightarrow> 0 \<le> i | _ \<Rightarrow> False)"

definition confidence_value :: "pyval \<Rightarrow> bool" where
  "confidence_value v \<longleftrightarrow>
     (case v of
        PyInt i \<Rightarrow> 0 \<le> i \<and> i \<le> 1
      | PyFloat (Finite q) \<Rightarrow> 0 \<le> q \<and> q \<le> 1
      | _ \<Rightarrow> False)"

definition attributes_value :: "pyval \<Rightarrow> bool" where
  "attributes_value v \<longleftrightarrow>
     (case v of
        PyList xs \<Rightarrow> \<forall>x\<in>set xs. \<exists>s\<in>set KNOWN_OBSERVE_ATTRIBUTES. x = PyStr s
      | _ \<Rightarrow> False)"

text \<open>The destination counts: none of them, or all of them and consistent.\<close>

definition counts_ok :: "semantic_action \<Rightarrow> bool" where
  "counts_ok a \<longleftrightarrow>
     (case (map_of (sa_parameters a) ''destination_capacity'',
            map_of (sa_parameters a) ''destination_occupancy_after'',
            map_of (sa_parameters a) ''destination_remaining_after'') of
        (None, None, None) \<Rightarrow> True
      | (Some (PyInt c), Some (PyInt occ), Some (PyInt r)) \<Rightarrow>
          0 \<le> c \<and> 0 \<le> occ \<and> 0 \<le> r \<and> c = occ + r
      | _ \<Rightarrow> False)"

text \<open>The tools, each in one sentence.\<close>

definition tool_spec :: "semantic_action \<Rightarrow> bool" where
  "tool_spec a \<longleftrightarrow>
     (case sa_action_type a of
        OBSERVE \<Rightarrow> only_params a [''required_confidence'', ''attributes'']
          \<and> param a ''required_confidence'' confidence_value \<and> param a ''attributes'' attributes_value
      | GRASP \<Rightarrow> has_target a \<and> sa_parameters a = []
      | NAVIGATE \<Rightarrow> has_target a \<and> sa_parameters a = []
      | OPEN \<Rightarrow> has_target a \<and> sa_parameters a = []
      | CLOSE \<Rightarrow> has_target a \<and> sa_parameters a = []
      | PLACE \<Rightarrow> has_target a \<and> present a ''destination_id''
          \<and> only_params a (''destination_id'' # PLACE_TEXTS @ DESTINATION_COUNT_PARAMS)
          \<and> (\<forall>k\<in>set (''destination_id'' # PLACE_TEXTS). param a k text_value) \<and> counts_ok a
      | ASK_CONFIRM \<Rightarrow> present a ''question'' \<and> only_params a [''question'', ''timeout_s'']
          \<and> param a ''question'' text_value \<and> param a ''timeout_s'' (int_between 1 600)
      | EXPRESS \<Rightarrow> present a ''emotion_state'' \<and> only_params a [''emotion_state'', ''duration_ms'']
          \<and> param a ''emotion_state'' (\<lambda>v. \<exists>s\<in>set EXPRESS_EMOTION_STATES. v = PyStr s)
          \<and> param a ''duration_ms'' (int_between 1 600000)
      | STOP \<Rightarrow> only_params a [''reason''] \<and> param a ''reason'' text_value)"

lemma map_of_map_prod: "map_of (map (map_prod id f) xs) k = map_option f (map_of xs k)"
  by (induction xs) auto

lemma check_fields_Nil:
  "check_fields target (map PyStr required) (map PyStr required @ map PyStr optional) a = [] \<longleftrightarrow>
     (target \<longrightarrow> has_target a) \<and> only_params a (required @ optional)
     \<and> (\<forall>k\<in>set required. present a k)"
proof -
  let ?keys = "map (PyStr \<circ> fst) (sa_parameters a)"
  have "(\<exists>k\<in>set ?keys. k \<notin> set (map PyStr required @ map PyStr optional))
      \<longleftrightarrow> \<not> only_params a (required @ optional)"
    by (auto simp: only_params_def)
  moreover have "(\<exists>k\<in>set (map PyStr required). k \<notin> set ?keys) \<longleftrightarrow> \<not> (\<forall>k\<in>set required. present a k)"
    unfolding present_def map_of_eq_None_iff by auto
  ultimately show ?thesis unfolding check_fields_def Let_def by simp
qed

lemma check_types_Nil:
  assumes "distinct (map fst params)" "distinct (map fst types)"
  shows "(\<forall>kv\<in>set params. check_type (map (map_prod id PyType) types) kv = Inr [])
     \<longleftrightarrow> (\<forall>kt\<in>set types. case map_of params (fst kt) of None \<Rightarrow> True | Some v \<Rightarrow> has_type v (snd kt))"
proof -
  have one: "check_type (map (map_prod id PyType) types) (k, v) = Inr []
      \<longleftrightarrow> (case map_of types k of None \<Rightarrow> True | Some t \<Rightarrow> has_type v t)" for k v
    by (auto simp: check_type_def map_of_map_prod split: option.split)
  show ?thesis
  proof (intro iffI ballI)
    fix kt assume all: "\<forall>kv\<in>set params. check_type (map (map_prod id PyType) types) kv = Inr []"
      and kt: "kt \<in> set types"
    have t: "map_of types (fst kt) = Some (snd kt)" using kt assms(2) by simp
    show "case map_of params (fst kt) of None \<Rightarrow> True | Some v \<Rightarrow> has_type v (snd kt)"
    proof (cases "map_of params (fst kt)")
      case (Some v)
      with all one t show ?thesis using map_of_SomeD by fastforce
    qed simp
  next
    fix kv assume all: "\<forall>kt\<in>set types. case map_of params (fst kt) of None \<Rightarrow> True | Some v \<Rightarrow> has_type v (snd kt)"
      and kv: "kv \<in> set params"
    have v: "map_of params (fst kv) = Some (snd kv)" using kv assms(1) by simp
    have "case map_of types (fst kv) of None \<Rightarrow> True | Some t \<Rightarrow> has_type (snd kv) t"
    proof (cases "map_of types (fst kv)")
      case (Some t)
      with all v show ?thesis using map_of_SomeD by fastforce
    qed simp
    then show "check_type (map (map_prod id PyType) types) kv = Inr []"
      using one [of "fst kv" "snd kv"] by simp
  qed
qed

lemma check_constraint_Nil:
  "check_constraint params (map_prod id PyDict nr) = Inr []
     \<longleftrightarrow> (case map_of params (fst nr) of None \<Rightarrow> True | Some v \<Rightarrow> check_rules (snd nr) v = Inr [])"
  by (auto simp: check_constraint_def outcome_simps split: option.split)

lemma check_values_valid:
  "(case check_values s types a of Inr r \<Rightarrow> vr_is_valid r | Inl _ \<Rightarrow> False) \<longleftrightarrow>
     (\<forall>kv\<in>set (sa_parameters a). check_type types kv = Inr [])
     \<and> (\<exists>cs. schema_dict s ''param_constraints'' = Inr cs
          \<and> (\<forall>nr\<in>set cs. check_constraint (sa_parameters a) nr = Inr []))
     \<and> (\<exists>rel. schema_set s ''relational_constraints'' = Inr rel
          \<and> check_relations (sa_parameters a) rel = Inr [])
     \<and> check_semantics a = []"
proof (cases "\<forall>kv\<in>set (sa_parameters a). check_type types kv = Inr []")
  case True
  then have "gather (check_type types) (sa_parameters a) = Inr []" by (simp add: gather_Nil)
  with True show ?thesis
    unfolding gather_Nil [where f = "check_constraint (sa_parameters a)", symmetric]
    by (cases "schema_dict s ''param_constraints''"; cases "schema_set s ''relational_constraints''")
      (auto simp: check_values_def Let_def vr_fail_def vr_ok_def and_try_def split: sum.splits)
next
  case False
  then have "gather (check_type types) (sa_parameters a) \<noteq> Inr []" by (simp add: gather_Nil)
  with False show ?thesis
    by (cases "gather (check_type types) (sa_parameters a)") (auto simp: check_values_def vr_fail_def)
qed

lemma accepts_tool_schema:
  assumes reg: "map_of reg (sa_action_type a) = Some (tool_schema target required optional types constraints relations)"
    and params: "distinct (map fst (sa_parameters a))" and types: "distinct (map fst types)"
  shows "accepts reg a \<longleftrightarrow>
     (target \<longrightarrow> has_target a) \<and> only_params a (required @ optional)
     \<and> (\<forall>k\<in>set required. present a k)
     \<and> (\<forall>kt\<in>set types. param a (fst kt) (\<lambda>v. has_type v (snd kt)))
     \<and> (\<forall>nr\<in>set constraints. param a (fst nr) (\<lambda>v. check_rules (snd nr) v = Inr []))
     \<and> check_relations (sa_parameters a) (map PyStr relations) = Inr []
     \<and> check_semantics a = []"
proof -
  let ?s = "tool_schema target required optional types constraints relations"
    and ?types = "map (map_prod id PyType) types"
  have look: "schema_set ?s ''required_params'' = Inr (map PyStr required)"
    "schema_set ?s ''optional_params'' = Inr (map PyStr optional)"
    "schema_dict ?s ''param_types'' = Inr ?types"
    "schema_dict ?s ''param_constraints'' = Inr (map (map_prod id PyDict) constraints)"
    "schema_set ?s ''relational_constraints'' = Inr (map PyStr relations)"
    "py_get ?s ''target_id_required'' (PyBool False) = PyBool target"
    by (simp_all add: tool_schema_def schema_set_def schema_dict_def py_get_def)
  let ?f = "check_fields target (map PyStr required) (map PyStr required @ map PyStr optional) a"
  have "accepts reg a \<longleftrightarrow>
      ?f = [] \<and> (case check_values ?s ?types a of Inr r \<Rightarrow> vr_is_valid r | Inl _ \<Rightarrow> False)"
    using reg look by (simp add: accepts_def validate_action_def Let_def vr_fail_def)
  then show ?thesis
    unfolding check_values_valid check_fields_Nil check_types_Nil [OF params types] param_def
    using look by (simp add: check_constraint_Nil)
qed

text \<open>The type and the rules of one parameter together.\<close>

lemma param_both: "param a k P \<and> param a k Q \<longleftrightarrow> param a k (\<lambda>v. P v \<and> Q v)"
  by (auto simp: param_def split: option.split)

lemma param_cong: "(\<And>v. P v \<longleftrightarrow> Q v) \<Longrightarrow> param a k P \<longleftrightarrow> param a k Q"
  by (simp add: param_def split: option.split)

lemmas rule_simps =
  check_rules_def check_minimum_def check_maximum_def py_get_def Let_def has_type_def

lemma text_rule: "has_type v ''str'' \<and> check_rules non_blank_rule v = Inr [] \<longleftrightarrow> text_value v"
  by (cases v) (simp_all add: rule_simps non_blank_rule_def text_value_def)

lemma count_rule_iff: "has_type v ''int'' \<and> check_rules count_rule v = Inr [] \<longleftrightarrow> count_value v"
  by (cases v) (auto simp: rule_simps count_rule_def count_value_def py_less_def)

lemma between_rule:
  "has_type v ''int'' \<and> check_rules [(''minimum'', PyInt lo), (''maximum'', PyInt hi)] v = Inr []
     \<longleftrightarrow> int_between lo hi v"
  by (cases v) (auto simp: rule_simps int_between_def py_less_def)

lemma confidence_rule:
  "has_type v ''float''
   \<and> check_rules [(''finite'', PyBool True), (''minimum'', PyFloat (Finite 0)),
                  (''maximum'', PyFloat (Finite 1))] v = Inr []
     \<longleftrightarrow> confidence_value v"
proof (cases v)
  case (PyFloat f)
  then show ?thesis
    by (cases f) (auto simp: rule_simps confidence_value_def py_less_def is_finite_number_def)
qed (auto simp: rule_simps confidence_value_def py_less_def is_finite_number_def)

lemma only_params_Nil: "only_params a [] \<longleftrightarrow> sa_parameters a = []"
  by (auto simp: only_params_def)

lemma no_relations [simp]: "check_relations params [] = Inr []"
  by (simp add: check_relations_def)

lemma accepts_target_only:
  assumes "sa_action_type a \<in> {GRASP, NAVIGATE, OPEN, CLOSE}" "distinct (map fst (sa_parameters a))"
  shows "accepts TOOL_SCHEMAS a \<longleftrightarrow> has_target a \<and> sa_parameters a = []"
proof -
  have "map_of TOOL_SCHEMAS (sa_action_type a) = Some (tool_schema True [] [] [] [] [])"
    using assms(1) by (auto simp: TOOL_SCHEMAS_def TARGET_ONLY_def)
  from accepts_tool_schema [OF this assms(2)] assms(1) show ?thesis
    by (auto simp: only_params_Nil check_semantics_def)
qed

lemma accepts_stop:
  assumes "sa_action_type a = STOP" "distinct (map fst (sa_parameters a))"
  shows "accepts TOOL_SCHEMAS a \<longleftrightarrow> only_params a [''reason''] \<and> param a ''reason'' text_value"
proof -
  have "map_of TOOL_SCHEMAS (sa_action_type a)
      = Some (tool_schema False [] [''reason''] [(''reason'', ''str'')] [(''reason'', non_blank_rule)] [])"
    using assms(1) by (simp add: TOOL_SCHEMAS_def)
  from accepts_tool_schema [OF this assms(2)] assms(1) show ?thesis
    by (simp add: check_semantics_def param_both text_rule)
qed

lemma accepts_ask_confirm:
  assumes "sa_action_type a = ASK_CONFIRM" "distinct (map fst (sa_parameters a))"
  shows "accepts TOOL_SCHEMAS a \<longleftrightarrow>
    present a ''question'' \<and> only_params a [''question'', ''timeout_s'']
    \<and> param a ''question'' text_value \<and> param a ''timeout_s'' (int_between 1 600)"
proof -
  let ?rule = "[(''minimum'', PyInt 1), (''maximum'', PyInt 600)]"
  have "map_of TOOL_SCHEMAS (sa_action_type a)
      = Some (tool_schema False [''question''] [''timeout_s''] [(''question'', ''str''), (''timeout_s'', ''int'')]
           [(''question'', non_blank_rule), (''timeout_s'', ?rule)] [])"
    using assms(1) by (simp add: TOOL_SCHEMAS_def)
  note acc = accepts_tool_schema [OF this assms(2)]
  have "param a ''question'' text_value \<longleftrightarrow> param a ''question'' (\<lambda>v. has_type v ''str'')
      \<and> param a ''question'' (\<lambda>v. check_rules non_blank_rule v = Inr [])"
    by (simp add: param_both text_rule)
  moreover have "param a ''timeout_s'' (int_between 1 600) \<longleftrightarrow> param a ''timeout_s'' (\<lambda>v. has_type v ''int'')
      \<and> param a ''timeout_s'' (\<lambda>v. check_rules ?rule v = Inr [])"
    by (simp add: param_both between_rule)
  ultimately show ?thesis using acc assms(1) by (auto simp: check_semantics_def)
qed

lemma emotion_not_blank: "s \<in> set EXPRESS_EMOTION_STATES \<Longrightarrow> \<not> py_blank s"
  by (auto simp: EXPRESS_EMOTION_STATES_def py_blank_iff py_isspace_def Let_def)

lemma accepts_express:
  assumes "sa_action_type a = EXPRESS" "distinct (map fst (sa_parameters a))"
  shows "accepts TOOL_SCHEMAS a \<longleftrightarrow>
    present a ''emotion_state'' \<and> only_params a [''emotion_state'', ''duration_ms'']
    \<and> param a ''emotion_state'' (\<lambda>v. \<exists>s\<in>set EXPRESS_EMOTION_STATES. v = PyStr s)
    \<and> param a ''duration_ms'' (int_between 1 600000)"
proof -
  let ?rule = "[(''minimum'', PyInt 1), (''maximum'', PyInt 600000)]"
  have "map_of TOOL_SCHEMAS (sa_action_type a)
      = Some (tool_schema False [''emotion_state''] [''duration_ms'']
           [(''emotion_state'', ''str''), (''duration_ms'', ''int'')]
           [(''emotion_state'', non_blank_rule), (''duration_ms'', ?rule)] [])"
    using assms(1) by (simp add: TOOL_SCHEMAS_def)
  note acc = accepts_tool_schema [OF this assms(2)]
  have words: "param a ''emotion_state'' (\<lambda>v. has_type v ''str'')
      \<and> param a ''emotion_state'' (\<lambda>v. check_rules non_blank_rule v = Inr [])
      \<longleftrightarrow> param a ''emotion_state'' text_value"
    by (simp add: param_both text_rule)
  have time: "param a ''duration_ms'' (\<lambda>v. has_type v ''int'')
      \<and> param a ''duration_ms'' (\<lambda>v. check_rules ?rule v = Inr [])
      \<longleftrightarrow> param a ''duration_ms'' (int_between 1 600000)"
    by (simp add: param_both between_rule)
  have "param a ''emotion_state'' text_value \<and> check_semantics a = []
      \<longleftrightarrow> param a ''emotion_state'' (\<lambda>v. \<exists>s\<in>set EXPRESS_EMOTION_STATES. v = PyStr s)"
    using assms(1) emotion_not_blank
    by (auto simp: param_def check_semantics_def text_value_def split: option.splits pyval.splits if_splits)
  with acc words time show ?thesis by auto
qed

lemma known_attributes:
  "\<not> (\<exists>x\<in>set xs. case py_string x of None \<Rightarrow> True | Some s \<Rightarrow> s \<notin> set KNOWN_OBSERVE_ATTRIBUTES)
   \<longleftrightarrow> (\<forall>x\<in>set xs. \<exists>s\<in>set KNOWN_OBSERVE_ATTRIBUTES. x = PyStr s)"
proof -
  have "(case py_string x of None \<Rightarrow> True | Some s \<Rightarrow> s \<notin> set KNOWN_OBSERVE_ATTRIBUTES)
      \<longleftrightarrow> \<not> (\<exists>s\<in>set KNOWN_OBSERVE_ATTRIBUTES. x = PyStr s)" for x
    by (cases x) auto
  then show ?thesis by simp
qed

lemma accepts_observe:
  assumes "sa_action_type a = OBSERVE" "distinct (map fst (sa_parameters a))"
  shows "accepts TOOL_SCHEMAS a \<longleftrightarrow>
    only_params a [''required_confidence'', ''attributes'']
    \<and> param a ''required_confidence'' confidence_value \<and> param a ''attributes'' attributes_value"
proof -
  let ?rule = "[(''finite'', PyBool True), (''minimum'', PyFloat (Finite 0)),
                (''maximum'', PyFloat (Finite 1))]"
  have "map_of TOOL_SCHEMAS (sa_action_type a)
      = Some (tool_schema False [] [''required_confidence'', ''attributes'']
           [(''required_confidence'', ''float''), (''attributes'', ''list'')]
           [(''required_confidence'', ?rule)] [])"
    using assms(1) by (simp add: TOOL_SCHEMAS_def)
  note acc = accepts_tool_schema [OF this assms(2)]
  have conf: "param a ''required_confidence'' (\<lambda>v. has_type v ''float'')
      \<and> param a ''required_confidence'' (\<lambda>v. check_rules ?rule v = Inr [])
      \<longleftrightarrow> param a ''required_confidence'' confidence_value"
    by (simp only: param_both confidence_rule)
  have attrs: "param a ''attributes'' (\<lambda>v. has_type v ''list'') \<and> check_semantics a = []
      \<longleftrightarrow> param a ''attributes'' attributes_value"
  proof (cases "map_of (sa_parameters a) ''attributes''")
    case (Some v)
    show ?thesis
    proof (cases v)
      case (PyList xs)
      have "check_semantics a = [] \<longleftrightarrow> (\<forall>x\<in>set xs. \<exists>s\<in>set KNOWN_OBSERVE_ATTRIBUTES. x = PyStr s)"
        using assms(1) Some PyList unfolding known_attributes [symmetric]
        by (auto simp: check_semantics_def split: option.splits)
      with Some PyList show ?thesis by (simp add: param_def has_type_def attributes_value_def)
    qed (use Some in \<open>simp_all add: param_def has_type_def attributes_value_def\<close>)
  qed (use assms(1) in \<open>simp add: param_def check_semantics_def\<close>)
  show ?thesis using acc conf attrs by auto
qed

lemma counts_ok_iff:
  "counts_ok a \<longleftrightarrow>
     (\<forall>k\<in>set DESTINATION_COUNT_PARAMS. param a k count_value)
     \<and> check_relations (sa_parameters a) [PyStr DESTINATION_COUNTS_CONSISTENT] = Inr []"
proof -
  have int: "count_value v \<Longrightarrow> \<exists>i. v = PyInt i" for v by (cases v) (auto simp: count_value_def)
  show ?thesis
    by (cases "map_of (sa_parameters a) ''destination_capacity''";
        cases "map_of (sa_parameters a) ''destination_occupancy_after''";
        cases "map_of (sa_parameters a) ''destination_remaining_after''")
      (auto simp: counts_ok_def DESTINATION_COUNT_PARAMS_def param_def check_relations_def
         count_value_def dest!: int split: pyval.splits if_splits)
qed

lemma accepts_place:
  assumes "sa_action_type a = PLACE" "distinct (map fst (sa_parameters a))"
  shows "accepts TOOL_SCHEMAS a \<longleftrightarrow>
    has_target a \<and> present a ''destination_id''
    \<and> only_params a (''destination_id'' # PLACE_TEXTS @ DESTINATION_COUNT_PARAMS)
    \<and> (\<forall>k\<in>set (''destination_id'' # PLACE_TEXTS). param a k text_value) \<and> counts_ok a"
proof -
  let ?texts = "''destination_id'' # PLACE_TEXTS"
  let ?types = "map (\<lambda>n. (n, ''str'')) ?texts @ map (\<lambda>n. (n, ''int'')) DESTINATION_COUNT_PARAMS"
  let ?rules = "map (\<lambda>n. (n, non_blank_rule)) ?texts @ map (\<lambda>n. (n, count_rule)) DESTINATION_COUNT_PARAMS"
  have look: "map_of TOOL_SCHEMAS (sa_action_type a)
      = Some (tool_schema True [''destination_id''] (PLACE_TEXTS @ DESTINATION_COUNT_PARAMS)
           ?types ?rules [DESTINATION_COUNTS_CONSISTENT])"
    using assms(1) by (simp add: TOOL_SCHEMAS_def)
  have dist: "distinct (map fst ?types)"
    by (simp add: PLACE_TEXTS_def DESTINATION_COUNT_PARAMS_def)
  note acc = accepts_tool_schema [OF look assms(2) dist]
  have texts: "(\<forall>k\<in>set ?texts. param a k (\<lambda>v. has_type v ''str''))
      \<and> (\<forall>k\<in>set ?texts. param a k (\<lambda>v. check_rules non_blank_rule v = Inr []))
      \<longleftrightarrow> (\<forall>k\<in>set ?texts. param a k text_value)"
    unfolding ball_conj_distrib [symmetric] param_both text_rule ..
  have counts: "(\<forall>k\<in>set DESTINATION_COUNT_PARAMS. param a k (\<lambda>v. has_type v ''int''))
      \<and> (\<forall>k\<in>set DESTINATION_COUNT_PARAMS. param a k (\<lambda>v. check_rules count_rule v = Inr []))
      \<longleftrightarrow> (\<forall>k\<in>set DESTINATION_COUNT_PARAMS. param a k count_value)"
    unfolding ball_conj_distrib [symmetric] param_both count_rule_iff ..
  have sem: "check_semantics a = []" using assms(1) by (simp add: check_semantics_def)
  have "(\<forall>kt\<in>set ?types. param a (fst kt) (\<lambda>v. has_type v (snd kt)))
      \<longleftrightarrow> (\<forall>k\<in>set ?texts. param a k (\<lambda>v. has_type v ''str''))
        \<and> (\<forall>k\<in>set DESTINATION_COUNT_PARAMS. param a k (\<lambda>v. has_type v ''int''))"
    by (simp add: ball_Un)
  moreover have "(\<forall>nr\<in>set ?rules. param a (fst nr) (\<lambda>v. check_rules (snd nr) v = Inr []))
      \<longleftrightarrow> (\<forall>k\<in>set ?texts. param a k (\<lambda>v. check_rules non_blank_rule v = Inr []))
        \<and> (\<forall>k\<in>set DESTINATION_COUNT_PARAMS. param a k (\<lambda>v. check_rules count_rule v = Inr []))"
    by (simp add: ball_Un)
  ultimately show ?thesis
    unfolding counts_ok_iff texts [symmetric] counts [symmetric]
    using acc sem by auto
qed

lemma accepts_default:
  assumes "distinct (map fst (sa_parameters a))"
  shows "accepts TOOL_SCHEMAS a \<longleftrightarrow> tool_spec a"
  unfolding tool_spec_def
  by (cases "sa_action_type a")
    (simp_all add: assms accepts_target_only accepts_stop accepts_ask_confirm accepts_express
      accepts_observe accepts_place)

section \<open>Properties\<close>


text \<open>
  C15: the default registry accepts exactly the nine bounded tools. An action whose parameters form
  a dictionary is valid if and only if it satisfies the specification of its tool: its target, its
  fields, their types and ranges, the consistency of destination counts and the fixed vocabularies.
\<close>

theorem default_registry_meets_specification:
  assumes "default_registry = Inr reg" and "distinct (map fst (sa_parameters a))"
  shows "accepts reg a \<longleftrightarrow> tool_spec a"
proof -
  have "reg = TOOL_SCHEMAS" using assms(1) by (simp add: default_registry_loads)
  then show ?thesis using accepts_default [OF assms(2)] by simp
qed

section \<open>Concrete actions\<close>

definition demo_place :: semantic_action where
  "demo_place =
     \<lparr>sa_action_id = ''a1'', sa_action_type = PLACE, sa_target_id = Some ''cup'',
      sa_parameters = [(''destination_id'', PyStr ''tray''), (''destination_capacity'', PyInt 3),
        (''destination_occupancy_after'', PyInt 2), (''destination_remaining_after'', PyInt 1)]\<rparr>"

definition odd_schema :: schema where
  "odd_schema =
     tool_schema True [''n''] [] [(''n'', ''float'')]
       [(''n'', [(''minimum'', PyInt 0), (''maximum'', PyInt 9)])] []"

lemma odd_schema_registers: "\<not> isl (register_all [(GRASP, odd_schema)] [])"
  by code_simp


theorem default_registry_meets_specification_witness:
  "accepts TOOL_SCHEMAS demo_place \<and> tool_spec demo_place"
proof -
  have "distinct (map fst (sa_parameters demo_place))" by (simp add: demo_place_def)
  from default_registry_meets_specification [OF default_registry_loads this]
  have eq: "accepts TOOL_SCHEMAS demo_place \<longleftrightarrow> tool_spec demo_place" .
  have "tool_spec demo_place" by code_simp
  with eq show ?thesis by simp
qed

end
