(* ===== verification/PolicyValidator.thy ===== *)
theory PolicyValidator
  imports ToolRegistry Json "HOL-Library.Countable"
begin

text \<open>
  The authorisation policy of
  \<^verbatim>\<open>services/agent_runtime/workbench_agent_runtime/policy_validator.py\<close>: the configuration check, the
  scan of action parameters for raw-control identifiers, and the decision per step.

  The regular expressions are written out as functions on strings. The scan asks the interpreter
  for the identity of the mappings and lists it visits and for the depth its JSON decoder can
  recurse to; both are arguments, collected in \<open>interpreter\<close>. Parameters are values whose mappings
  have string keys and can be read, so the two errors the scan raises for other mappings have no
  branch. Messages are reduced to codes.
\<close>

section \<open>Reports\<close>

datatype policy_outcome = ALLOW | DENY | CONFIRMATION_REQUIRED

datatype policy_reason_code =
    POLICY_ALLOWED
  | POLICY_CONFIG_MISSING
  | POLICY_VERSION_BLANK
  | POLICY_CONFIG_UNKNOWN_ACTION
  | POLICY_CONFIG_MALFORMED
  | CONFIRMATION_INPUT_MALFORMED
  | TOOL_REGISTRY_DENIED
  | RAW_CONTROL_PARAMETER
  | POLICY_INPUT_MALFORMED
  | ACTION_CONFIRMATION_REQUIRED

datatype policy_message =
    ConfigRequired
  | ConfigMustBeMapping
  | ConfigKeysWrong
  | VersionMustBeString
  | VersionMustBeNonBlank
  | ActionsMustBeFrozenset
  | ActionsUnknown
  | ConfirmedIdsMalformed
  | RegistryError field_error
  | ScanLimitExceeded
  | DecodeLimitExceeded
  | RawControlIdentifier string
  | ConfirmationNeeded

record policy_finding =
  pf_step_id :: string
  pf_action_id :: string
  pf_field :: string
  pf_message :: policy_message

record policy_decision =
  pd_step_id :: string
  pd_action_id :: string
  pd_outcome :: policy_outcome
  pd_reason_code :: policy_reason_code
  pd_policy_version :: "string option"
  pd_findings :: "policy_finding list"

type_synonym policy_report = "policy_decision list"

definition report_findings :: "policy_report \<Rightarrow> policy_finding list" where
  "report_findings report = concat (map pd_findings report)"

definition report_is_valid :: "policy_report \<Rightarrow> bool" where
  "report_is_valid report \<longleftrightarrow> list_all (\<lambda>d. pd_outcome d = ALLOW) report"

definition policy_finding_of :: "task_step \<Rightarrow> string \<Rightarrow> policy_message \<Rightarrow> policy_finding" where
  "policy_finding_of step fld message =
     \<lparr>pf_step_id = ts_step_id step, pf_action_id = step_action_id step, pf_field = fld,
      pf_message = message\<rparr>"

definition policy_decision_of ::
    "task_step \<Rightarrow> policy_outcome \<Rightarrow> policy_reason_code \<Rightarrow> string option \<Rightarrow> policy_finding list
     \<Rightarrow> policy_decision" where
  "policy_decision_of step outcome reason version findings =
     \<lparr>pd_step_id = ts_step_id step, pd_action_id = step_action_id step, pd_outcome = outcome,
      pd_reason_code = reason, pd_policy_version = version, pd_findings = findings\<rparr>"

section \<open>Configuration\<close>

text \<open>
  The configuration as the caller passes it: nothing, a value that is not a mapping, a mapping, or a
  mapping that cannot be copied. Of an entry the code asks whether it is a string or a frozenset,
  and of a member of the frozenset which action type it is, if it is one.
\<close>

datatype config_action = KnownAction action_type | OtherAction

datatype config_value = ConfigStr string | ConfigFrozenset "config_action list" | ConfigOther

datatype policy_config =
    ConfigNone
  | ConfigNotMapping
  | ConfigMapping "(string \<times> config_value) list"
  | ConfigUncopyable
  | CONFIG_SNAPSHOT_FAILED

record policy_config_state =
  cs_policy_version :: "string option"
  cs_high_impact_actions :: "action_type list"
  cs_error :: "(policy_reason_code \<times> string \<times> policy_message) option"

definition POLICY_CONFIG_KEYS :: "string list" where
  "POLICY_CONFIG_KEYS = [''policy_version'', ''high_impact_actions'']"

definition snapshot_policy_config :: "policy_config \<Rightarrow> policy_config" where
  "snapshot_policy_config c = (case c of ConfigUncopyable \<Rightarrow> CONFIG_SNAPSHOT_FAILED | _ \<Rightarrow> c)"

definition config_error ::
    "policy_reason_code \<Rightarrow> string \<Rightarrow> policy_message \<Rightarrow> string option \<Rightarrow> policy_config_state" where
  "config_error reason fld message version =
     \<lparr>cs_policy_version = version, cs_high_impact_actions = [], cs_error = Some (reason, fld, message)\<rparr>"

definition unknown_action :: "registry \<Rightarrow> config_action \<Rightarrow> bool" where
  "unknown_action reg a =
     (case a of OtherAction \<Rightarrow> True | KnownAction t \<Rightarrow> t \<notin> set (list_all_tools reg))"

definition known_actions :: "config_action list \<Rightarrow> action_type list" where
  "known_actions as = concat (map (\<lambda>a. case a of KnownAction t \<Rightarrow> [t] | OtherAction \<Rightarrow> []) as)"

definition validate_policy_config :: "policy_config \<Rightarrow> registry \<Rightarrow> policy_config_state" where
  "validate_policy_config c reg =
     (case c of
        ConfigNone \<Rightarrow> config_error POLICY_CONFIG_MISSING ''policy_config'' ConfigRequired None
      | ConfigMapping d \<Rightarrow>
          if set (map fst d) \<noteq> set POLICY_CONFIG_KEYS
          then config_error POLICY_CONFIG_MALFORMED ''policy_config'' ConfigKeysWrong None
          else (case map_of d ''policy_version'' of
             Some (ConfigStr version) \<Rightarrow>
               if py_blank version
               then config_error POLICY_VERSION_BLANK ''policy_config.policy_version'' VersionMustBeNonBlank None
               else (case map_of d ''high_impact_actions'' of
                  Some (ConfigFrozenset actions) \<Rightarrow>
                    if list_ex (unknown_action reg) actions
                    then config_error POLICY_CONFIG_UNKNOWN_ACTION ''policy_config.high_impact_actions''
                           ActionsUnknown (Some version)
                    else \<lparr>cs_policy_version = Some version,
                          cs_high_impact_actions = known_actions actions, cs_error = None\<rparr>
                | _ \<Rightarrow> config_error POLICY_CONFIG_MALFORMED ''policy_config.high_impact_actions''
                         ActionsMustBeFrozenset (Some version))
           | _ \<Rightarrow> config_error POLICY_CONFIG_MALFORMED ''policy_config.policy_version''
                    VersionMustBeString None)
      | _ \<Rightarrow> config_error POLICY_CONFIG_MALFORMED ''policy_config'' ConfigMustBeMapping None)"

definition config_error_decision ::
    "task_step \<Rightarrow> policy_config_state \<Rightarrow> policy_reason_code \<times> string \<times> policy_message \<Rightarrow> policy_decision" where
  "config_error_decision step config err =
     (case err of (reason, fld, message) \<Rightarrow>
        policy_decision_of step DENY reason (cs_policy_version config) [policy_finding_of step fld message])"

definition py_strings :: "pyval list \<Rightarrow> string list" where
  "py_strings xs = concat (map (\<lambda>x. case x of PyStr s \<Rightarrow> [s] | _ \<Rightarrow> []) xs)"

text \<open>The confirmed action ids, if the caller passed a set or frozenset of non-blank strings.\<close>

definition snapshot_confirmed_action_ids :: "pyval \<Rightarrow> string list option" where
  "snapshot_confirmed_action_ids v =
     (case v of
        PySet xs \<Rightarrow>
          if list_all (\<lambda>x. case x of PyStr s \<Rightarrow> \<not> py_blank s | _ \<Rightarrow> False) xs
          then Some (py_strings xs)
          else None
      | _ \<Rightarrow> None)"

definition malformed_confirmation_decision :: "task_step \<Rightarrow> policy_config_state \<Rightarrow> policy_decision" where
  "malformed_confirmation_decision step config =
     policy_decision_of step DENY CONFIRMATION_INPUT_MALFORMED (cs_policy_version config)
       [policy_finding_of step ''confirmed_action_ids'' ConfirmedIdsMalformed]"

section \<open>Identifiers\<close>

definition is_lower :: "char \<Rightarrow> bool" where
  "is_lower c \<longleftrightarrow> (let n = (of_char c :: nat) in 97 \<le> n \<and> n \<le> 122)"

definition is_upper :: "char \<Rightarrow> bool" where
  "is_upper c \<longleftrightarrow> (let n = (of_char c :: nat) in 65 \<le> n \<and> n \<le> 90)"

definition is_alnum :: "char \<Rightarrow> bool" where
  "is_alnum c \<longleftrightarrow> is_lower c \<or> is_upper c \<or> json_digit c"

definition ident_start :: "char \<Rightarrow> bool" where
  "ident_start c \<longleftrightarrow> is_lower c \<or> is_upper c \<or> c = CHR ''_''"

definition ident_char :: "char \<Rightarrow> bool" where
  "ident_char c \<longleftrightarrow>
     is_alnum c \<or> c = CHR ''_'' \<or> c = CHR ''.'' \<or> c = CHR ''-'' \<or> c = CHR ''['' \<or> c = CHR '']''"

text \<open>\<^verbatim>\<open>_PARAMETER_IDENTIFIER.fullmatch\<close>\<close>

definition PARAMETER_IDENTIFIER :: "string \<Rightarrow> bool" where
  "PARAMETER_IDENTIFIER s \<longleftrightarrow> (case s of [] \<Rightarrow> False | c # cs \<Rightarrow> ident_start c \<and> list_all ident_char cs)"

text \<open>
  \<^verbatim>\<open>_SERIALIZED_KEY.finditer\<close>. No identifier character can start the separator, so only the longest
  identifier at a position can match; the same holds for the space after an equals sign, which the
  lookahead must not see. \<open>key_separator\<close> is what remains after the separator.
\<close>

definition key_separator :: "string \<Rightarrow> string option" where
  "key_separator s =
     (case dropWhile py_isspace s of
        c # r \<Rightarrow>
          if c = CHR ''='' then
            (let r' = dropWhile py_isspace r in if r' = [] then None else Some r')
          else (case s of
             c' # r' \<Rightarrow>
               if c' = CHR '':'' \<and> r' \<noteq> [] \<and> \<not> py_isspace (hd r') then Some r' else None
           | [] \<Rightarrow> None)
      | [] \<Rightarrow> None)"

definition may_precede_key :: "char option \<Rightarrow> bool" where
  "may_precede_key prev =
     (case prev of None \<Rightarrow> True | Some c \<Rightarrow> \<not> (ident_char c \<and> c \<noteq> CHR ''[''))"

lemma key_separator_length: "key_separator s = Some r \<Longrightarrow> length r < length s"
proof -
  assume sep: "key_separator s = Some r"
  then obtain c u where u: "dropWhile py_isspace s = c # u"
    by (auto simp: key_separator_def split: list.splits)
  then have "length u < length s"
    using length_dropWhile_le [of py_isspace s] by simp
  then show ?thesis
    using sep u length_dropWhile_le [of py_isspace u]
    by (auto simp: key_separator_def Let_def split: if_splits list.splits)
qed

text \<open>\<open>serialized_keys prev s\<close>: the matches in \<open>s\<close>, given the character before it.\<close>

function serialized_keys :: "char option \<Rightarrow> string \<Rightarrow> string list" where
  "serialized_keys prev s =
     (case s of
        [] \<Rightarrow> []
      | c # cs \<Rightarrow>
          if ident_start c \<and> may_precede_key prev then
            (case key_separator (dropWhile ident_char cs) of
               Some r \<Rightarrow> (c # takeWhile ident_char cs) # serialized_keys (Some CHR ''='') r
             | None \<Rightarrow> serialized_keys (Some c) cs)
          else serialized_keys (Some c) cs)"
  by auto
termination
  by (relation "measure (\<lambda>(prev, s). length s)")
     (auto dest!: key_separator_length intro: less_le_trans [OF _ le_SucI] order.strict_trans2 [OF _ length_dropWhile_le] less_SucI)

declare serialized_keys.simps [simp del]

definition SERIALIZED_KEY :: "string \<Rightarrow> string list" where
  "SERIALIZED_KEY s = serialized_keys None s"

text \<open>\<^verbatim>\<open>_CAMEL_BOUNDARY.sub("_", identifier)\<close>\<close>

fun separate_camel :: "string \<Rightarrow> string" where
  "separate_camel (a # b # cs) =
     (if (is_lower a \<or> json_digit a) \<and> is_upper b then a # CHR ''_'' # separate_camel (b # cs)
      else a # separate_camel (b # cs))"
| "separate_camel cs = cs"

definition casefold_ascii :: "string \<Rightarrow> string" where
  "casefold_ascii s = map (\<lambda>c. if is_upper c then char_of (of_char c + (32 :: nat)) else c) s"

text \<open>The non-empty parts of \<^verbatim>\<open>re.split(r"[^A-Za-z0-9]+", s)\<close>.\<close>

fun alnum_tokens :: "string \<Rightarrow> string \<Rightarrow> string list" where
  "alnum_tokens token [] = (if token = [] then [] else [token])"
| "alnum_tokens token (c # cs) =
     (if is_alnum c then alnum_tokens (token @ [c]) cs
      else (if token = [] then [] else [token]) @ alnum_tokens [] cs)"

definition RAW_CONTROL_TOKENS :: "string list" where
  "RAW_CONTROL_TOKENS = [''joint'', ''velocity'', ''torque'', ''firmware'']"

definition contains_raw_control_token :: "string \<Rightarrow> bool" where
  "contains_raw_control_token identifier =
     (let separated = separate_camel identifier;
          tokens = map casefold_ascii (alnum_tokens [] separated)
      in if list_ex (\<lambda>t. t \<in> set RAW_CONTROL_TOKENS) tokens then True
         else let compact = casefold_ascii (filter is_alnum separated)
              in list_ex (\<lambda>t. prefix t compact \<or> suffix t compact) RAW_CONTROL_TOKENS)"

section \<open>The raw-control scan\<close>

text \<open>\<^verbatim>\<open>repr\<close> of a string.\<close>

definition hex_digit :: "nat \<Rightarrow> char" where
  "hex_digit n = (if n < 10 then char_of (48 + n) else char_of (87 + n))"

definition repr_char :: "char \<Rightarrow> char \<Rightarrow> string" where
  "repr_char quote c =
     (let n = (of_char c :: nat) in
      if c = quote \<or> c = backslash_char then [backslash_char, c]
      else if n = 9 then [backslash_char, CHR ''t'']
      else if n = 10 then [backslash_char, CHR ''n'']
      else if n = 13 then [backslash_char, CHR ''r'']
      else if n < 32 \<or> (127 \<le> n \<and> n \<le> 160) \<or> n = 173
      then [backslash_char, CHR ''x'', hex_digit (n div 16), hex_digit (n mod 16)]
      else [c])"

definition py_repr :: "string \<Rightarrow> string" where
  "py_repr s =
     (let single = CHR 0x27;
          quote = (if single \<in> set s \<and> quote_char \<notin> set s then quote_char else single)
      in [quote] @ concat (map (repr_char quote) s) @ [quote])"

definition child_path :: "string \<Rightarrow> string \<Rightarrow> string" where
  "child_path path key =
     (if PARAMETER_IDENTIFIER key then path @ ''.'' @ key else path @ ''['' @ py_repr key @ '']'')"

definition index_path :: "string \<Rightarrow> nat \<Rightarrow> string" where
  "index_path path i = path @ ''['' @ show_nat i @ '']''"

definition MAX_SCAN_DEPTH :: nat where "MAX_SCAN_DEPTH = 64"
definition MAX_SCAN_NODES :: nat where "MAX_SCAN_NODES = 10000"

text \<open>
  \<open>py_json_depth\<close> is the nesting at which the JSON decoder gives up. \<open>py_id step n v\<close> is what \<^verbatim>\<open>id\<close>
  returns for the container \<open>v\<close> that the scan of \<open>step\<close> visits as its \<open>n\<close>-th item.
\<close>

record interpreter =
  py_json_depth :: nat
  py_id :: "string \<Rightarrow> nat \<Rightarrow> pyval \<Rightarrow> int"

definition decode_serialized_container :: "nat \<Rightarrow> string \<Rightarrow> policy_message + pyval option" where
  "decode_serialized_container json_depth value =
     (let stripped = py_strip value in
      if stripped = [] \<or> \<not> (hd stripped = CHR ''{'' \<or> hd stripped = CHR ''['') then Inr None
      else case json_loads json_depth stripped of
             Inl JSONDecodeError \<Rightarrow> Inr None
           | Inl _ \<Rightarrow> Inl DecodeLimitExceeded
           | Inr decoded \<Rightarrow>
               Inr (case decoded of
                      PyDict _ \<Rightarrow> Some decoded
                    | PyList _ \<Rightarrow> Some decoded
                    | PyTuple _ \<Rightarrow> Some decoded
                    | _ \<Rightarrow> None))"

type_synonym scan_item = "pyval \<times> string \<times> nat"
type_synonym raw_identifier = "string \<times> string"

definition scan_string ::
    "nat \<Rightarrow> string \<Rightarrow> string \<Rightarrow> nat \<Rightarrow> policy_message + scan_item list \<times> raw_identifier list" where
  "scan_string json_depth item path depth =
     (let own = (if PARAMETER_IDENTIFIER item \<and> contains_raw_control_token item then [(path, item)] else []);
          keys = map (Pair path) (filter contains_raw_control_token (SERIALIZED_KEY item))
      in and_try (decode_serialized_container json_depth item) (\<lambda>decoded.
           Inr (case decoded of None \<Rightarrow> [] | Some v \<Rightarrow> [(v, path, depth + 1)], own @ keys)))"

text \<open>The entries are pushed and reported last to first, so the first one is scanned next.\<close>

definition scan_mapping ::
    "(string \<times> pyval) list \<Rightarrow> string \<Rightarrow> nat \<Rightarrow> scan_item list \<times> raw_identifier list" where
  "scan_mapping entries path depth =
     (map (\<lambda>(key, child). (child, child_path path key, depth + 1)) entries,
      map (\<lambda>(key, child). (child_path path key, key))
        (filter (\<lambda>(key, child). contains_raw_control_token key) (rev entries)))"

definition scan_sequence :: "pyval list \<Rightarrow> string \<Rightarrow> nat \<Rightarrow> scan_item list" where
  "scan_sequence items path depth =
     map (\<lambda>(i, child). (child, index_path path i, depth + 1)) (enumerate 0 items)"

text \<open>One item: what it pushes, the containers seen, and what it reports.\<close>

definition scan_one ::
    "nat \<Rightarrow> int \<Rightarrow> pyval \<Rightarrow> string \<Rightarrow> nat \<Rightarrow> int list
     \<Rightarrow> policy_message + scan_item list \<times> int list \<times> raw_identifier list" where
  "scan_one json_depth marker item path depth seen =
     (case item of
        PyStr s \<Rightarrow>
          and_try (scan_string json_depth s path depth) (\<lambda>(push, found). Inr (push, seen, found))
      | PyDict entries \<Rightarrow>
          if marker \<in> set seen then Inr ([], seen, [])
          else (case scan_mapping entries path depth of
             (push, found) \<Rightarrow> Inr (push, marker # seen, found))
      | PyList items \<Rightarrow>
          if marker \<in> set seen then Inr ([], seen, [])
          else Inr (scan_sequence items path depth, marker # seen, [])
      | PyTuple items \<Rightarrow>
          if marker \<in> set seen then Inr ([], seen, [])
          else Inr (scan_sequence items path depth, marker # seen, [])
      | _ \<Rightarrow> Inr ([], seen, []))"

function scan_loop ::
    "nat \<Rightarrow> (nat \<Rightarrow> pyval \<Rightarrow> int) \<Rightarrow> scan_item list \<Rightarrow> int list \<Rightarrow> nat \<Rightarrow> raw_identifier list
     \<Rightarrow> string \<times> policy_message + raw_identifier list" where
  "scan_loop json_depth ident [] seen scanned_nodes findings = Inr findings"
| "scan_loop json_depth ident ((item, path, depth) # stack) seen scanned_nodes findings =
     (if depth > MAX_SCAN_DEPTH \<or> scanned_nodes + 1 > MAX_SCAN_NODES then Inl (path, ScanLimitExceeded)
      else case scan_one json_depth (ident (scanned_nodes + 1) item) item path depth seen of
             Inl message \<Rightarrow> Inl (path, message)
           | Inr (push, seen', found) \<Rightarrow>
               scan_loop json_depth ident (push @ stack) seen' (scanned_nodes + 1) (findings @ found))"
  by pat_completeness auto
termination
  by (relation "measure (\<lambda>(json_depth, ident, stack, seen, scanned_nodes, findings). MAX_SCAN_NODES - scanned_nodes)") auto

declare scan_loop.simps [simp del]

definition find_raw_control_identifiers ::
    "nat \<Rightarrow> (nat \<Rightarrow> pyval \<Rightarrow> int) \<Rightarrow> (string \<times> pyval) list \<Rightarrow> string \<times> policy_message + raw_identifier list" where
  "find_raw_control_identifiers json_depth ident parameters =
     scan_loop json_depth ident [(PyDict parameters, ''parameters'', 0)] [] 0 []"

section \<open>Decisions\<close>

record policy_validator =
  pv_registry :: registry
  pv_policy_config :: policy_config

definition init_validator :: "registry \<Rightarrow> policy_config \<Rightarrow> policy_validator" where
  "init_validator reg config =
     \<lparr>pv_registry = reg, pv_policy_config = snapshot_policy_config config\<rparr>"

definition check_step ::
    "interpreter \<Rightarrow> registry \<Rightarrow> policy_config_state \<Rightarrow> string list \<Rightarrow> task_step
     \<Rightarrow> py_exception + policy_decision" where
  "check_step py reg config confirmed step =
     (let action = ts_action step;
          version = cs_policy_version config
      in and_try (validate_action reg action) (\<lambda>registry_result.
           Inr (if \<not> vr_is_valid registry_result
                then policy_decision_of step DENY TOOL_REGISTRY_DENIED version
                       (map (\<lambda>(fld, err). policy_finding_of step fld (RegistryError err)) (vr_errors registry_result))
                else case find_raw_control_identifiers (py_json_depth py) (py_id py (ts_step_id step))
                            (sa_parameters action) of
                  Inl (fld, message) \<Rightarrow>
                    policy_decision_of step DENY POLICY_INPUT_MALFORMED version
                      [policy_finding_of step fld message]
                | Inr raw_identifiers \<Rightarrow>
                    if raw_identifiers \<noteq> []
                    then policy_decision_of step DENY RAW_CONTROL_PARAMETER version
                           (map (\<lambda>(fld, name). policy_finding_of step fld (RawControlIdentifier name)) raw_identifiers)
                    else if sa_action_type action \<in> set (cs_high_impact_actions config)
                            \<and> sa_action_id action \<notin> set confirmed
                    then policy_decision_of step CONFIRMATION_REQUIRED ACTION_CONFIRMATION_REQUIRED version
                           [policy_finding_of step ''confirmation'' ConfirmationNeeded]
                    else policy_decision_of step ALLOW POLICY_ALLOWED version [])))"

definition check :: "interpreter \<Rightarrow> policy_validator \<Rightarrow> task_graph \<Rightarrow> pyval \<Rightarrow> py_exception + policy_report" where
  "check py validator graph confirmed_action_ids =
     (let config = validate_policy_config (pv_policy_config validator) (pv_registry validator)
      in case cs_error config of
           Some err \<Rightarrow> Inr (map (\<lambda>step. config_error_decision step config err) (tg_steps graph))
         | None \<Rightarrow>
             (case snapshot_confirmed_action_ids confirmed_action_ids of
                None \<Rightarrow> Inr (map (\<lambda>step. malformed_confirmation_decision step config) (tg_steps graph))
              | Some confirmed \<Rightarrow>
                  gather (\<lambda>step. and_try (check_step py (pv_registry validator) config confirmed step) (\<lambda>d. Inr [d]))
                    (tg_steps graph)))"

datatype enforce_error = RegistryRaised py_exception | PolicyViolation policy_report

definition enforce :: "interpreter \<Rightarrow> policy_validator \<Rightarrow> task_graph \<Rightarrow> pyval \<Rightarrow> enforce_error + unit" where
  "enforce py validator graph confirmed_action_ids =
     (case check py validator graph confirmed_action_ids of
        Inl e \<Rightarrow> Inl (RegistryRaised e)
      | Inr report \<Rightarrow> if report_is_valid report then Inr () else Inl (PolicyViolation report))"

section \<open>What the scan looks for\<close>

text \<open>
  Every name a value carries: the keys of a mapping, a string that is an identifier, the keys a
  string assigns to; and the values one level below, where a string that decodes to a container
  has that container below it. \<open>names_at n v\<close> are the names \<open>n\<close> levels below \<open>v\<close>. This says nothing
  about a stack, about identities or about limits.
\<close>

definition own_names :: "pyval \<Rightarrow> string list" where
  "own_names v =
     (case v of
        PyStr s \<Rightarrow> (if PARAMETER_IDENTIFIER s then [s] else []) @ SERIALIZED_KEY s
      | PyDict d \<Rightarrow> map fst d
      | _ \<Rightarrow> [])"

definition below :: "nat \<Rightarrow> pyval \<Rightarrow> pyval list" where
  "below json_depth v =
     (case v of
        PyStr s \<Rightarrow> (case decode_serialized_container json_depth s of Inr (Some w) \<Rightarrow> [w] | _ \<Rightarrow> [])
      | PyDict d \<Rightarrow> map snd d
      | PyList xs \<Rightarrow> xs
      | PyTuple xs \<Rightarrow> xs
      | _ \<Rightarrow> [])"

primrec names_at :: "nat \<Rightarrow> nat \<Rightarrow> pyval \<Rightarrow> string set" where
  "names_at json_depth 0 v = set (own_names v)"
| "names_at json_depth (Suc n) v = (\<Union>w\<in>set (below json_depth v). names_at json_depth n w)"

definition raw_names :: "nat \<Rightarrow> pyval \<Rightarrow> string set" where
  "raw_names json_depth v = {x. contains_raw_control_token x \<and> (\<exists>n. x \<in> names_at json_depth n v)}"

text \<open>What \<^verbatim>\<open>id\<close> must provide: two containers it gives the same number have the same contents.\<close>

definition faithful_ids :: "(nat \<Rightarrow> pyval \<Rightarrow> int) \<Rightarrow> bool" where
  "faithful_ids ident \<longleftrightarrow> (\<forall>m n v w. ident m v = ident n w \<longrightarrow> v = w)"

lemma raw_names_unfold:
  "raw_names jd v = {x \<in> set (own_names v). contains_raw_control_token x} \<union> (\<Union>w\<in>set (below jd v). raw_names jd w)"
proof -
  have "(\<exists>n. x \<in> names_at jd n v) \<longleftrightarrow> x \<in> set (own_names v) \<or> (\<exists>n. x \<in> names_at jd (Suc n) v)" for x
    by (metis names_at.simps(1) not0_implies_Suc)
  then show ?thesis by (auto simp: raw_names_def)
qed

lemma map_fst_scan_sequence [simp]: "map fst (scan_sequence items path depth) = items"
  by (simp add: scan_sequence_def comp_def case_prod_unfold enumerate_eq_zip)

lemma set_filter_mapping: "set (map snd (snd (scan_mapping d path depth))) = {x \<in> set (map fst d). contains_raw_control_token x}"
  by (force simp: scan_mapping_def)

lemma map_fst_scan_mapping [simp]: "map fst (fst (scan_mapping d path depth)) = map snd d"
  by (simp add: scan_mapping_def comp_def case_prod_unfold)

text \<open>An item is either skipped, because its identity was seen, or taken apart.\<close>

lemma scan_one_cases:
  assumes "scan_one jd marker item path depth seen = Inr (push, seen', found)"
  obtains (skip) "marker \<in> set seen" "push = []" "seen' = seen" "found = []"
  | (expand) "set (map snd found) = {x \<in> set (own_names item). contains_raw_control_token x}"
      "map fst push = below jd item" "seen' = seen \<or> seen' = marker # seen"
proof (cases item)
  case (PyStr s)
  then obtain decoded where "decode_serialized_container jd s = Inr decoded"
    and "push = (case decoded of None \<Rightarrow> [] | Some v \<Rightarrow> [(v, path, depth + 1)])"
    and "found = (if PARAMETER_IDENTIFIER s \<and> contains_raw_control_token s then [(path, s)] else [])
                   @ map (Pair path) (filter contains_raw_control_token (SERIALIZED_KEY s))"
    and "seen' = seen"
    using assms by (auto simp: scan_one_def scan_string_def and_try_Inr Let_def)
  then show ?thesis
    using PyStr by (intro expand) (auto simp: own_names_def below_def comp_def split: option.splits)
next
  case (PyDict d)
  show ?thesis
  proof (cases "marker \<in> set seen")
    case False
    then have "push = fst (scan_mapping d path depth)" "found = snd (scan_mapping d path depth)" "seen' = marker # seen"
      using assms PyDict by (auto simp: scan_one_def split: prod.splits)
    then show ?thesis
      using PyDict set_filter_mapping by (intro expand) (simp_all add: own_names_def below_def)
  qed (use assms PyDict in \<open>intro skip, simp_all add: scan_one_def\<close>)
next
  case (PyList xs)
  show ?thesis
  proof (cases "marker \<in> set seen")
    case False
    then show ?thesis
      using assms PyList by (intro expand) (auto simp: scan_one_def own_names_def below_def)
  qed (use assms PyList in \<open>intro skip, simp_all add: scan_one_def\<close>)
next
  case (PyTuple xs)
  show ?thesis
  proof (cases "marker \<in> set seen")
    case False
    then show ?thesis
      using assms PyTuple by (intro expand) (auto simp: scan_one_def own_names_def below_def)
  qed (use assms PyTuple in \<open>intro skip, simp_all add: scan_one_def\<close>)
qed (use assms in \<open>intro expand, auto simp: scan_one_def own_names_def below_def\<close>)

text \<open>
  A name is covered within \<open>n\<close> levels when it is reported or is less than \<open>n\<close> levels below a value
  still to be scanned. The bound is what makes skipping an item sound that covers itself.
\<close>

definition covered :: "nat \<Rightarrow> pyval set \<Rightarrow> string set \<Rightarrow> nat \<Rightarrow> string \<Rightarrow> bool" where
  "covered jd todo found n x \<longleftrightarrow> x \<in> found \<or> (\<exists>v\<in>todo. \<exists>m<n. x \<in> names_at jd m v)"

lemma covered_mono: "covered jd todo found m x \<Longrightarrow> m \<le> n \<Longrightarrow> covered jd todo found n x"
  unfolding covered_def by (meson less_le_trans)

lemma covered_replace:
  assumes "covered jd (insert v todo) found n x"
    and "\<And>m. x \<in> names_at jd m v \<Longrightarrow> covered jd (set below_v \<union> todo) (found \<union> new) m x"
  shows "covered jd (set below_v \<union> todo) (found \<union> new) n x"
proof -
  consider "x \<in> found" | w m where "w \<in> todo" "m < n" "x \<in> names_at jd m w" | m where "m < n" "x \<in> names_at jd m v"
    using assms(1) by (auto simp: covered_def)
  then show ?thesis
  proof cases
    case 3
    then show ?thesis using covered_mono [OF assms(2) [OF 3(2)], of n] by simp
  qed (auto simp: covered_def)
qed

lemma covered_expand:
  assumes "x \<in> names_at jd n v" and "contains_raw_control_token x"
    and "{x \<in> set (own_names v). contains_raw_control_token x} \<subseteq> new"
  shows "covered jd (set (below jd v) \<union> todo) (found \<union> new) n x"
  using assms by (cases n) (auto simp: covered_def)

lemma covered_skip:
  assumes "\<And>n. x \<in> names_at jd n v \<Longrightarrow> covered jd (insert v todo) found n x"
    and "x \<in> names_at jd n v"
  shows "covered jd todo found n x"
proof -
  define k where "k = (LEAST k. x \<in> names_at jd k v)"
  have k: "x \<in> names_at jd k v" and least: "\<And>m. m < k \<Longrightarrow> x \<notin> names_at jd m v"
    unfolding k_def using assms(2) by (auto intro: LeastI dest: not_less_Least)
  moreover have "k \<le> n" unfolding k_def using assms(2) by (rule Least_le)
  ultimately show ?thesis
    using assms(1) [OF k] by (intro covered_mono [of jd todo found k x n]) (auto simp: covered_def)
qed

text \<open>
  The invariant of the loop, for the set \<open>target\<close> of names to report: nothing else is reported or
  left to scan; every one of them is covered; and so is every name of a container marked as seen.
\<close>

definition scan_inv ::
    "nat \<Rightarrow> (nat \<Rightarrow> pyval \<Rightarrow> int) \<Rightarrow> string set \<Rightarrow> pyval set \<Rightarrow> int set \<Rightarrow> string set \<Rightarrow> bool" where
  "scan_inv jd ident target todo seen found \<longleftrightarrow>
     found \<subseteq> target \<and> (\<forall>v\<in>todo. raw_names jd v \<subseteq> target)
     \<and> (\<forall>x\<in>target. contains_raw_control_token x \<and> (\<exists>n. covered jd todo found n x))
     \<and> (\<forall>i\<in>seen. \<exists>k w. i = ident k w \<and>
          (\<forall>n x. contains_raw_control_token x \<longrightarrow> x \<in> names_at jd n w \<longrightarrow> covered jd todo found n x))"

lemma scan_inv_replace:
  assumes inv: "scan_inv jd ident target (insert v todo) seen found"
    and new: "new \<subseteq> target" and push: "\<And>w. w \<in> set ws \<Longrightarrow> raw_names jd w \<subseteq> target"
    and cov: "\<And>n x. contains_raw_control_token x \<Longrightarrow> x \<in> names_at jd n v
                \<Longrightarrow> covered jd (set ws \<union> todo) (found \<union> new) n x"
    and seen': "seen' \<subseteq> insert (ident k v) seen"
  shows "scan_inv jd ident target (set ws \<union> todo) seen' (found \<union> new)"
proof -
  have step: "covered jd (set ws \<union> todo) (found \<union> new) n x"
    if "contains_raw_control_token x" "covered jd (insert v todo) found n x" for n x
    using covered_replace [OF that(2) cov [OF that(1)]] .
  have "\<exists>k w. i = ident k w \<and> (\<forall>n x. contains_raw_control_token x \<longrightarrow> x \<in> names_at jd n w \<longrightarrow>
           covered jd (set ws \<union> todo) (found \<union> new) n x)" if "i \<in> seen'" for i
  proof (cases "i \<in> seen")
    case True
    then show ?thesis using inv step unfolding scan_inv_def by blast
  next
    case False
    then have "i = ident k v" using that seen' by blast
    then show ?thesis using cov by blast
  qed
  moreover have "\<exists>n. covered jd (set ws \<union> todo) (found \<union> new) n x" if "x \<in> target" for x
    using inv that step unfolding scan_inv_def by blast
  ultimately show ?thesis
    using inv new push unfolding scan_inv_def by blast
qed

lemma scan_inv_step:
  assumes inv: "scan_inv jd ident target (insert item todo) (set seen) found"
    and ids: "faithful_ids ident"
    and one: "scan_one jd (ident n item) item path depth seen = Inr (push, seen', new)"
  shows "scan_inv jd ident target (set (map fst push) \<union> todo) (set seen') (found \<union> set (map snd new))"
  using one
proof (cases rule: scan_one_cases)
  case skip
  obtain k w where "ident n item = ident k w"
    and w: "\<And>m x. contains_raw_control_token x \<Longrightarrow> x \<in> names_at jd m w \<Longrightarrow> covered jd (insert item todo) found m x"
    using inv skip(1) unfolding scan_inv_def by blast
  then have "w = item" using ids unfolding faithful_ids_def by metis
  then have "covered jd todo found m x" if "contains_raw_control_token x" "x \<in> names_at jd m item" for m x
    using covered_skip [OF _ that(2)] w [OF that(1)] by blast
  then show ?thesis
    using skip scan_inv_replace [OF inv, of "{}" "[]" "set seen" n] by (simp add: subset_insertI)
next
  case expand
  have item: "raw_names jd item \<subseteq> target" using inv by (auto simp: scan_inv_def)
  show ?thesis
  proof (rule scan_inv_replace [OF inv])
    show "set (map snd new) \<subseteq> target"
      using item expand(1) raw_names_unfold [of jd item] by auto
    show "raw_names jd w \<subseteq> target" if "w \<in> set (map fst push)" for w
      using item that expand(2) raw_names_unfold [of jd item] by auto
    show "covered jd (set (map fst push) \<union> todo) (found \<union> set (map snd new)) m x"
      if "contains_raw_control_token x" "x \<in> names_at jd m item" for m x
      using covered_expand [OF that(2,1)] expand(1,2) by (metis order_refl)
    show "set seen' \<subseteq> insert (ident n item) (set seen)"
      using expand(3) by auto
  qed
qed

lemma scan_loop_exact:
  assumes "faithful_ids ident"
    and "scan_inv jd ident target (fst ` set stack) (set seen) (snd ` set findings)"
    and "scan_loop jd ident stack seen n findings = Inr result"
  shows "snd ` set result = target"
  using assms
proof (induction jd ident stack seen n findings rule: scan_loop.induct)
  case (1 jd ident seen n findings)
  then show ?case
    by (auto simp: scan_loop.simps scan_inv_def covered_def)
next
  case (2 jd ident item path depth stack seen n findings)
  have limits: "\<not> (MAX_SCAN_DEPTH < depth \<or> MAX_SCAN_NODES < n + 1)"
    using 2(4) by (auto simp: scan_loop.simps)
  then obtain push seen' new
    where one: "scan_one jd (ident (n + 1) item) item path depth seen = Inr (push, seen', new)"
      and rest: "scan_loop jd ident (push @ stack) seen' (n + 1) (findings @ new) = Inr result"
    using 2(4) by (auto simp: scan_loop.simps(2) split: sum.splits)
  have "scan_inv jd ident target (insert item (fst ` set stack)) (set seen) (snd ` set findings)"
    using 2(3) by simp
  from scan_inv_step [OF this 2(2) one]
  have "scan_inv jd ident target (fst ` set (push @ stack)) (set seen') (snd ` set (findings @ new))"
    by (simp add: image_Un)
  then show ?case using "2.IH" [OF limits one refl refl 2(2) _ rest] by simp
qed

lemma scan_inv_start:
  "scan_inv jd ident (raw_names jd v) {v} {} {}"
  by (auto simp: scan_inv_def covered_def raw_names_def)

lemma find_raw_exact:
  assumes "faithful_ids ident" and "find_raw_control_identifiers jd ident parameters = Inr findings"
  shows "snd ` set findings = raw_names jd (PyDict parameters)"
proof (rule scan_loop_exact [OF assms(1)])
  show "scan_loop jd ident [(PyDict parameters, ''parameters'', 0)] [] 0 [] = Inr findings"
    using assms(2) by (simp add: find_raw_control_identifiers_def)
  show "scan_inv jd ident (raw_names jd (PyDict parameters)) (fst ` set [(PyDict parameters, ''parameters'', 0)])
          (set []) (snd ` set [])"
    using scan_inv_start by simp
qed

section \<open>What the policy allows\<close>

text \<open>A configuration the policy can be applied with, and the action types it calls high-impact.\<close>

definition usable_config :: "registry \<Rightarrow> policy_config \<Rightarrow> action_type set \<Rightarrow> bool" where
  "usable_config reg c high \<longleftrightarrow>
     (\<exists>d version actions.
        c = ConfigMapping d \<and> set (map fst d) = {''policy_version'', ''high_impact_actions''}
        \<and> map_of d ''policy_version'' = Some (ConfigStr version) \<and> \<not> py_blank version
        \<and> map_of d ''high_impact_actions'' = Some (ConfigFrozenset actions)
        \<and> set actions = KnownAction ` high \<and> high \<subseteq> set (list_all_tools reg))"

text \<open>A set of non-blank strings.\<close>

definition usable_confirmation :: "pyval \<Rightarrow> string set \<Rightarrow> bool" where
  "usable_confirmation v ids \<longleftrightarrow>
     (\<exists>xs. v = PySet xs \<and> set xs = PyStr ` ids \<and> (\<forall>s\<in>ids. \<not> py_blank s))"

text \<open>
  The authorisation rule: usable configuration and confirmation, an action the registry accepts,
  parameters the scan gets through that carry no raw-control name, and a confirmation of this very
  action if its type is high-impact.
\<close>

definition authorized :: "interpreter \<Rightarrow> registry \<Rightarrow> policy_config \<Rightarrow> pyval \<Rightarrow> task_step \<Rightarrow> bool" where
  "authorized py reg config confirmed step \<longleftrightarrow>
     (\<exists>high ids.
        usable_config reg config high \<and> usable_confirmation confirmed ids
        \<and> accepts reg (ts_action step)
        \<and> \<not> isl (find_raw_control_identifiers (py_json_depth py) (py_id py (ts_step_id step)) (sa_parameters (ts_action step)))
        \<and> raw_names (py_json_depth py) (PyDict (sa_parameters (ts_action step))) = {}
        \<and> (sa_action_type (ts_action step) \<in> high \<longrightarrow> step_action_id step \<in> ids))"

lemma mem_known_actions: "t \<in> set (known_actions actions) \<longleftrightarrow> KnownAction t \<in> set actions"
proof (induction actions)
  case (Cons a actions)
  then show ?case by (cases a) (auto simp: known_actions_def)
qed (simp add: known_actions_def)

lemma known_actions_image:
  assumes "set actions = KnownAction ` high"
  shows "set (known_actions actions) = high"
  using assms mem_known_actions [of _ actions] by auto

lemma all_known:
  assumes "\<not> list_ex (unknown_action reg) actions"
  shows "set actions = KnownAction ` set (known_actions actions)"
    and "set (known_actions actions) \<subseteq> set (list_all_tools reg)"
proof -
  have known: "\<exists>t. a = KnownAction t \<and> t \<in> set (list_all_tools reg)" if "a \<in> set actions" for a
    using assms that by (cases a) (auto simp: list_ex_iff unknown_action_def)
  show "set actions = KnownAction ` set (known_actions actions)"
    using known mem_known_actions [of _ actions] by blast
  show "set (known_actions actions) \<subseteq> set (list_all_tools reg)"
    using known mem_known_actions [of _ actions] by blast
qed

lemma validate_config_ok:
  assumes "cs_error (validate_policy_config c reg) = None"
  obtains d version actions where "c = ConfigMapping d" "set (map fst d) = set POLICY_CONFIG_KEYS"
    "map_of d ''policy_version'' = Some (ConfigStr version)" "\<not> py_blank version"
    "map_of d ''high_impact_actions'' = Some (ConfigFrozenset actions)"
    "\<not> list_ex (unknown_action reg) actions"
    "cs_high_impact_actions (validate_policy_config c reg) = known_actions actions"
proof -
  obtain d where c: "c = ConfigMapping d"
    using assms by (cases c) (simp_all add: validate_policy_config_def config_error_def)
  have keys: "set (map fst d) = set POLICY_CONFIG_KEYS"
  proof (rule ccontr)
    assume "set (map fst d) \<noteq> set POLICY_CONFIG_KEYS"
    then show False using assms by (simp add: c validate_policy_config_def config_error_def del: set_map)
  qed
  obtain v where v: "map_of d ''policy_version'' = Some v"
    using assms keys unfolding c validate_policy_config_def
    by (cases "map_of d ''policy_version''") (simp_all add: config_error_def)
  obtain version where version: "v = ConfigStr version" "\<not> py_blank version"
    using assms keys v unfolding c validate_policy_config_def
    by (cases v) (simp_all add: config_error_def split: if_split_asm)
  obtain w where w: "map_of d ''high_impact_actions'' = Some w"
    using assms keys v version unfolding c validate_policy_config_def
    by (cases "map_of d ''high_impact_actions''") (simp_all add: config_error_def)
  obtain actions where actions: "w = ConfigFrozenset actions" "\<not> list_ex (unknown_action reg) actions"
    using assms keys v version w unfolding c validate_policy_config_def
    by (cases w) (simp_all add: config_error_def split: if_split_asm)
  show ?thesis
  proof (rule that [of d version actions])
    show "cs_high_impact_actions (validate_policy_config c reg) = known_actions actions"
      using keys v version w actions by (simp add: c validate_policy_config_def)
  qed (use c keys v version w actions in simp_all)
qed

lemma usable_config_iff:
  "usable_config reg c high \<longleftrightarrow>
     cs_error (validate_policy_config c reg) = None
     \<and> set (cs_high_impact_actions (validate_policy_config c reg)) = high" (is "?L \<longleftrightarrow> ?R")
proof
  assume ?L
  then obtain d version actions where c: "c = ConfigMapping d"
    and keys: "set (map fst d) = {''policy_version'', ''high_impact_actions''}"
    and version: "map_of d ''policy_version'' = Some (ConfigStr version)" "\<not> py_blank version"
    and actions: "map_of d ''high_impact_actions'' = Some (ConfigFrozenset actions)"
    and high: "set actions = KnownAction ` high" "high \<subseteq> set (list_all_tools reg)"
    unfolding usable_config_def by (elim exE conjE) (rule that; assumption)
  have "\<not> list_ex (unknown_action reg) actions"
    using high by (auto simp: list_ex_iff unknown_action_def)
  moreover have "set (map fst d) = set POLICY_CONFIG_KEYS"
    using keys by (simp only: POLICY_CONFIG_KEYS_def list.set)
  ultimately show ?R
    using c version actions known_actions_image [OF high(1)]
    by (simp add: validate_policy_config_def)
next
  assume R: ?R
  then have "cs_error (validate_policy_config c reg) = None" ..
  then show ?L
  proof (cases rule: validate_config_ok)
    case (1 d version actions)
    have keys: "set (map fst d) = {''policy_version'', ''high_impact_actions''}"
      using 1(2) by (simp only: POLICY_CONFIG_KEYS_def list.set)
    moreover have "set (known_actions actions) = high" using R 1(7) by argo
    ultimately have "set actions = KnownAction ` high" "high \<subseteq> set (list_all_tools reg)"
      using all_known [OF 1(6)] by simp_all
    then show ?thesis
      unfolding usable_config_def using 1 keys by (intro exI conjI)
  qed
qed

lemma non_blank_string:
  "(case x of PyStr s \<Rightarrow> \<not> py_blank s | _ \<Rightarrow> False) \<longleftrightarrow> (\<exists>s. x = PyStr s \<and> \<not> py_blank s)"
  by (cases x) simp_all

lemma mem_strings: "s \<in> set (py_strings xs) \<longleftrightarrow> PyStr s \<in> set xs"
proof (induction xs)
  case (Cons a xs)
  then show ?case by (cases a) (auto simp: py_strings_def)
qed (simp add: py_strings_def)

lemma snapshot_confirmed_Some:
  "snapshot_confirmed_action_ids v = Some ids \<longleftrightarrow>
     (\<exists>xs. v = PySet xs \<and> (\<forall>x\<in>set xs. \<exists>s. x = PyStr s \<and> \<not> py_blank s) \<and> ids = py_strings xs)"
  by (cases v) (simp_all add: snapshot_confirmed_action_ids_def non_blank_string list_all_iff, blast)

lemma strings_image:
  "(\<forall>x\<in>set xs. \<exists>s. x = PyStr s \<and> \<not> py_blank s) \<longleftrightarrow>
     set xs = PyStr ` set (py_strings xs) \<and> (\<forall>s\<in>set (py_strings xs). \<not> py_blank s)" (is "?L \<longleftrightarrow> ?R")
proof
  assume L: ?L
  have "x \<in> set xs \<longleftrightarrow> x \<in> PyStr ` set (py_strings xs)" for x
  proof (cases x)
    case (PyStr s)
    then show ?thesis by (simp add: inj_image_mem_iff inj_def mem_strings)
  qed (use L in auto)
  moreover have "\<not> py_blank s" if "s \<in> set (py_strings xs)" for s
    using L that by (auto simp: mem_strings)
  ultimately show ?R by auto
next
  assume ?R
  then show ?L by auto
qed

lemma usable_confirmation_iff:
  "usable_confirmation v ids \<longleftrightarrow> (\<exists>xs. snapshot_confirmed_action_ids v = Some xs \<and> set xs = ids)" (is "?L \<longleftrightarrow> ?R")
proof
  assume ?L
  then obtain xs where v: "v = PySet xs" and xs: "set xs = PyStr ` ids" and ids: "\<forall>s\<in>ids. \<not> py_blank s"
    unfolding usable_confirmation_def by blast
  have "s \<in> set (py_strings xs) \<longleftrightarrow> s \<in> ids" for s
    unfolding mem_strings xs by (simp add: inj_image_mem_iff inj_def)
  then have set: "set (py_strings xs) = ids" by (rule set_eqI)
  have "snapshot_confirmed_action_ids v = Some (py_strings xs)"
    using v xs ids set by (simp add: snapshot_confirmed_Some strings_image)
  with set show ?R by (intro exI conjI)
next
  assume ?R
  then show ?L
    unfolding usable_confirmation_def snapshot_confirmed_Some strings_image by (elim exE conjE) simp
qed

lemma scan_clean_iff:
  assumes "faithful_ids ident"
  shows "find_raw_control_identifiers jd ident parameters = Inr [] \<longleftrightarrow>
     \<not> isl (find_raw_control_identifiers jd ident parameters) \<and> raw_names jd (PyDict parameters) = {}"
  using find_raw_exact [OF assms, of jd parameters]
  by (cases "find_raw_control_identifiers jd ident parameters") auto

lemma check_step_decides:
  assumes "registry_ok reg"
  obtains d where "check_step py reg config confirmed step = Inr d"
    and "pd_step_id d = ts_step_id step" and "pd_action_id d = step_action_id step"
    and "pd_outcome d = ALLOW \<longleftrightarrow>
           accepts reg (ts_action step)
           \<and> find_raw_control_identifiers (py_json_depth py) (py_id py (ts_step_id step)) (sa_parameters (ts_action step)) = Inr []
           \<and> (sa_action_type (ts_action step) \<in> set (cs_high_impact_actions config) \<longrightarrow> step_action_id step \<in> set confirmed)"
proof -
  obtain r where r: "validate_action reg (ts_action step) = Inr r"
    using validate_action_total [OF assms] by blast
  let ?scan = "find_raw_control_identifiers (py_json_depth py) (py_id py (ts_step_id step)) (sa_parameters (ts_action step))"
  obtain d where d: "check_step py reg config confirmed step = Inr d"
    using r by (simp add: check_step_def Let_def)
  consider "\<not> vr_is_valid r" | e where "vr_is_valid r" "?scan = Inl e" | names where "vr_is_valid r" "?scan = Inr names"
    by (cases ?scan) auto
  then show ?thesis
  proof cases
    case 1
    show ?thesis
      by (rule that [OF d]) (use d r 1 in \<open>auto simp: check_step_def Let_def policy_decision_of_def accepts_def\<close>)
  next
    case 2
    show ?thesis
      by (rule that [OF d]) (use d r 2 in \<open>auto simp: check_step_def Let_def policy_decision_of_def split: prod.splits\<close>)
  next
    case 3
    show ?thesis
      by (rule that [OF d])
         (use d r 3 in \<open>auto simp: check_step_def Let_def policy_decision_of_def accepts_def split: if_splits\<close>)
  qed
qed

text \<open>The decision a check without exceptions gives for one step, and its outcome.\<close>

definition decides :: "interpreter \<Rightarrow> policy_validator \<Rightarrow> pyval \<Rightarrow> task_step \<Rightarrow> policy_decision \<Rightarrow> bool" where
  "decides py validator confirmed step d \<longleftrightarrow>
     pd_step_id d = ts_step_id step \<and> pd_action_id d = step_action_id step
     \<and> (pd_outcome d = ALLOW \<longleftrightarrow>
          authorized py (pv_registry validator) (pv_policy_config validator) confirmed step)"

lemma authorized_iff:
  fixes c :: policy_config and reg :: registry
  assumes "faithful_ids (py_id py (ts_step_id step))"
  defines "config \<equiv> validate_policy_config c reg"
  shows "authorized py reg c confirmed step \<longleftrightarrow>
     cs_error config = None
     \<and> (\<exists>ids. snapshot_confirmed_action_ids confirmed = Some ids
          \<and> accepts reg (ts_action step)
          \<and> find_raw_control_identifiers (py_json_depth py) (py_id py (ts_step_id step)) (sa_parameters (ts_action step)) = Inr []
          \<and> (sa_action_type (ts_action step) \<in> set (cs_high_impact_actions config) \<longrightarrow> step_action_id step \<in> set ids))"
  unfolding authorized_def usable_config_iff usable_confirmation_iff scan_clean_iff [OF assms(1)] config_def
  by auto

lemma gather_single:
  assumes "\<And>x. x \<in> set xs \<Longrightarrow> \<exists>y. f x = Inr y \<and> P x y"
  shows "\<exists>ys. gather (\<lambda>x. and_try (f x) (\<lambda>y. Inr [y])) xs = Inr ys \<and> list_all2 P xs ys"
  using assms
proof (induction xs)
  case (Cons x xs)
  then obtain y ys where "f x = Inr y" "P x y"
    "gather (\<lambda>x. and_try (f x) (\<lambda>y. Inr [y])) xs = Inr ys" "list_all2 P xs ys"
    by (metis list.set_intros(1) list.set_intros(2))
  then show ?case by simp
qed simp

lemma check_decides:
  assumes ok: "registry_ok (pv_registry validator)"
    and ids: "\<And>step. step \<in> set (tg_steps graph) \<Longrightarrow> faithful_ids (py_id py (ts_step_id step))"
  shows "\<exists>report. check py validator graph confirmed = Inr report
           \<and> list_all2 (decides py validator confirmed) (tg_steps graph) report"
proof -
  let ?config = "validate_policy_config (pv_policy_config validator) (pv_registry validator)"
  consider (config) e where "cs_error ?config = Some e"
    | (confirmation) "cs_error ?config = None" "snapshot_confirmed_action_ids confirmed = None"
    | (steps) xs where "cs_error ?config = None" "snapshot_confirmed_action_ids confirmed = Some xs"
    by (cases "cs_error ?config"; cases "snapshot_confirmed_action_ids confirmed") auto
  then show ?thesis
  proof cases
    case config
    have "decides py validator confirmed step (config_error_decision step ?config e)" if "step \<in> set (tg_steps graph)" for step
      using config authorized_iff [where c = "pv_policy_config validator" and reg = "pv_registry validator" and confirmed = confirmed] ids [OF that]
      by (cases e) (simp add: decides_def config_error_decision_def policy_decision_of_def)
    then show ?thesis using config by (simp add: check_def list_all2_map2 list_all2_same)
  next
    case confirmation
    have "decides py validator confirmed step (malformed_confirmation_decision step ?config)" if "step \<in> set (tg_steps graph)" for step
      using confirmation authorized_iff [where c = "pv_policy_config validator" and reg = "pv_registry validator" and confirmed = confirmed] ids [OF that]
      by (simp add: decides_def malformed_confirmation_decision_def policy_decision_of_def)
    then show ?thesis using confirmation by (simp add: check_def list_all2_map2 list_all2_same)
  next
    case (steps xs)
    have "\<exists>d. check_step py (pv_registry validator) ?config xs step = Inr d \<and> decides py validator confirmed step d"
      if "step \<in> set (tg_steps graph)" for step
      using check_step_decides [OF ok, of py ?config xs step] steps
        authorized_iff [where c = "pv_policy_config validator" and reg = "pv_registry validator" and confirmed = confirmed] ids [OF that]
      by (simp add: decides_def) metis
    from gather_single [OF this] show ?thesis using steps by (simp add: check_def Let_def)
  qed
qed

section \<open>Properties\<close>



section \<open>Concrete graphs\<close>

text \<open>Values are countable, so an identity that depends on the contents only is possible.\<close>

instance pyfloat :: countable by countable_datatype
instance pyval :: countable by countable_datatype

definition content_ids :: interpreter where
  "content_ids = \<lparr>py_json_depth = 1000, py_id = (\<lambda>_ _ v. int (to_nat v))\<rparr>"

lemma content_ids_faithful: "faithful_ids (py_id content_ids step_id)"
  by (simp add: faithful_ids_def content_ids_def)

definition demo_config :: policy_config where
  "demo_config =
     ConfigMapping [(''policy_version'', ConfigStr ''v1''),
       (''high_impact_actions'', ConfigFrozenset [KnownAction GRASP])]"

definition demo_validator :: policy_validator where
  "demo_validator = init_validator TOOL_SCHEMAS demo_config"

definition ask_graph :: "string \<Rightarrow> task_graph" where
  "ask_graph question =
     \<lparr>tg_task_id = ''t'', tg_goal = ''g'',
      tg_steps = [\<lparr>ts_step_id = ''s1'',
         ts_action = \<lparr>sa_action_id = ''a1'', sa_action_type = ASK_CONFIRM, sa_target_id = None,
                      sa_parameters = [(''question'', PyStr question)]\<rparr>,
         ts_depends_on = []\<rparr>],
      tg_planner = ''p'', tg_model_route = ''m''\<rparr>"

lemma assignment_is_found: "scan_string 1000 ''maxTorque = 3'' ''parameters.question'' (Suc 0) =
    Inr ([], [(''parameters.question'', ''maxTorque'')])"
  by code_simp

lemma question_path: "child_path ''parameters'' ''question'' = ''parameters.question''"
  and question_clean: "\<not> contains_raw_control_token ''question''"
  by code_simp+

lemma assignment_scan:
  "find_raw_control_identifiers 1000 ident [(''question'', PyStr ''maxTorque = 3'')] =
     Inr [(''parameters.question'', ''maxTorque'')]"
  by (simp add: find_raw_control_identifiers_def scan_loop.simps scan_one_def scan_mapping_def
      question_path question_clean assignment_is_found MAX_SCAN_DEPTH_def MAX_SCAN_NODES_def)



text \<open>
  A question whose text is a JSON list of three JSON texts, the last with a raw-control key. The
  scan decodes each text into a container of its own and drops it before the one after the next is
  decoded, so the memory of the first, item 5 of the scan, may be given to the third, item 11.
\<close>

definition json_text :: "string \<Rightarrow> string" where
  "json_text key =
     [quote_char] @ ''{'' @ [backslash_char, quote_char] @ key @ [backslash_char, quote_char] @ '':1}'' @ [quote_char]"

definition smuggled_question :: string where
  "smuggled_question =
     ''['' @ json_text ''a'' @ '','' @ json_text ''b'' @ '','' @ json_text ''joint'' @ '']''"

definition numbered_ids :: "bool \<Rightarrow> interpreter" where
  "numbered_ids reuse =
     \<lparr>py_json_depth = 1000, py_id = (\<lambda>_ n _. if reuse \<and> n = 11 then 5 else int n)\<rparr>"

definition inner_text :: "string \<Rightarrow> string" where
  "inner_text key = ''{'' @ [quote_char] @ key @ [quote_char] @ '':1}''"

lemma outer_scan:
  "decode_serialized_container 1000 smuggled_question = Inr (Some (PyList (map (PyStr \<circ> inner_text) [''a'', ''b'', ''joint''])))"
  "SERIALIZED_KEY smuggled_question = []" "PARAMETER_IDENTIFIER smuggled_question = False"
  by code_simp+

lemma inner_scan:
  assumes "key \<in> {''a'', ''b'', ''joint''}"
  shows "decode_serialized_container 1000 (inner_text key) = Inr (Some (PyDict [(key, PyInt 1)]))
    \<and> SERIALIZED_KEY (inner_text key) = [] \<and> PARAMETER_IDENTIFIER (inner_text key) = False"
proof -
  have "\<forall>key \<in> set [''a'', ''b'', ''joint''].
      decode_serialized_container 1000 (inner_text key) = Inr (Some (PyDict [(key, PyInt 1)]))
      \<and> SERIALIZED_KEY (inner_text key) = [] \<and> PARAMETER_IDENTIFIER (inner_text key) = False"
    by code_simp
  then show ?thesis using assms by auto
qed

lemma key_tokens:
  "contains_raw_control_token ''joint''" "\<not> contains_raw_control_token ''a''" "\<not> contains_raw_control_token ''b''"
  by code_simp+

lemmas smuggled_scan =
  find_raw_control_identifiers_def scan_loop.simps scan_one_def scan_mapping_def scan_sequence_def scan_string_def
  question_clean outer_scan inner_scan key_tokens MAX_SCAN_DEPTH_def MAX_SCAN_NODES_def

lemma distinct_ids_find_joint:
  "\<exists>path. find_raw_control_identifiers 1000 (py_id (numbered_ids False) step_id) [(''question'', PyStr smuggled_question)]
     = Inr [(path, ''joint'')]"
  by (simp add: smuggled_scan numbered_ids_def)

lemma reused_id_misses_joint:
  "find_raw_control_identifiers 1000 (py_id (numbered_ids True) step_id) [(''question'', PyStr smuggled_question)] = Inr []"
  by (simp add: smuggled_scan numbered_ids_def)

lemma smuggled_names: "''joint'' \<in> names_at 1000 (Suc (Suc (Suc (Suc 0)))) (PyDict [(''question'', PyStr smuggled_question)])"
  by (simp add: below_def own_names_def outer_scan inner_scan)

lemma demo_state:
  "validate_policy_config (pv_policy_config demo_validator) (pv_registry demo_validator) =
     \<lparr>cs_policy_version = Some ''v1'', cs_high_impact_actions = [GRASP], cs_error = None\<rparr>"
  by code_simp

lemma ask_decision:
  assumes "\<not> py_blank question"
    and "find_raw_control_identifiers (py_json_depth py) (py_id py ''s1'') [(''question'', PyStr question)] = Inr names"
  shows "map_sum id (map (\<lambda>d. (pd_outcome d, pd_reason_code d))) (check py demo_validator (ask_graph question) (PySet [])) =
     Inr [if names = [] then (ALLOW, POLICY_ALLOWED) else (DENY, RAW_CONTROL_PARAMETER)]"
proof -
  let ?a = "\<lparr>sa_action_id = ''a1'', sa_action_type = ASK_CONFIRM, sa_target_id = None,
              sa_parameters = [(''question'', PyStr question)]\<rparr>"
  have "accepts TOOL_SCHEMAS ?a"
    using assms(1) by (simp add: accepts_ask_confirm param_def present_def only_params_def text_value_def)
  then obtain r where "validate_action TOOL_SCHEMAS ?a = Inr r" "vr_is_valid r"
    by (auto simp: accepts_def split: sum.splits)
  moreover have "pv_registry demo_validator = TOOL_SCHEMAS"
    by (simp add: demo_validator_def init_validator_def)
  moreover have "snapshot_confirmed_action_ids (PySet []) = Some []" by code_simp
  ultimately show ?thesis
    using assms(2) demo_state
    by (simp add: check_def check_step_def ask_graph_def Let_def policy_decision_of_def)
qed

lemma smuggled_not_blank: "\<not> py_blank smuggled_question"
  by code_simp


end
