(* ===== verification/GraphStructure.thy ===== *)
theory GraphStructure
  imports Contracts "HOL-Library.AList"
begin

text \<open>
  The structural check of a task graph in
  \<^verbatim>\<open>services/agent_runtime/workbench_agent_runtime/execution_controller.py\<close>: duplicate ids, dependencies
  that are missing or not earlier, and the search for a dependency cycle.
\<close>

section \<open>Definitions\<close>

fun duplicates_from :: "string list \<Rightarrow> string list \<Rightarrow> string list \<Rightarrow> string list" where
  "duplicates_from seen duplicates [] = duplicates"
| "duplicates_from seen duplicates (value # vals) =
     duplicates_from (value # seen)
       (if value \<in> set seen \<and> value \<notin> set duplicates then duplicates @ [value] else duplicates) vals"

definition duplicates :: "string list \<Rightarrow> string list" where
  "duplicates vals = duplicates_from [] [] vals"

type_synonym dependency_map = "(string \<times> string list) list"

type_synonym visit_state = "string list \<times> string list"

text \<open>
  \<^verbatim>\<open>visit\<close> with the sets \<^verbatim>\<open>visiting\<close> and \<^verbatim>\<open>visited\<close> passed along; the inner loop is \<open>visit_each\<close>. \<open>None\<close>
  is running out of fuel, which a fuel above the number of steps excludes (\<open>has_cycle_returns\<close>).
\<close>

primrec visit_each ::
    "(string \<Rightarrow> visit_state \<Rightarrow> (bool \<times> visit_state) option) \<Rightarrow> dependency_map \<Rightarrow> string list \<Rightarrow> visit_state
     \<Rightarrow> (bool \<times> visit_state) option" where
  "visit_each visit deps [] st = Some (False, st)"
| "visit_each visit deps (d # ds) st =
     (if d \<in> set (map fst deps)
      then (case visit d st of
              None \<Rightarrow> None
            | Some (cyclic, st') \<Rightarrow> if cyclic then Some (True, st') else visit_each visit deps ds st')
      else visit_each visit deps ds st)"

primrec visit :: "dependency_map \<Rightarrow> nat \<Rightarrow> string \<Rightarrow> visit_state \<Rightarrow> (bool \<times> visit_state) option" where
  "visit deps 0 = (\<lambda>step_id st. None)"
| "visit deps (Suc fuel) = (\<lambda>step_id (visiting, visited).
     if step_id \<in> set visiting then Some (True, (visiting, visited))
     else if step_id \<in> set visited then Some (False, (visiting, visited))
     else (case visit_each (visit deps fuel) deps
                  (case map_of deps step_id of None \<Rightarrow> [] | Some ds \<Rightarrow> ds) (step_id # visiting, visited) of
             None \<Rightarrow> None
           | Some (cyclic, (visiting', visited')) \<Rightarrow>
               if cyclic then Some (True, (visiting', visited'))
               else Some (False, (removeAll step_id visiting', step_id # visited'))))"

text \<open>\<^verbatim>\<open>any(visit(step_id) for step_id in dependencies)\<close> is the same loop over all steps.\<close>

definition has_dependency_cycle :: "dependency_map \<Rightarrow> bool option" where
  "has_dependency_cycle deps =
     map_option fst (visit_each (visit deps (length deps + 1)) deps (map fst deps) ([], []))"

text \<open>\<^verbatim>\<open>{step_id: index for index, step_id in enumerate(step_ids)}\<close> keeps the last index of an id.\<close>

definition first_index :: "string list \<Rightarrow> (string \<times> nat) list" where
  "first_index step_ids = rev (zip step_ids [0..<length step_ids])"

definition dependency_errors :: "string list \<Rightarrow> nat \<Rightarrow> task_step \<Rightarrow> string list" where
  "dependency_errors step_ids index step =
     concat (map (\<lambda>dependency.
       case map_of (first_index step_ids) dependency of
         None \<Rightarrow> [ts_step_id step @ '' has missing dependency: '' @ dependency]
       | Some i \<Rightarrow>
           if dependency = ts_step_id step then [ts_step_id step @ '' depends on itself'']
           else if i > index then [ts_step_id step @ '' has forward dependency: '' @ dependency]
           else []) (ts_depends_on step))"

definition dependencies_of :: "task_step list \<Rightarrow> dependency_map" where
  "dependencies_of steps = foldl (\<lambda>deps step. AList.update (ts_step_id step) (ts_depends_on step) deps) [] steps"

definition graph_structure_errors :: "task_graph \<Rightarrow> string list" where
  "graph_structure_errors graph =
     (let step_ids = map ts_step_id (tg_steps graph);
          action_ids = map step_action_id (tg_steps graph)
      in map (\<lambda>d. ''duplicate step_id: '' @ d) (duplicates step_ids)
         @ map (\<lambda>d. ''duplicate action_id: '' @ d) (duplicates action_ids)
         @ concat (map (\<lambda>(index, step). dependency_errors step_ids index step) (enumerate 0 (tg_steps graph)))
         @ (if has_dependency_cycle (dependencies_of (tg_steps graph)) = Some True
            then [''cyclic dependency detected''] else []))"

section \<open>The cycle search\<close>

text \<open>The dependencies between known steps.\<close>

definition edges :: "dependency_map \<Rightarrow> (string \<times> string) set" where
  "edges deps = {(a, b). \<exists>ds. map_of deps a = Some ds \<and> b \<in> set ds \<and> b \<in> set (map fst deps)}"

text \<open>
  \<open>settled V D\<close>: the steps \<open>D\<close> that were visited are apart from those being visited, depend on each
  other only, and are on no cycle.
\<close>

definition settled :: "dependency_map \<Rightarrow> string set \<Rightarrow> string set \<Rightarrow> bool" where
  "settled deps V D \<longleftrightarrow>
     V \<inter> D = {} \<and> (\<forall>a\<in>D. \<forall>b. (a, b) \<in> edges deps \<longrightarrow> b \<in> D) \<and> (\<forall>a\<in>D. (a, a) \<notin> (edges deps)\<^sup>+)"

text \<open>What a visit of the steps \<open>X\<close> promises, started with \<open>V\<close> being visited and \<open>D\<close> visited.\<close>

definition visit_ok ::
    "dependency_map \<Rightarrow> string set \<Rightarrow> string set \<Rightarrow> string set \<Rightarrow> (bool \<times> visit_state) option \<Rightarrow> bool" where
  "visit_ok deps V D X out =
     (case out of
        None \<Rightarrow> False
      | Some (cyclic, (visiting, visited)) \<Rightarrow>
          if cyclic then \<exists>a. (a, a) \<in> (edges deps)\<^sup>+
          else set visiting = V \<and> D \<subseteq> set visited \<and> settled deps V (set visited)
               \<and> X \<inter> set (map fst deps) \<subseteq> set visited)"

lemma visit_okE:
  assumes "visit_ok deps V D X out"
  obtains (cyclic) a st where "out = Some (True, st)" "(a, a) \<in> (edges deps)\<^sup>+"
  | (settled) visiting visited where "out = Some (False, (visiting, visited))" "set visiting = V"
      "D \<subseteq> set visited" "settled deps V (set visited)" "X \<inter> set (map fst deps) \<subseteq> set visited"
  using assms unfolding visit_ok_def by (auto split: option.splits if_splits prod.splits)

lemma visit_ok_cong:
  "X \<inter> set (map fst deps) = Y \<inter> set (map fst deps) \<Longrightarrow> visit_ok deps V D X out = visit_ok deps V D Y out"
  by (simp only: visit_ok_def)

lemma visit_each_ok:
  assumes "\<And>d visiting visited. d \<in> set ds \<Longrightarrow> d \<in> set (map fst deps) \<Longrightarrow> set visiting = V
             \<Longrightarrow> settled deps V (set visited) \<Longrightarrow> visit_ok deps V (set visited) {d} (f d (visiting, visited))"
    and "set visiting = V" and "settled deps V (set visited)"
  shows "visit_ok deps V (set visited) (set ds) (visit_each f deps ds (visiting, visited))"
  using assms
proof (induction ds arbitrary: visiting visited)
  case Nil
  then show ?case by (simp add: visit_ok_def)
next
  case (Cons d ds)
  show ?case
  proof (cases "d \<in> set (map fst deps)")
    case False
    have "visit_ok deps V (set visited) (set ds) (visit_each f deps ds (visiting, visited))"
      using Cons by simp
    moreover have "set (d # ds) \<inter> set (map fst deps) = set ds \<inter> set (map fst deps)"
      using False by auto
    ultimately show ?thesis using False visit_ok_cong [of "set (d # ds)" deps "set ds"] by simp
  next
    case True
    have "visit_ok deps V (set visited) {d} (f d (visiting, visited))"
      using Cons.prems True by simp
    then show ?thesis
    proof (cases rule: visit_okE)
      case (cyclic a st)
      then show ?thesis using True by (cases st) (auto simp: visit_ok_def)
    next
      case (settled visiting' visited')
      have "visit_ok deps V (set visited') (set ds) (visit_each f deps ds (visiting', visited'))"
        using Cons settled by simp
      then show ?thesis
        using True settled by (auto simp: visit_ok_def split: option.splits prod.splits if_splits)
    qed
  qed
qed

lemma settled_stays:
  assumes "settled deps V D" and "(a, b) \<in> (edges deps)\<^sup>+" and "a \<in> D"
  shows "b \<in> D"
  using assms(2,3)
proof (induction rule: trancl_induct)
  case (base b)
  then show ?case using assms(1) unfolding settled_def by blast
next
  case (step b c)
  then show ?case using assms(1) unfolding settled_def by blast
qed

lemma settled_insert:
  assumes "settled deps (insert x V) D" and "\<And>b. (x, b) \<in> edges deps \<Longrightarrow> b \<in> D" and "x \<notin> V"
  shows "settled deps V (insert x D)"
proof -
  have "(x, x) \<notin> (edges deps)\<^sup>+"
  proof
    assume "(x, x) \<in> (edges deps)\<^sup>+"
    then obtain b where "(x, b) \<in> edges deps" "b = x \<or> (b, x) \<in> (edges deps)\<^sup>+"
      by (metis tranclD rtranclD)
    then have "x \<in> D" using assms(2) settled_stays [OF assms(1)] by blast
    then show False using assms(1) unfolding settled_def by blast
  qed
  then show ?thesis using assms unfolding settled_def by blast
qed

lemma visit_ok_visit:
  assumes "x \<in> set (map fst deps)" and "\<And>v. v \<in> set visiting \<Longrightarrow> (v, x) \<in> (edges deps)\<^sup>+"
    and "set visiting \<subseteq> set (map fst deps)" and "settled deps (set visiting) (set visited)"
    and "card (set (map fst deps) - set visiting) < fuel"
  shows "visit_ok deps (set visiting) (set visited) {x} (visit deps fuel x (visiting, visited))"
  using assms
proof (induction fuel arbitrary: x visiting visited)
  case 0
  then show ?case by simp
next
  case (Suc fuel)
  let ?V = "insert x (set visiting)"
  consider "x \<in> set visiting" | "x \<notin> set visiting" "x \<in> set visited" | (fresh) "x \<notin> set visiting" "x \<notin> set visited"
    by blast
  then show ?case
  proof cases
    case 1
    then show ?thesis using Suc.prems(2) by (auto simp: visit_ok_def)
  next
    case 2
    then show ?thesis using Suc.prems(4) by (auto simp: visit_ok_def)
  next
    case fresh
    obtain ds where ds: "map_of deps x = Some ds"
      using Suc.prems(1) by (metis map_of_eq_None_iff not_None_eq set_map)
    have keys: "card (set (map fst deps) - ?V) < fuel"
    proof -
      have "set (map fst deps) - ?V = (set (map fst deps) - set visiting) - {x}" by blast
      moreover have "x \<in> set (map fst deps) - set visiting" using Suc.prems(1) fresh by blast
      ultimately have "card (set (map fst deps) - ?V) < card (set (map fst deps) - set visiting)"
        by (metis card_Diff1_less finite_Diff finite_set)
      then show ?thesis using Suc.prems(5) by simp
    qed
    have edge: "(x, d) \<in> edges deps" if "d \<in> set ds" "d \<in> set (map fst deps)" for d
      using ds that by (auto simp: edges_def)
    have "visit_ok deps ?V (set visited) (set ds) (visit_each (visit deps fuel) deps ds (x # visiting, visited))"
    proof (rule visit_each_ok)
      fix d visiting' visited'
      assume d: "d \<in> set ds" "d \<in> set (map fst deps)" and V: "set visiting' = ?V" and D: "settled deps ?V (set visited')"
      have "(v, d) \<in> (edges deps)\<^sup>+" if "v \<in> set visiting'" for v
      proof (cases "v = x")
        case True
        then show ?thesis using edge [OF d] by (simp add: r_into_trancl)
      next
        case False
        then have "(v, x) \<in> (edges deps)\<^sup>+" using that V Suc.prems(2) by blast
        then show ?thesis using edge [OF d] by (rule trancl_into_trancl)
      qed
      then have "visit_ok deps (set visiting') (set visited') {d} (visit deps fuel d (visiting', visited'))"
        using d(2) V D keys Suc.prems(1,3) by (intro Suc.IH) auto
      then show "visit_ok deps ?V (set visited') {d} (visit deps fuel d (visiting', visited'))"
        by (simp only: V)
    next
      show "settled deps ?V (set visited)" using Suc.prems(4) fresh unfolding settled_def by blast
    qed simp
    then show ?thesis
    proof (cases rule: visit_okE)
      case (cyclic a st)
      then show ?thesis using fresh ds by (cases st) (auto simp: visit_ok_def)
    next
      case (settled visiting' visited')
      have succ: "b \<in> set visited'" if "(x, b) \<in> edges deps" for b
        using that settled(5) ds by (auto simp: edges_def)
      have "settled deps (set visiting) (insert x (set visited'))"
        by (rule settled_insert [OF settled(4) succ fresh(1)])
      then show ?thesis using settled fresh ds by (auto simp: visit_ok_def)
    qed
  qed
qed

text \<open>The fuel is enough, and the search finds a cycle exactly when there is one.\<close>

lemma has_cycle_returns:
  "has_dependency_cycle deps = Some (\<exists>a. (a, a) \<in> (edges deps)\<^sup>+)"
proof -
  have "visit_ok deps {} (set []) (set (map fst deps))
      (visit_each (visit deps (length deps + 1)) deps (map fst deps) ([], []))"
  proof (rule visit_each_ok)
    fix d and visiting visited :: "string list"
    assume d: "d \<in> set (map fst deps)" and V: "set visiting = {}" and D: "settled deps {} (set visited)"
    have "card (set (map fst deps)) < length deps + 1"
      by (metis card_length length_map less_Suc_eq_le Suc_eq_plus1)
    then have "visit_ok deps (set visiting) (set visited) {d} (visit deps (length deps + 1) d (visiting, visited))"
      using d V D by (intro visit_ok_visit) auto
    then show "visit_ok deps {} (set visited) {d} (visit deps (length deps + 1) d (visiting, visited))"
      by (simp only: V)
  qed (simp_all add: settled_def)
  then show ?thesis
  proof (cases rule: visit_okE)
    case (cyclic a st)
    then show ?thesis by (auto simp: has_dependency_cycle_def)
  next
    case (settled visiting visited)
    have "(a, a) \<notin> (edges deps)\<^sup>+" for a
    proof
      assume cycle: "(a, a) \<in> (edges deps)\<^sup>+"
      then obtain b where "(a, b) \<in> edges deps" by (metis tranclD)
      then have "a \<in> set (map fst deps)" by (force simp: edges_def dest: map_of_SomeD)
      then show False using settled(4,5) cycle unfolding settled_def by blast
    qed
    then show ?thesis using settled(1) by (simp add: has_dependency_cycle_def)
  qed
qed

section \<open>The structure check\<close>

text \<open>What the check is for: ids without repetition, and every dependency an earlier step.\<close>

definition well_structured :: "task_graph \<Rightarrow> bool" where
  "well_structured graph \<longleftrightarrow>
     distinct (map ts_step_id (tg_steps graph)) \<and> distinct (map step_action_id (tg_steps graph))
     \<and> (\<forall>i<length (tg_steps graph). \<forall>d\<in>set (ts_depends_on (tg_steps graph ! i)).
          \<exists>j<i. ts_step_id (tg_steps graph ! j) = d)"

lemma duplicates_from_Nil:
  "duplicates_from seen dups vals = [] \<longleftrightarrow> dups = [] \<and> distinct vals \<and> set vals \<inter> set seen = {}"
  by (induction vals arbitrary: seen dups) auto

lemma duplicates_Nil: "duplicates vals = [] \<longleftrightarrow> distinct vals"
  by (simp add: duplicates_def duplicates_from_Nil)

lemma first_index_eq:
  assumes "distinct ids"
  shows "map_of (first_index ids) d = Some i \<longleftrightarrow> i < length ids \<and> ids ! i = d"
proof -
  have "distinct (map fst (first_index ids))"
    using assms by (simp add: first_index_def rev_map [symmetric] zip_map_fst_snd)
  then show ?thesis
    by (auto simp: first_index_def in_set_zip)
qed

lemma dependencies_of_eq:
  assumes "distinct (map ts_step_id steps)"
  shows "dependencies_of steps = map (\<lambda>step. (ts_step_id step, ts_depends_on step)) steps"
proof -
  have fresh: "AList.update k v al = al @ [(k, v)]" if "k \<notin> fst ` set al" for k v and al :: dependency_map
    using that by (induction al) auto
  show ?thesis
    using assms
  proof (induction steps rule: rev_induct)
    case (snoc step steps)
    then show ?case by (auto simp: dependencies_of_def fresh image_image)
  qed (simp add: dependencies_of_def)
qed

lemma dependency_errors_Nil:
  assumes "distinct ids" and "index < length ids" and "ids ! index = ts_step_id step"
  shows "dependency_errors ids index step = [] \<longleftrightarrow> (\<forall>d\<in>set (ts_depends_on step). \<exists>j<index. ids ! j = d)"
proof -
  have "(case map_of (first_index ids) d of
           None \<Rightarrow> [ts_step_id step @ '' has missing dependency: '' @ d]
         | Some i \<Rightarrow> if d = ts_step_id step then [ts_step_id step @ '' depends on itself'']
                    else if i > index then [ts_step_id step @ '' has forward dependency: '' @ d] else []) = []
        \<longleftrightarrow> (\<exists>j<index. ids ! j = d)" for d
  proof (cases "map_of (first_index ids) d")
    case None
    then have "\<not> (i < length ids \<and> ids ! i = d)" for i
      using first_index_eq [OF assms(1), of d i] by simp
    then show ?thesis using None assms(2) by (auto dest: less_trans)
  next
    case (Some i)
    then have i: "i < length ids" "ids ! i = d" using first_index_eq [OF assms(1)] by auto
    have "(\<exists>j<index. ids ! j = d) \<longleftrightarrow> i < index"
      using i assms(1,2) nth_eq_iff_index_eq [OF assms(1)] by (metis less_trans)
    moreover have "d = ts_step_id step \<longleftrightarrow> i = index"
      using i(2) assms(3) nth_eq_iff_index_eq [OF assms(1) i(1) assms(2)] by auto
    ultimately show ?thesis using Some by auto
  qed
  then show ?thesis by (simp add: dependency_errors_def concat_eq_Nil_conv)
qed

lemma dependencies_of_Some:
  assumes "distinct (map ts_step_id steps)" and "map_of (dependencies_of steps) x = Some ds"
  obtains i where "i < length steps" "ts_step_id (steps ! i) = x" "ds = ts_depends_on (steps ! i)"
proof -
  have "(x, ds) \<in> set (map (\<lambda>step. (ts_step_id step, ts_depends_on step)) steps)"
    using map_of_SomeD [OF assms(2)] by (simp only: dependencies_of_eq [OF assms(1)])
  then obtain i where "i < length steps" "(x, ds) = (ts_step_id (steps ! i), ts_depends_on (steps ! i))"
    by (metis (no_types, lifting) in_set_conv_nth length_map nth_map)
  then show thesis using that by simp
qed

text \<open>Along a dependency the position of a step goes down, so no path comes back.\<close>

lemma no_cycle_if_earlier:
  assumes "distinct (map ts_step_id steps)"
    and earlier: "\<forall>i<length steps. \<forall>d\<in>set (ts_depends_on (steps ! i)). \<exists>j<i. ts_step_id (steps ! j) = d"
  shows "(a, a) \<notin> (edges (dependencies_of steps))\<^sup>+"
proof
  define before where "before = {(x, y). \<exists>i j. i < length steps \<and> j < i \<and> ts_step_id (steps ! i) = x \<and> ts_step_id (steps ! j) = y}"
  have unique: "i = j" if "i < length steps" "j < length steps" "ts_step_id (steps ! i) = ts_step_id (steps ! j)" for i j
    using nth_eq_iff_index_eq [OF assms(1), of i j] that by simp
  have "edges (dependencies_of steps) \<subseteq> before"
  proof clarify
    fix x y
    assume "(x, y) \<in> edges (dependencies_of steps)"
    then obtain ds where ds: "map_of (dependencies_of steps) x = Some ds" "y \<in> set ds"
      by (auto simp: edges_def)
    obtain i where "i < length steps" "ts_step_id (steps ! i) = x" "ds = ts_depends_on (steps ! i)"
      using dependencies_of_Some [OF assms(1) ds(1)] .
    moreover obtain j where "j < i" "ts_step_id (steps ! j) = y"
      using earlier calculation ds(2) by blast
    ultimately show "(x, y) \<in> before" unfolding before_def by blast
  qed
  moreover have "trans before"
  proof (rule transI)
    fix x y z
    assume "(x, y) \<in> before" "(y, z) \<in> before"
    then obtain i j k l where "i < length steps" "j < i" "ts_step_id (steps ! i) = x" "ts_step_id (steps ! j) = y"
      "k < length steps" "l < k" "ts_step_id (steps ! k) = y" "ts_step_id (steps ! l) = z"
      unfolding before_def by blast
    moreover have "j = k" using calculation unique [of j k] by simp
    ultimately show "(x, z) \<in> before" unfolding before_def by (auto intro: less_trans)
  qed
  moreover assume "(a, a) \<in> (edges (dependencies_of steps))\<^sup>+"
  ultimately have "(a, a) \<in> before" by (metis trancl_id trancl_mono)
  then show False unfolding before_def using unique by (auto dest: less_trans)
qed

lemma ball_enumerate: "(\<forall>p\<in>set (enumerate 0 xs). P (fst p) (snd p)) \<longleftrightarrow> (\<forall>i<length xs. P i (xs ! i))"
  by (simp add: enumerate_eq_zip all_set_conv_all_nth)

lemma structure_errors_parts:
  "graph_structure_errors graph = [] \<longleftrightarrow>
     distinct (map ts_step_id (tg_steps graph)) \<and> distinct (map step_action_id (tg_steps graph))
     \<and> (\<forall>i<length (tg_steps graph). dependency_errors (map ts_step_id (tg_steps graph)) i (tg_steps graph ! i) = [])
     \<and> has_dependency_cycle (dependencies_of (tg_steps graph)) \<noteq> Some True"
proof -
  have "concat (map (\<lambda>(i, step). dependency_errors (map ts_step_id (tg_steps graph)) i step) (enumerate 0 (tg_steps graph))) = []
      \<longleftrightarrow> (\<forall>i<length (tg_steps graph). dependency_errors (map ts_step_id (tg_steps graph)) i (tg_steps graph ! i) = [])"
    using ball_enumerate [of "tg_steps graph" "\<lambda>i step. dependency_errors (map ts_step_id (tg_steps graph)) i step = []"]
    by (simp add: concat_eq_Nil_conv case_prod_unfold)
  then show ?thesis
    unfolding graph_structure_errors_def Let_def
    by (simp only: append_is_Nil_conv map_is_Nil_conv duplicates_Nil) (simp split: if_split)
qed

lemma structure_errors_Nil: "graph_structure_errors graph = [] \<longleftrightarrow> well_structured graph"
proof (cases "distinct (map ts_step_id (tg_steps graph))")
  case False
  then show ?thesis by (simp add: structure_errors_parts well_structured_def)
next
  case True
  let ?steps = "tg_steps graph"
  let ?earlier = "\<forall>i<length ?steps. \<forall>d\<in>set (ts_depends_on (?steps ! i)). \<exists>j<i. ts_step_id (?steps ! j) = d"
  have "dependency_errors (map ts_step_id ?steps) i (?steps ! i) = []
      \<longleftrightarrow> (\<forall>d\<in>set (ts_depends_on (?steps ! i)). \<exists>j<i. ts_step_id (?steps ! j) = d)" if i: "i < length ?steps" for i
  proof -
    have "(\<exists>j<i. map ts_step_id ?steps ! j = d) \<longleftrightarrow> (\<exists>j<i. ts_step_id (?steps ! j) = d)" for d
      using i by (metis less_trans nth_map)
    then show ?thesis
      using dependency_errors_Nil [OF True, of i "?steps ! i"] i by simp
  qed
  then have errors: "(\<forall>i<length ?steps. dependency_errors (map ts_step_id ?steps) i (?steps ! i) = []) \<longleftrightarrow> ?earlier"
    by simp
  have "has_dependency_cycle (dependencies_of ?steps) \<noteq> Some True" if ?earlier
    using no_cycle_if_earlier [OF True that] has_cycle_returns [of "dependencies_of ?steps"] by simp
  then show ?thesis
    unfolding structure_errors_parts well_structured_def errors by argo
qed

section \<open>Properties\<close>


text \<open>
  C14: the structure check accepts exactly the ordered graphs. It reports no error if and only if step
  ids and action ids are unique and every dependency of a step is the id of an earlier step.
\<close>

theorem structure_check_accepts_exactly_the_ordered_graphs:
  "graph_structure_errors graph = [] \<longleftrightarrow> well_structured graph"
  by (rule structure_errors_Nil)

end
