(* ===== verification/ExecutionController.thy ===== *)
theory ExecutionController
  imports PolicyValidator GraphStructure
begin

text \<open>
  The sequential controller of
  \<^verbatim>\<open>services/agent_runtime/workbench_agent_runtime/execution_controller.py\<close>.

  What the controller does not own is an argument, the record \<open>environment\<close> over a world \<open>'w\<close>: the
  caller's graph object, which others may change between two looks; the model library that copies
  and validates graphs, actions and results; the injected policy validator; and the adapter. A call
  of the policy or of the adapter may change the world and may come with requests to stop, made by
  the callee or by another thread while it ran; they are served in order when the call returns.

  \<open>ec_trace\<close> records what the controller did to its surroundings. The code has no such field; no
  operation reads it.
\<close>

section \<open>States, records and reports\<close>

datatype execution_state = PENDING | DISPATCHED | SUCCEEDED | FAILED | TIMED_OUT | CANCELLED | STOPPED

datatype execution_reason_code =
    SEQUENCE_SUCCEEDED
  | INVALID_INPUT
  | INVALID_GRAPH
  | POLICY_REJECTED
  | DUPLICATE_ACTION
  | ACTION_FAILED
  | ACTION_TIMED_OUT
  | ACTION_CANCELLED
  | ACTION_STOPPED
  | ADAPTER_TIMEOUT
  | ADAPTER_EXCEPTION
  | INVALID_ADAPTER_RESULT
  | STOP_DISPATCHED

datatype stop_request_status = STOP_ACCEPTED | STOP_DUPLICATE | STOP_REJECTED

text \<open>A record while it is built and, since nothing changes it afterwards, when it is frozen.\<close>

record step_record =
  sr_step_id :: string
  sr_action_id :: string
  sr_transitions :: "execution_state list"
  sr_result :: "action_result option"
  sr_reason_code :: "execution_reason_code option"
  sr_details :: "string list"

definition record_builder :: "string \<Rightarrow> string \<Rightarrow> step_record" where
  "record_builder step_id action_id =
     \<lparr>sr_step_id = step_id, sr_action_id = action_id, sr_transitions = [PENDING], sr_result = None,
      sr_reason_code = None, sr_details = []\<rparr>"

text \<open>The decisions of a returned report, unless they are not a tuple of decisions.\<close>

datatype returned_report = Decisions policy_report | MalformedDecisions

record execution_report =
  xr_task_id :: "string option"
  xr_terminal_state :: execution_state
  xr_reason_code :: execution_reason_code
  xr_records :: "step_record list"
  xr_policy_report :: "returned_report option"
  xr_details :: "string list"

definition RESULT_STATES :: "action_outcome \<Rightarrow> execution_state \<times> execution_reason_code option" where
  "RESULT_STATES outcome =
     (case outcome of
        OUTCOME_COMPLETED \<Rightarrow> (SUCCEEDED, None)
      | OUTCOME_FAILED \<Rightarrow> (FAILED, Some ACTION_FAILED)
      | OUTCOME_TIMEOUT \<Rightarrow> (TIMED_OUT, Some ACTION_TIMED_OUT)
      | OUTCOME_CANCELED \<Rightarrow> (CANCELLED, Some ACTION_CANCELLED)
      | OUTCOME_SAFE_STOP \<Rightarrow> (STOPPED, Some ACTION_STOPPED))"

section \<open>The surroundings\<close>

text \<open>
  The policy's answer to a check, with a copy of the graph it was given, taken after it returned.
  A callee that does not return the declared type is known by the name of the type it returned.
\<close>

datatype policy_reply =
    CheckRaised
  | CheckReturned string
  | CheckReport returned_report "string + task_graph"

datatype adapter_reply =
    AdapterTimeout
  | AdapterRaised string
  | AdapterReturned string
  | AdapterResult action_result

text \<open>The argument of \<^verbatim>\<open>request_stop\<close>: an action, or something else.\<close>

datatype stop_request = RequestOther | RequestStop semantic_action

text \<open>A copy is an error message or the copied model; \<open>env_live\<close> copies the caller's graph.\<close>

record 'w environment =
  env_live :: "'w \<Rightarrow> string + task_graph"
  env_live_task_id :: "'w \<Rightarrow> string option"
  env_copy_graph :: "task_graph \<Rightarrow> string + task_graph"
  env_copy_action :: "semantic_action \<Rightarrow> string + semantic_action"
  env_copy_result :: "action_result \<Rightarrow> string + action_result"
  env_dump :: "task_graph \<Rightarrow> pyval"
  env_check :: "'w \<Rightarrow> task_graph \<Rightarrow> string list \<Rightarrow> policy_reply \<times> stop_request list \<times> 'w"
  env_dispatch :: "'w \<Rightarrow> semantic_action \<Rightarrow> adapter_reply \<times> stop_request list \<times> 'w"

datatype event =
    PolicyChecked task_graph "string list" policy_reply
  | AdapterCalled semantic_action

record 'w controller =
  ec_dispatched_action_ids :: "string list"
  ec_accepted_stop_action_ids :: "string list"
  ec_pending_stop :: "semantic_action option"
  ec_world :: 'w
  ec_trace :: "event list"

definition init_controller :: "'w \<Rightarrow> 'w controller" where
  "init_controller w =
     \<lparr>ec_dispatched_action_ids = [], ec_accepted_stop_action_ids = [], ec_pending_stop = None,
      ec_world = w, ec_trace = []\<rparr>"

section \<open>Requests to stop\<close>

definition request_stop ::
    "'w environment \<Rightarrow> stop_request \<Rightarrow> 'w controller \<Rightarrow> stop_request_status \<times> 'w controller" where
  "request_stop env request s =
     (case request of
        RequestOther \<Rightarrow> (STOP_REJECTED, s)
      | RequestStop action \<Rightarrow>
          (case env_copy_action env action of
             Inl _ \<Rightarrow> (STOP_REJECTED, s)
           | Inr snapshot \<Rightarrow>
               if sa_action_type snapshot \<noteq> STOP then (STOP_REJECTED, s)
               else if sa_action_id snapshot \<in> set (ec_accepted_stop_action_ids s)
                       \<or> sa_action_id snapshot \<in> set (ec_dispatched_action_ids s)
               then (STOP_DUPLICATE, s)
               else if ec_pending_stop s \<noteq> None then (STOP_REJECTED, s)
               else (STOP_ACCEPTED,
                     s\<lparr>ec_accepted_stop_action_ids := sa_action_id snapshot # ec_accepted_stop_action_ids s,
                       ec_pending_stop := Some snapshot\<rparr>)))"

definition serve_stops :: "'w environment \<Rightarrow> stop_request list \<Rightarrow> 'w controller \<Rightarrow> 'w controller" where
  "serve_stops env requests s = fold (\<lambda>request s. snd (request_stop env request s)) requests s"

section \<open>Checks between calls\<close>

definition report_of ::
    "task_graph \<Rightarrow> execution_state \<Rightarrow> execution_reason_code \<Rightarrow> step_record list \<Rightarrow> returned_report option
     \<Rightarrow> string list \<Rightarrow> execution_report" where
  "report_of graph terminal_state reason records policy_report details =
     \<lparr>xr_task_id = Some (tg_task_id graph), xr_terminal_state = terminal_state, xr_reason_code = reason,
      xr_records = records, xr_policy_report = policy_report, xr_details = details\<rparr>"

definition single_step_graph :: "task_graph \<Rightarrow> task_step \<Rightarrow> task_graph" where
  "single_step_graph graph step =
     \<lparr>tg_task_id = tg_task_id graph, tg_goal = tg_goal graph, tg_steps = [step],
      tg_planner = tg_planner graph, tg_model_route = tg_model_route graph\<rparr>"

text \<open>\<^verbatim>\<open>report.is_valid\<close>, which is read only of a report without errors.\<close>

definition returned_is_valid :: "returned_report \<Rightarrow> bool" where
  "returned_is_valid report = (case report of Decisions ds \<Rightarrow> report_is_valid ds | MalformedDecisions \<Rightarrow> False)"

definition decision_ids :: "policy_report \<Rightarrow> (string \<times> string) list" where
  "decision_ids ds = map (\<lambda>d. (pd_step_id d, pd_action_id d)) ds"

definition step_ids :: "task_graph \<Rightarrow> (string \<times> string) list" where
  "step_ids graph = map (\<lambda>step. (ts_step_id step, step_action_id step)) (tg_steps graph)"

definition judge_reply :: "'w environment \<Rightarrow> task_graph \<Rightarrow> policy_reply \<Rightarrow> returned_report option \<times> string list" where
  "judge_reply env policy_graph reply =
     (case reply of
        CheckRaised \<Rightarrow> (None, [''PolicyValidator.check raised''])
      | CheckReturned type_name \<Rightarrow> (None, [''PolicyValidator.check returned '' @ type_name])
      | CheckReport report after \<Rightarrow>
          (Some report,
           case after of
             Inl _ \<Rightarrow> [''PolicyValidator mutated policy input'']
           | Inr checked_graph \<Rightarrow>
               if env_dump env checked_graph \<noteq> env_dump env policy_graph
               then [''PolicyValidator mutated policy input'']
               else (case report of
                  MalformedDecisions \<Rightarrow> [''PolicyValidator.check decisions do not exactly match policy input'']
                | Decisions ds \<Rightarrow>
                    if decision_ids ds \<noteq> step_ids checked_graph
                    then [''PolicyValidator.check decisions do not exactly match policy input'']
                    else [])))"

definition check_policy ::
    "'w environment \<Rightarrow> task_graph \<Rightarrow> string list \<Rightarrow> 'w controller
     \<Rightarrow> (returned_report option \<times> string list) \<times> 'w controller" where
  "check_policy env graph confirmed s =
     (case env_copy_graph env graph of
        Inl e \<Rightarrow> ((None, [e]), s)
      | Inr policy_graph \<Rightarrow>
          (case env_check env (ec_world s) policy_graph confirmed of
             (reply, stops, w) \<Rightarrow>
               (judge_reply env policy_graph reply,
                serve_stops env stops
                  (s\<lparr>ec_world := w, ec_trace := ec_trace s @ [PolicyChecked policy_graph confirmed reply]\<rparr>))))"

text \<open>\<^verbatim>\<open>policy_errors or report is None or not report.is_valid\<close>\<close>

definition policy_refuses :: "returned_report option \<times> string list \<Rightarrow> bool" where
  "policy_refuses outcome =
     (case outcome of (report, errors) \<Rightarrow>
        errors \<noteq> [] \<or> (case report of None \<Rightarrow> True | Some r \<Rightarrow> \<not> returned_is_valid r))"

fun repeated_live_action :: "task_step list \<Rightarrow> task_step list \<Rightarrow> string list \<Rightarrow> string option" where
  "repeated_live_action (live # lives) (step # steps) dispatched =
     (if step_action_id live \<noteq> step_action_id step \<and> step_action_id live \<in> set dispatched
      then Some (step_action_id live)
      else repeated_live_action lives steps dispatched)"
| "repeated_live_action _ _ dispatched = None"

definition task_graph_change ::
    "'w environment \<Rightarrow> task_graph \<Rightarrow> 'w controller \<Rightarrow> (execution_reason_code \<times> string list) option" where
  "task_graph_change env snapshot s =
     (case env_live env (ec_world s) of
        Inl _ \<Rightarrow> Some (INVALID_GRAPH, [''TaskGraph mutated during execution''])
      | Inr live \<Rightarrow>
          if env_dump env live = env_dump env snapshot then None
          else (case repeated_live_action (tg_steps live) (tg_steps snapshot) (ec_dispatched_action_ids s) of
             Some action_id \<Rightarrow> Some (DUPLICATE_ACTION, [''action_id already dispatched: '' @ action_id])
           | None \<Rightarrow> Some (INVALID_GRAPH, [''TaskGraph mutated during execution''])))"

text \<open>\<open>record_index\<close> is the record to close, if any.\<close>

definition live_graph_failure ::
    "'w environment \<Rightarrow> task_graph \<Rightarrow> step_record list \<Rightarrow> nat option \<Rightarrow> returned_report option \<Rightarrow> 'w controller
     \<Rightarrow> execution_report option" where
  "live_graph_failure env snapshot records record_index policy_report s =
     (case task_graph_change env snapshot s of
        None \<Rightarrow> None
      | Some (reason, details) \<Rightarrow>
          (let records' = (case record_index of
                 None \<Rightarrow> records
               | Some i \<Rightarrow>
                   if sr_transitions (records ! i) = [PENDING]
                   then records[i := (records ! i)\<lparr>sr_transitions := [PENDING, FAILED],
                          sr_reason_code := Some reason, sr_details := details\<rparr>]
                   else records)
           in Some (report_of snapshot FAILED reason records' policy_report details)))"

section \<open>Dispatch\<close>

text \<open>The fields a terminated record gets, and what ends the sequence.\<close>

definition close_record ::
    "step_record \<Rightarrow> execution_state \<Rightarrow> execution_reason_code \<Rightarrow> string list
     \<Rightarrow> (execution_state \<times> execution_reason_code) option \<times> step_record" where
  "close_record record state reason details =
     (Some (state, reason),
      record\<lparr>sr_transitions := sr_transitions record @ [state], sr_reason_code := Some reason,
             sr_details := details\<rparr>)"

definition judge_result ::
    "'w environment \<Rightarrow> string \<Rightarrow> step_record \<Rightarrow> adapter_reply
     \<Rightarrow> (execution_state \<times> execution_reason_code) option \<times> step_record" where
  "judge_result env expected_action_id record reply =
     (case reply of
        AdapterTimeout \<Rightarrow> close_record record TIMED_OUT ADAPTER_TIMEOUT [''TimeoutError'']
      | AdapterRaised name \<Rightarrow> close_record record FAILED ADAPTER_EXCEPTION [name]
      | AdapterReturned name \<Rightarrow>
          close_record record FAILED INVALID_ADAPTER_RESULT [''expected ActionResult, got '' @ name]
      | AdapterResult result \<Rightarrow>
          (case env_copy_result env result of
             Inl e \<Rightarrow> close_record record FAILED INVALID_ADAPTER_RESULT [e]
           | Inr snapshot \<Rightarrow>
               if ar_action_id snapshot \<noteq> expected_action_id
               then close_record record FAILED INVALID_ADAPTER_RESULT
                      [''expected action_id '' @ expected_action_id @ '', got '' @ ar_action_id snapshot]
               else (case RESULT_STATES (ar_outcome snapshot) of
                  (state, reason) \<Rightarrow>
                    (map_option (Pair state) reason,
                     record\<lparr>sr_transitions := sr_transitions record @ [state],
                            sr_result := Some snapshot, sr_reason_code := reason\<rparr>))))"

definition dispatch_action ::
    "'w environment \<Rightarrow> semantic_action \<Rightarrow> step_record \<Rightarrow> 'w controller
     \<Rightarrow> ((execution_state \<times> execution_reason_code) option \<times> step_record) \<times> 'w controller" where
  "dispatch_action env action record s =
     (case env_copy_action env action of
        Inl e \<Rightarrow> (close_record record FAILED INVALID_INPUT [e], s)
      | Inr snapshot \<Rightarrow>
          if sa_action_id snapshot \<noteq> sr_action_id record
          then (close_record record FAILED INVALID_INPUT [''expected action_id '' @ sr_action_id record], s)
          else if sa_action_id snapshot \<in> set (ec_dispatched_action_ids s)
          then (close_record record FAILED DUPLICATE_ACTION
                  [''action_id already dispatched: '' @ sa_action_id snapshot], s)
          else (case env_dispatch env (ec_world s) snapshot of
             (reply, stops, w) \<Rightarrow>
               (judge_result env (sa_action_id snapshot)
                  (record\<lparr>sr_transitions := sr_transitions record @ [DISPATCHED]\<rparr>) reply,
                serve_stops env stops
                  (s\<lparr>ec_dispatched_action_ids := sa_action_id snapshot # ec_dispatched_action_ids s,
                     ec_world := w, ec_trace := ec_trace s @ [AdapterCalled snapshot]\<rparr>))))"

text \<open>\<open>RuntimeError\<close> is what \<^verbatim>\<open>_dispatch_stop\<close> raises when no STOP is pending.\<close>

datatype controller_error = RuntimeError

definition stop_step :: "semantic_action \<Rightarrow> task_step" where
  "stop_step action = \<lparr>ts_step_id = sa_action_id action, ts_action = action, ts_depends_on = []\<rparr>"

definition dispatch_stop ::
    "'w environment \<Rightarrow> task_graph \<Rightarrow> step_record list \<Rightarrow> returned_report option \<Rightarrow> string list
     \<Rightarrow> ('w controller, controller_error, execution_report) action" where
  "dispatch_stop env graph records preflight confirmed s =
     (case ec_pending_stop s of
        None \<Rightarrow> (Inl RuntimeError, s)
      | Some queued \<Rightarrow>
          (let stop_record = record_builder (sa_action_id queued) (sa_action_id queued);
               invalid = [''pending STOP snapshot is invalid''];
               rejected = (Inr (report_of graph FAILED INVALID_INPUT
                            (records @ [snd (close_record stop_record FAILED INVALID_INPUT invalid)])
                            preflight invalid),
                          s\<lparr>ec_pending_stop := None\<rparr>)
           in case env_copy_action env queued of
                Inl _ \<Rightarrow> rejected
              | Inr action \<Rightarrow>
                  if sa_action_type action \<noteq> STOP then rejected
                  else (case check_policy env (single_step_graph graph (stop_step action)) confirmed s of
                     (outcome, s1) \<Rightarrow>
                       if policy_refuses outcome
                       then (Inr (report_of graph FAILED POLICY_REJECTED
                                    (records @ [snd (close_record stop_record FAILED POLICY_REJECTED (snd outcome))])
                                    (fst outcome) (snd outcome)), s1)
                       else (case dispatch_action env action stop_record (s1\<lparr>ec_pending_stop := None\<rparr>) of
                          ((terminal, stop_record'), s2) \<Rightarrow>
                            (Inr (case terminal of
                                    Some (state, reason) \<Rightarrow>
                                      report_of graph state reason (records @ [stop_record']) preflight []
                                  | None \<Rightarrow>
                                      report_of graph STOPPED STOP_DISPATCHED (records @ [stop_record']) preflight []),
                             s2)))))"

section \<open>Execution\<close>

text \<open>One turn of the loop over the steps: it returns a report, or the records for the next turn.\<close>

definition execute_step ::
    "'w environment \<Rightarrow> task_graph \<Rightarrow> returned_report option \<Rightarrow> string list \<Rightarrow> nat \<Rightarrow> task_step \<Rightarrow> step_record list
     \<Rightarrow> ('w controller, controller_error, execution_report + step_record list) action" where
  "execute_step env graph preflight confirmed index step records s =
     (if ec_pending_stop s \<noteq> None
      then (case live_graph_failure env graph records (Some index) preflight s of
              Some report \<Rightarrow> (Inr (Inl report), s)
            | None \<Rightarrow> and_then (dispatch_stop env graph records preflight confirmed) (\<lambda>report. return (Inl report)) s)
      else case check_policy env (single_step_graph graph step) confirmed s of
             (outcome, s1) \<Rightarrow>
               if policy_refuses outcome
               then (Inr (Inl (report_of graph FAILED POLICY_REJECTED
                        (records[index := snd (close_record (records ! index) FAILED POLICY_REJECTED (snd outcome))])
                        (fst outcome) (snd outcome))), s1)
               else (case live_graph_failure env graph records (Some index) preflight s1 of
                  Some report \<Rightarrow> (Inr (Inl report), s1)
                | None \<Rightarrow>
                    (case dispatch_action env (ts_action step) (records ! index) s1 of
                       ((terminal, record'), s2) \<Rightarrow>
                         (Inr (case terminal of
                                 Some (state, reason) \<Rightarrow>
                                   Inl (report_of graph state reason (records[index := record']) preflight [])
                               | None \<Rightarrow> Inr (records[index := record'])), s2))))"

primrec execute_steps ::
    "'w environment \<Rightarrow> task_graph \<Rightarrow> returned_report option \<Rightarrow> string list \<Rightarrow> nat \<Rightarrow> task_step list \<Rightarrow> step_record list
     \<Rightarrow> ('w controller, controller_error, execution_report + step_record list) action" where
  "execute_steps env graph preflight confirmed index [] records = return (Inr records)"
| "execute_steps env graph preflight confirmed index (step # steps) records =
     and_then (execute_step env graph preflight confirmed index step records) (\<lambda>outcome.
       case outcome of
         Inl report \<Rightarrow> return (Inl report)
       | Inr records' \<Rightarrow> execute_steps env graph preflight confirmed (index + 1) steps records')"

text \<open>After the last step.\<close>

definition finish_sequence ::
    "'w environment \<Rightarrow> task_graph \<Rightarrow> returned_report option \<Rightarrow> string list \<Rightarrow> step_record list
     \<Rightarrow> ('w controller, controller_error, execution_report) action" where
  "finish_sequence env graph preflight confirmed records s =
     (case live_graph_failure env graph records None preflight s of
        Some report \<Rightarrow> (Inr report, s)
      | None \<Rightarrow>
          if ec_pending_stop s \<noteq> None then dispatch_stop env graph records preflight confirmed s
          else (Inr (report_of graph SUCCEEDED SEQUENCE_SUCCEEDED records preflight []), s))"

text \<open>What a call passes as its graph: a task graph, read through the world, or something else.\<close>

datatype graph_argument = NotTaskGraph string | LiveGraph

definition run_graph ::
    "'w environment \<Rightarrow> task_graph \<Rightarrow> string list \<Rightarrow> step_record list
     \<Rightarrow> ('w controller, controller_error, execution_report) action" where
  "run_graph env graph confirmed records s =
     (case check_policy env graph confirmed s of
        ((preflight, errors), s1) \<Rightarrow>
          if policy_refuses (preflight, errors)
          then (Inr (report_of graph FAILED POLICY_REJECTED records preflight errors), s1)
          else and_then (execute_steps env graph preflight confirmed 0 (tg_steps graph) records) (\<lambda>outcome.
                 case outcome of
                   Inl report \<Rightarrow> return report
                 | Inr records' \<Rightarrow> finish_sequence env graph preflight confirmed records') s1)"

definition execute ::
    "'w environment \<Rightarrow> graph_argument \<Rightarrow> pyval \<Rightarrow> ('w controller, controller_error, execution_report) action" where
  "execute env argument confirmed_action_ids s =
     (case argument of
        NotTaskGraph name \<Rightarrow>
          (Inr \<lparr>xr_task_id = None, xr_terminal_state = FAILED, xr_reason_code = INVALID_INPUT,
                xr_records = [], xr_policy_report = None,
                xr_details = [''expected TaskGraph, got '' @ name]\<rparr>, s)
      | LiveGraph \<Rightarrow>
          (case env_live env (ec_world s) of
             Inl e \<Rightarrow>
               (Inr \<lparr>xr_task_id = env_live_task_id env (ec_world s), xr_terminal_state = FAILED,
                     xr_reason_code = INVALID_GRAPH, xr_records = [], xr_policy_report = None,
                     xr_details = [e]\<rparr>, s)
           | Inr graph \<Rightarrow>
               (let records = map (\<lambda>step. record_builder (ts_step_id step) (step_action_id step)) (tg_steps graph)
                in case snapshot_confirmed_action_ids confirmed_action_ids of
                     None \<Rightarrow>
                       (Inr (report_of graph FAILED INVALID_INPUT records None
                          [''confirmed_action_ids must be a set or frozenset of non-blank strings'']), s)
                   | Some confirmed \<Rightarrow>
                       (let structure_errors = graph_structure_errors graph;
                            repeated_ids = filter (\<lambda>i. i \<in> set (ec_dispatched_action_ids s))
                                             (map step_action_id (tg_steps graph))
                        in if structure_errors \<noteq> []
                           then (Inr (report_of graph FAILED INVALID_GRAPH records None structure_errors), s)
                           else if repeated_ids \<noteq> []
                           then (Inr (report_of graph FAILED DUPLICATE_ACTION records None
                                  (map (\<lambda>i. ''action_id already dispatched: '' @ i) repeated_ids)), s)
                           else run_graph env graph confirmed records s))))"

section \<open>Operations\<close>

text \<open>The calls a client makes, in any order, on one controller.\<close>

datatype controller_op = OpRequestStop stop_request | OpExecute graph_argument pyval

definition controller_step :: "'w environment \<Rightarrow> controller_op \<Rightarrow> 'w controller \<Rightarrow> 'w controller" where
  "controller_step env op s =
     (case op of
        OpRequestStop request \<Rightarrow> snd (request_stop env request s)
      | OpExecute argument confirmed \<Rightarrow> snd (execute env argument confirmed s))"

section \<open>What an operation leaves alone\<close>

lemma request_stop_frame [simp]:
  "ec_dispatched_action_ids (snd (request_stop env request s)) = ec_dispatched_action_ids s"
  "ec_trace (snd (request_stop env request s)) = ec_trace s"
  "ec_world (snd (request_stop env request s)) = ec_world s"
  by (auto simp: request_stop_def split: stop_request.split sum.split)

lemma serve_stops_frame [simp]:
  "ec_dispatched_action_ids (serve_stops env requests s) = ec_dispatched_action_ids s"
  "ec_trace (serve_stops env requests s) = ec_trace s"
  "ec_world (serve_stops env requests s) = ec_world s"
  unfolding serve_stops_def by (induction requests arbitrary: s) simp_all

lemma request_stop_pending: "ec_pending_stop s = Some a \<Longrightarrow> ec_pending_stop (snd (request_stop env request s)) = Some a"
  by (auto simp: request_stop_def split: stop_request.split sum.split)

lemma serve_stops_pending: "ec_pending_stop s = Some a \<Longrightarrow> ec_pending_stop (serve_stops env requests s) = Some a"
  unfolding serve_stops_def by (induction requests arbitrary: s) (simp_all add: request_stop_pending)

section \<open>The gate in front of the adapter\<close>

text \<open>
  The specification of what may happen, over the events alone. The gate holds at most one grant: a
  policy check of a single step that the policy allowed grants that step's action, any other check
  takes the grant away. A call of the adapter needs the grant of its action, uses it up, and needs
  an action id that was not used before.
\<close>

definition grant :: "task_graph \<Rightarrow> policy_reply \<Rightarrow> semantic_action option" where
  "grant graph reply =
     (case tg_steps graph of
        [step] \<Rightarrow>
          (case reply of
             CheckReport (Decisions [d]) _ \<Rightarrow>
               if pd_outcome d = ALLOW \<and> pd_step_id d = ts_step_id step \<and> pd_action_id d = step_action_id step
               then Some (ts_action step) else None
           | _ \<Rightarrow> None)
      | _ \<Rightarrow> None)"

inductive gate :: "event list \<Rightarrow> semantic_action option \<Rightarrow> string set \<Rightarrow> bool" where
  gate_start: "gate [] None {}"
| gate_check: "gate trace granted used \<Longrightarrow> gate (trace @ [PolicyChecked graph confirmed reply]) (grant graph reply) used"
| gate_call: "gate trace (Some action) used \<Longrightarrow> sa_action_id action \<notin> used
    \<Longrightarrow> gate (trace @ [AdapterCalled action]) None (insert (sa_action_id action) used)"

text \<open>
  What the controller relies on: a copy has the contents of the original, and two graphs that are
  written out the same way have the same step and action ids.
\<close>

definition faithful_copies :: "'w environment \<Rightarrow> bool" where
  "faithful_copies env \<longleftrightarrow>
     (\<forall>g g'. env_copy_graph env g = Inr g' \<longrightarrow> g' = g)
     \<and> (\<forall>a a'. env_copy_action env a = Inr a' \<longrightarrow> a' = a)
     \<and> (\<forall>g g'. env_dump env g = env_dump env g' \<longrightarrow> step_ids g = step_ids g')"

definition behind_gate :: "semantic_action option \<Rightarrow> 'w controller \<Rightarrow> bool" where
  "behind_gate granted s \<longleftrightarrow> gate (ec_trace s) granted (set (ec_dispatched_action_ids s))"

lemma behind_gate_serve [simp]: "behind_gate granted (serve_stops env requests s) = behind_gate granted s"
  by (simp add: behind_gate_def)

lemma behind_gate_pending [simp]: "behind_gate granted (s\<lparr>ec_pending_stop := p\<rparr>) = behind_gate granted s"
  by (simp add: behind_gate_def)

lemma check_policy_gate:
  assumes "behind_gate granted s" and "check_policy env graph confirmed s = (outcome, s')"
  shows "\<exists>granted'. behind_gate granted' s'"
  using assms gate_check [of "ec_trace s" granted]
  by (force simp: check_policy_def behind_gate_def split: sum.splits prod.splits)

lemma judge_reply_allows:
  assumes "faithful_copies env" and "\<not> policy_refuses (judge_reply env (single_step_graph graph step) reply)"
  shows "grant (single_step_graph graph step) reply = Some (ts_action step)"
proof -
  obtain report after where reply: "reply = CheckReport report after"
    using assms(2) by (cases reply) (simp_all add: judge_reply_def policy_refuses_def)
  obtain checked where after: "after = Inr checked"
    using assms(2) reply by (cases after) (simp_all add: judge_reply_def policy_refuses_def)
  obtain ds where report: "report = Decisions ds"
    using assms(2) reply after
    by (cases report) (simp_all add: judge_reply_def policy_refuses_def split: if_splits)
  have dump: "env_dump env checked = env_dump env (single_step_graph graph step)"
    and ids: "decision_ids ds = step_ids checked" and valid: "report_is_valid ds"
    using assms(2) reply after report
    by (auto simp: judge_reply_def policy_refuses_def returned_is_valid_def split: if_splits)
  have "step_ids checked = step_ids (single_step_graph graph step)"
    using assms(1) dump unfolding faithful_copies_def by blast
  then have "decision_ids ds = [(ts_step_id step, step_action_id step)]"
    using ids by (simp add: step_ids_def single_step_graph_def)
  then obtain d where "ds = [d]" "pd_step_id d = ts_step_id step" "pd_action_id d = step_action_id step"
    by (auto simp: decision_ids_def)
  then show ?thesis
    using reply report valid by (simp add: grant_def single_step_graph_def report_is_valid_def)
qed

lemma check_policy_grants:
  assumes "faithful_copies env" and "behind_gate granted s"
    and "check_policy env (single_step_graph graph step) confirmed s = (outcome, s')" and "\<not> policy_refuses outcome"
  shows "behind_gate (Some (ts_action step)) s'"
proof -
  obtain copied where copied: "env_copy_graph env (single_step_graph graph step) = Inr copied"
    using assms(3,4) by (cases "env_copy_graph env (single_step_graph graph step)") (auto simp: check_policy_def policy_refuses_def)
  then have eq: "copied = single_step_graph graph step"
    using assms(1) unfolding faithful_copies_def by blast
  obtain reply stops w where reply: "env_check env (ec_world s) copied confirmed = (reply, stops, w)"
    by (metis prod_cases3)
  have "outcome = judge_reply env (single_step_graph graph step) reply"
    and s': "s' = serve_stops env stops (s\<lparr>ec_world := w, ec_trace := ec_trace s @ [PolicyChecked copied confirmed reply]\<rparr>)"
    using assms(3) copied reply eq by (auto simp: check_policy_def)
  then have "grant copied reply = Some (ts_action step)"
    using judge_reply_allows [OF assms(1)] assms(4) eq by simp
  then show ?thesis
    using gate_check [of "ec_trace s" granted "set (ec_dispatched_action_ids s)" copied confirmed reply] assms(2)
    by (simp add: s' behind_gate_def)
qed

lemma dispatch_action_gate:
  assumes "faithful_copies env" and "behind_gate (Some action) s"
    and "dispatch_action env action record s = (out, s')"
  shows "\<exists>granted. behind_gate granted s'"
proof (cases "env_copy_action env action")
  case (Inl e)
  then show ?thesis using assms(2,3) by (auto simp: dispatch_action_def)
next
  case (Inr snapshot)
  then have eq: "snapshot = action" using assms(1) unfolding faithful_copies_def by blast
  show ?thesis
  proof (cases "sa_action_id action \<noteq> sr_action_id record \<or> sa_action_id action \<in> set (ec_dispatched_action_ids s)")
    case True
    then have "s' = s" using assms(3) Inr eq by (auto simp: dispatch_action_def split: if_splits)
    then show ?thesis using assms(2) by blast
  next
    case False
    obtain reply stops w where "env_dispatch env (ec_world s) action = (reply, stops, w)"
      by (metis prod_cases3)
    then have "behind_gate None s'"
      using assms(2,3) Inr eq False gate_call [of "ec_trace s" action "set (ec_dispatched_action_ids s)"]
      by (auto simp: dispatch_action_def behind_gate_def)
    then show ?thesis by blast
  qed
qed

definition gated :: "'w controller \<Rightarrow> bool" where
  "gated s \<longleftrightarrow> (\<exists>granted. behind_gate granted s)"

lemma check_then_dispatch_gated:
  assumes "faithful_copies env" and "gated s"
    and "check_policy env (single_step_graph graph step) confirmed s = (outcome, s1)" and "\<not> policy_refuses outcome"
    and "dispatch_action env (ts_action step) rec (s1\<lparr>ec_pending_stop := p\<rparr>) = (out, s2)"
  shows "gated s2"
proof -
  obtain granted where "behind_gate granted s" using assms(2) unfolding gated_def by blast
  from check_policy_grants [OF assms(1) this assms(3,4)]
  have "behind_gate (Some (ts_action step)) (s1\<lparr>ec_pending_stop := p\<rparr>)" by simp
  from dispatch_action_gate [OF assms(1) this assms(5)] show ?thesis unfolding gated_def .
qed

lemma check_policy_gated:
  "gated s \<Longrightarrow> check_policy env graph confirmed s = (outcome, s') \<Longrightarrow> gated s'"
  using check_policy_gate unfolding gated_def by blast

lemma gated_pending [simp]: "gated (s\<lparr>ec_pending_stop := p\<rparr>) = gated s"
  by (simp add: gated_def)

text \<open>The ways \<^verbatim>\<open>_dispatch_stop\<close> ends.\<close>

lemma dispatch_stop_cases:
  assumes "dispatch_stop env graph records preflight confirmed s = (out, s')"
  obtains (none) "ec_pending_stop s = None" "out = Inl RuntimeError" "s' = s"
  | (invalid) queued rec report where "ec_pending_stop s = Some queued"
      "out = Inr report" "xr_terminal_state report = FAILED" "xr_records report = records @ [rec]"
      "s' = s\<lparr>ec_pending_stop := None\<rparr>"
  | (refused) queued action outcome rec report where "ec_pending_stop s = Some queued" "env_copy_action env queued = Inr action"
      "check_policy env (single_step_graph graph (stop_step action)) confirmed s = (outcome, s')" "policy_refuses outcome"
      "out = Inr report" "xr_terminal_state report = FAILED" "xr_records report = records @ [rec]"
  | (dispatched) queued action outcome s1 terminal rec report where "ec_pending_stop s = Some queued"
      "env_copy_action env queued = Inr action" "sa_action_type action = STOP"
      "check_policy env (single_step_graph graph (stop_step action)) confirmed s = (outcome, s1)" "\<not> policy_refuses outcome"
      "dispatch_action env (ts_action (stop_step action)) (record_builder (sa_action_id queued) (sa_action_id queued))
         (s1\<lparr>ec_pending_stop := None\<rparr>) = ((terminal, rec), s')"
      "out = Inr report" "xr_terminal_state report = (case terminal of None \<Rightarrow> STOPPED | Some (state, reason) \<Rightarrow> state)"
      "xr_records report = records @ [rec]"
proof (cases "ec_pending_stop s")
  case None
  then show thesis using assms by (intro none) (simp_all add: dispatch_stop_def)
next
  case (Some queued)
  show thesis
  proof (cases "env_copy_action env queued")
    case (Inl e)
    then show thesis using assms Some by (intro invalid [of queued]) (auto simp: dispatch_stop_def report_of_def Let_def)
  next
    case (Inr action)
    show thesis
    proof (cases "sa_action_type action = STOP")
      case False
      then show thesis using assms Some Inr by (intro invalid [of queued]) (auto simp: dispatch_stop_def report_of_def Let_def)
    next
      case True
      obtain outcome s1 where check: "check_policy env (single_step_graph graph (stop_step action)) confirmed s = (outcome, s1)"
        by fastforce
      show thesis
      proof (cases "policy_refuses outcome")
        case rejects: True
        then show thesis
          using assms Some Inr True check rejects
          by (intro refused [of queued action outcome]) (auto simp: dispatch_stop_def report_of_def Let_def)
      next
        case False
        obtain terminal rec s2 where dispatch: "dispatch_action env action
            (record_builder (sa_action_id queued) (sa_action_id queued)) (s1\<lparr>ec_pending_stop := None\<rparr>) = ((terminal, rec), s2)"
          by (metis prod.collapse)
        let ?report = "case terminal of
            Some (state, reason) \<Rightarrow> report_of graph state reason (records @ [rec]) preflight []
          | None \<Rightarrow> report_of graph STOPPED STOP_DISPATCHED (records @ [rec]) preflight []"
        have out: "out = Inr ?report" and "s' = s2"
          using assms Some Inr True check False dispatch by (auto simp: dispatch_stop_def Let_def split: option.splits)
        moreover have "xr_terminal_state ?report = (case terminal of None \<Rightarrow> STOPPED | Some (state, reason) \<Rightarrow> state)"
          and "xr_records ?report = records @ [rec]"
          by (auto simp: report_of_def split: option.split)
        ultimately show thesis
          using dispatched [OF Some Inr True check False _ out] dispatch by (simp add: stop_step_def)
      qed
    qed
  qed
qed

lemma dispatch_stop_gated:
  assumes "faithful_copies env" and "gated s" and "dispatch_stop env graph records preflight confirmed s = (out, s')"
  shows "gated s'"
  using assms(3)
proof (cases rule: dispatch_stop_cases)
  case (dispatched queued action outcome s1 terminal rec report)
  then show ?thesis using check_then_dispatch_gated [OF assms(1,2)] by blast
qed (use assms(2) check_policy_gated in auto)

section \<open>What an execution does\<close>

definition calls :: "event list \<Rightarrow> semantic_action list" where
  "calls trace = concat (map (\<lambda>e. case e of AdapterCalled a \<Rightarrow> [a] | PolicyChecked _ _ _ \<Rightarrow> []) trace)"

lemma calls_simps [simp]:
  "calls [] = []" "calls (t @ u) = calls t @ calls u"
  "calls [AdapterCalled a] = [a]" "calls [PolicyChecked g c r] = []"
  by (simp_all add: calls_def)

definition completed :: "step_record \<Rightarrow> bool" where
  "completed rec \<longleftrightarrow>
     sr_transitions rec = [PENDING, DISPATCHED, SUCCEEDED]
     \<and> (\<exists>r. sr_result rec = Some r \<and> ar_action_id r = sr_action_id rec \<and> ar_outcome r = OUTCOME_COMPLETED)"

definition step_builder :: "task_step \<Rightarrow> step_record" where
  "step_builder step = record_builder (ts_step_id step) (step_action_id step)"

text \<open>The records before step \<open>n\<close>: completed below \<open>n\<close>, untouched from \<open>n\<close> on.\<close>

definition progress :: "task_step list \<Rightarrow> nat \<Rightarrow> step_record list \<Rightarrow> bool" where
  "progress steps n records \<longleftrightarrow>
     length records = length steps \<and> (\<forall>i<n. completed (records ! i))
     \<and> (\<forall>i<length steps. n \<le> i \<longrightarrow> records ! i = step_builder (steps ! i))"

definition stop_calls :: "semantic_action list \<Rightarrow> bool" where
  "stop_calls as \<longleftrightarrow> as = [] \<or> (\<exists>a. as = [a] \<and> sa_action_type a = STOP)"

lemma check_policy_frame:
  assumes "check_policy env graph confirmed s = (outcome, s')"
  shows "calls (ec_trace s') = calls (ec_trace s)"
    and "ec_dispatched_action_ids s' = ec_dispatched_action_ids s"
    and "ec_pending_stop s = Some a \<Longrightarrow> ec_pending_stop s' = Some a"
  using assms by (auto simp: check_policy_def serve_stops_pending split: sum.splits prod.splits)

lemma close_record_simps [simp]:
  "fst (close_record rec state reason details) = Some (state, reason)"
  "sr_transitions (snd (close_record rec state reason details)) = sr_transitions rec @ [state]"
  by (simp_all add: close_record_def)

lemma judge_result_outcome:
  assumes "judge_result env action_id rec reply = (terminal, rec')" and "sr_action_id rec = action_id"
  shows "(case terminal of
            None \<Rightarrow> sr_transitions rec' = sr_transitions rec @ [SUCCEEDED]
                  \<and> (\<exists>r. sr_result rec' = Some r \<and> ar_action_id r = sr_action_id rec' \<and> ar_outcome r = OUTCOME_COMPLETED)
          | Some (state, reason) \<Rightarrow> state \<noteq> SUCCEEDED)"
proof (cases reply)
  case (AdapterResult result)
  show ?thesis
  proof (cases "env_copy_result env result")
    case (Inl e)
    then show ?thesis using assms AdapterResult by (auto simp: judge_result_def close_record_def)
  next
    case (Inr r)
    then show ?thesis
      using assms AdapterResult
      by (cases "ar_outcome r") (auto simp: judge_result_def close_record_def RESULT_STATES_def split: if_splits)
  qed
qed (use assms in \<open>auto simp: judge_result_def close_record_def\<close>)

text \<open>A dispatch that does not end the sequence called the adapter and completed its record.\<close>

lemma dispatch_action_cases:
  assumes "faithful_copies env" and "dispatch_action env action rec s = ((terminal, rec'), s')"
  obtains (refused) state reason where "terminal = Some (state, reason)" "state \<noteq> SUCCEEDED" "s' = s"
  | (ended) state reason where "terminal = Some (state, reason)" "state \<noteq> SUCCEEDED"
      "calls (ec_trace s') = calls (ec_trace s) @ [action]"
  | (finished) "terminal = None" "calls (ec_trace s') = calls (ec_trace s) @ [action]"
      "sr_transitions rec = [PENDING] \<Longrightarrow> completed rec'"
proof (cases "env_copy_action env action")
  case (Inl e)
  then show thesis using assms(2) by (intro refused) (auto simp: dispatch_action_def close_record_def)
next
  case (Inr snapshot)
  then have eq: "snapshot = action" using assms(1) unfolding faithful_copies_def by blast
  show thesis
  proof (cases "sa_action_id action \<noteq> sr_action_id rec \<or> sa_action_id action \<in> set (ec_dispatched_action_ids s)")
    case True
    then have "\<exists>reason. terminal = Some (FAILED, reason) \<and> s' = s"
      using assms(2) Inr eq by (auto simp: dispatch_action_def close_record_def split: if_splits)
    then show thesis using refused by blast
  next
    case False
    obtain reply stops w where dispatch: "env_dispatch env (ec_world s) action = (reply, stops, w)"
      by (metis prod_cases3)
    let ?rec = "rec\<lparr>sr_transitions := sr_transitions rec @ [DISPATCHED]\<rparr>"
    have judged: "judge_result env (sa_action_id action) ?rec reply = (terminal, rec')"
      and calls: "calls (ec_trace s') = calls (ec_trace s) @ [action]"
      using assms(2) Inr eq False dispatch by (auto simp: dispatch_action_def)
    have "sr_action_id ?rec = sa_action_id action" using False by simp
    note outcome = judge_result_outcome [OF judged this]
    show thesis
    proof (cases terminal)
      case None
      then show thesis using outcome calls by (intro finished) (auto simp: completed_def)
    next
      case (Some sr)
      then show thesis using outcome calls by (intro ended [of "fst sr" "snd sr"]) auto
    qed
  qed
qed

lemma dispatch_stop_calls:
  assumes "faithful_copies env" and "ec_pending_stop s \<noteq> None"
    and "dispatch_stop env graph records preflight confirmed s = (out, s')"
  obtains report rec stops where "out = Inr report" "xr_terminal_state report \<noteq> SUCCEEDED"
    "xr_records report = records @ [rec]" "calls (ec_trace s') = calls (ec_trace s) @ stops" "stop_calls stops"
  using assms(3)
proof (cases rule: dispatch_stop_cases)
  case none
  then show thesis using assms(2) by simp
next
  case (invalid queued rec report)
  then show thesis using that [of report rec "[]"] by (simp add: stop_calls_def)
next
  case (refused queued action outcome rec report)
  then show thesis using that [of report rec "[]"] check_policy_frame(1) [OF refused(3)] by (simp add: stop_calls_def)
next
  case (dispatched queued action outcome s1 terminal rec report)
  have step: "ts_action (stop_step action) = action" by (simp add: stop_step_def)
  have calls: "calls (ec_trace s1) = calls (ec_trace s)" using check_policy_frame(1) [OF dispatched(4)] .
  show thesis
    using assms(1) dispatched(6)
  proof (cases rule: dispatch_action_cases)
    case (refused state reason)
    then show thesis using dispatched calls by (intro that [of report rec "[]"]) (auto simp: stop_calls_def)
  next
    case (ended state reason)
    then show thesis using dispatched calls step by (intro that [of report rec "[action]"]) (auto simp: stop_calls_def)
  next
    case finished
    then show thesis using dispatched calls step by (intro that [of report rec "[action]"]) (auto simp: stop_calls_def)
  qed
qed

lemma live_graph_failure_report:
  assumes "live_graph_failure env graph records index preflight s = Some report"
  shows "xr_terminal_state report = FAILED"
    and "index = Some n \<Longrightarrow> i < n \<Longrightarrow> xr_records report ! i = records ! i"
    and "index = None \<Longrightarrow> xr_records report = records"
  using assms by (auto simp: live_graph_failure_def report_of_def Let_def split: option.splits)

text \<open>One turn of the loop.\<close>

lemma execute_step_cases:
  assumes "faithful_copies env" and "progress steps n records" and "n < length steps"
    and "execute_step env graph preflight confirmed n (steps ! n) records s = (out, s')"
  obtains (advance) records' where "out = Inr (Inr records')" "progress steps (Suc n) records'"
      "calls (ec_trace s') = calls (ec_trace s) @ [ts_action (steps ! n)]" "ec_pending_stop s = None"
  | (halt) report stops where "out = Inr (Inl report)" "xr_terminal_state report \<noteq> SUCCEEDED"
      "calls (ec_trace s') = calls (ec_trace s) @ stops" "stop_calls stops" "\<forall>i<n. completed (xr_records report ! i)"
  | (last) report where "out = Inr (Inl report)" "xr_terminal_state report \<noteq> SUCCEEDED"
      "calls (ec_trace s') = calls (ec_trace s) @ [ts_action (steps ! n)]" "\<forall>i<n. completed (xr_records report ! i)"
      "ec_pending_stop s = None"
proof (cases "ec_pending_stop s = None")
  case False
  show thesis
  proof (cases "live_graph_failure env graph records (Some n) preflight s")
    case None
    obtain out1 s1 where stop: "dispatch_stop env graph records preflight confirmed s = (out1, s1)" by fastforce
    obtain report rec stops where "out1 = Inr report" "xr_terminal_state report \<noteq> SUCCEEDED"
      "xr_records report = records @ [rec]" "calls (ec_trace s1) = calls (ec_trace s) @ stops" "stop_calls stops"
      using dispatch_stop_calls [OF assms(1) False stop] .
    then show thesis
      using assms False None stop
      by (intro halt [of report stops]) (auto simp: execute_step_def and_then_def progress_def nth_append)
  next
    case (Some report)
    then show thesis
      using assms False live_graph_failure_report [OF Some]
      by (intro halt [of report "[]"]) (auto simp: execute_step_def stop_calls_def progress_def)
  qed
next
  case True
  obtain outcome s1 where check: "check_policy env (single_step_graph graph (steps ! n)) confirmed s = (outcome, s1)" by fastforce
  note same = check_policy_frame(1) [OF check]
  consider (refuses) "policy_refuses outcome"
    | (changed) report where "\<not> policy_refuses outcome" "live_graph_failure env graph records (Some n) preflight s1 = Some report"
    | (clear) "\<not> policy_refuses outcome" "live_graph_failure env graph records (Some n) preflight s1 = None"
    by fastforce
  then show thesis
  proof cases
    case refuses
    then show thesis
      using assms True check same
      by (intro halt [where stops = "[]"]) (auto simp: execute_step_def stop_calls_def progress_def report_of_def)
  next
    case (changed report)
    then show thesis
      using assms True check same live_graph_failure_report [OF changed(2)]
      by (intro halt [of report "[]"]) (auto simp: execute_step_def stop_calls_def progress_def)
  next
    case clear
    obtain terminal rec s2 where dispatch: "dispatch_action env (ts_action (steps ! n)) (records ! n) s1 = ((terminal, rec), s2)"
      by (metis prod.collapse)
    have out: "out = Inr (case terminal of
        Some (state, reason) \<Rightarrow> Inl (report_of graph state reason (records[n := rec]) preflight [])
      | None \<Rightarrow> Inr (records[n := rec]))" and s': "s' = s2"
      using assms(4) True check clear dispatch by (auto simp: execute_step_def)
    have fresh: "sr_transitions (records ! n) = [PENDING]"
      using assms(2,3) by (simp add: progress_def step_builder_def record_builder_def)
    show thesis
      using assms(1) dispatch
    proof (cases rule: dispatch_action_cases)
      case (refused state reason)
      then show thesis
        using out s' same assms(2) by (intro halt [where stops = "[]"]) (auto simp: stop_calls_def progress_def report_of_def)
    next
      case (ended state reason)
      then show thesis
        using out s' same assms(2) True by (intro last) (auto simp: progress_def report_of_def)
    next
      case finished
      have "progress steps (Suc n) (records[n := rec])"
        using finished(3) [OF fresh] assms(2,3) by (auto simp: progress_def nth_list_update less_Suc_eq)
      then show thesis using out s' same finished True by (intro advance) auto
    qed
  qed
qed

text \<open>
  The end of a sequence that did not reach its last step undisturbed: the adapter was called for
  the steps from \<open>n\<close> up to \<open>k\<close> and perhaps for a STOP, and a step is called only after the one
  before it completed.
\<close>

definition halted :: "task_step list \<Rightarrow> nat \<Rightarrow> 'w controller \<Rightarrow> execution_report \<Rightarrow> 'w controller \<Rightarrow> bool" where
  "halted steps n s report s' \<longleftrightarrow>
     xr_terminal_state report \<noteq> SUCCEEDED
     \<and> (\<exists>k stops. n \<le> k \<and> k \<le> length steps \<and> stop_calls stops
          \<and> calls (ec_trace s') = calls (ec_trace s) @ map ts_action (take (k - n) (drop n steps)) @ stops
          \<and> (\<forall>i. Suc i < k \<longrightarrow> completed (xr_records report ! i))
          \<and> (stops \<noteq> [] \<longrightarrow> (\<forall>i<k. completed (xr_records report ! i))))"

lemma take_Suc_drop: "n < k \<Longrightarrow> k \<le> length xs \<Longrightarrow> take (k - n) (drop n xs) = xs ! n # take (k - Suc n) (drop (Suc n) xs)"
  by (metis Cons_nth_drop_Suc Suc_diff_Suc dual_order.strict_trans1 take_Suc_Cons)

lemma halted_step:
  assumes "halted steps (Suc n) s1 report s'" and "calls (ec_trace s1) = calls (ec_trace s) @ [ts_action (steps ! n)]"
  shows "halted steps n s report s'"
proof -
  obtain k stops where k: "Suc n \<le> k" "k \<le> length steps" and stops: "stop_calls stops"
    and trace: "calls (ec_trace s') = calls (ec_trace s1) @ map ts_action (take (k - Suc n) (drop (Suc n) steps)) @ stops"
    and complete: "\<forall>i. Suc i < k \<longrightarrow> completed (xr_records report ! i)"
      "stops \<noteq> [] \<longrightarrow> (\<forall>i<k. completed (xr_records report ! i))"
    and state: "xr_terminal_state report \<noteq> SUCCEEDED"
    using assms(1) unfolding halted_def by blast
  have "take (k - n) (drop n steps) = steps ! n # take (k - Suc n) (drop (Suc n) steps)"
    using k by (intro take_Suc_drop) simp_all
  then have "calls (ec_trace s') = calls (ec_trace s) @ map ts_action (take (k - n) (drop n steps)) @ stops"
    using trace assms(2) by simp
  then show ?thesis unfolding halted_def using k stops complete state Suc_leD by blast
qed

lemma execute_steps_cases:
  assumes "faithful_copies env" and "progress steps n records" and "n \<le> length steps"
    and "execute_steps env graph preflight confirmed n (drop n steps) records s = (out, s')"
  shows "(\<exists>records'. out = Inr (Inr records') \<and> progress steps (length steps) records'
            \<and> calls (ec_trace s') = calls (ec_trace s) @ map ts_action (drop n steps)
            \<and> (n < length steps \<longrightarrow> ec_pending_stop s = None))
         \<or> (\<exists>report. out = Inr (Inl report) \<and> halted steps n s report s'
            \<and> (ec_pending_stop s \<noteq> None \<longrightarrow> (\<exists>stops. stop_calls stops \<and> calls (ec_trace s') = calls (ec_trace s) @ stops)))"
  using assms(2-4)
proof (induction "length steps - n" arbitrary: n records s)
  case 0
  then show ?case by auto
next
  case (Suc m)
  then have n: "n < length steps" by simp
  then have drop: "drop n steps = steps ! n # drop (Suc n) steps" by (simp add: Cons_nth_drop_Suc)
  obtain out1 s1 where step: "execute_step env graph preflight confirmed n (steps ! n) records s = (out1, s1)" by fastforce
  show ?case
    using assms(1) Suc.prems(1) n step
  proof (cases rule: execute_step_cases)
    case (advance records')
    have rest: "execute_steps env graph preflight confirmed (Suc n) (drop (Suc n) steps) records' s1 = (out, s')"
      using Suc.prems(3) advance(1) step by (simp add: drop and_then_def)
    have "m = length steps - Suc n" using Suc.hyps(2) by simp
    from Suc.hyps(1) [OF this advance(2) _ rest] n
    show ?thesis
      using advance(3,4) drop halted_step [OF _ advance(3)] by auto
  next
    case (halt report stops)
    then have "out = Inr (Inl report)" "s' = s1"
      using Suc.prems(3) step by (simp_all add: drop and_then_def)
    moreover have "halted steps n s report s1"
      unfolding halted_def using halt n by (intro conjI exI [of _ n] exI [of _ stops]) auto
    ultimately show ?thesis using halt(3,4) by blast
  next
    case (last report)
    then have "out = Inr (Inl report)" "s' = s1"
      using Suc.prems(3) step by (simp_all add: drop and_then_def)
    moreover have "halted steps n s report s1"
      unfolding halted_def using last n take_Suc_drop [of n "Suc n" steps]
      by (intro conjI exI [of _ "Suc n"] exI [of _ "[]"]) (auto simp: stop_calls_def)
    ultimately show ?thesis using last(5) by blast
  qed
qed

section \<open>Invariants of the controller\<close>

text \<open>
  The controller touches its surroundings in two ways only: it asks the policy, and it calls the
  adapter for a step right after the policy allowed that step. What both keep, and what does not
  depend on the queued STOP, every operation keeps.
\<close>

locale controller_invariant =
  fixes env :: "'w environment" and inv :: "'w controller \<Rightarrow> bool"
  assumes inv_request: "inv s \<Longrightarrow> inv (snd (request_stop env request s))"
    and inv_pending: "inv s \<Longrightarrow> inv (s\<lparr>ec_pending_stop := p\<rparr>)"
    and inv_check: "inv s \<Longrightarrow> check_policy env graph confirmed s = (outcome, s') \<Longrightarrow> inv s'"
    and inv_dispatch: "inv s \<Longrightarrow> check_policy env (single_step_graph graph step) confirmed s = (outcome, s1)
      \<Longrightarrow> \<not> policy_refuses outcome \<Longrightarrow> dispatch_action env (ts_action step) rec (s1\<lparr>ec_pending_stop := p\<rparr>) = (out, s2)
      \<Longrightarrow> inv s2"
begin

lemma inv_dispatch_stop:
  assumes "inv s" and "dispatch_stop env graph records preflight confirmed s = (out, s')"
  shows "inv s'"
  using assms(2)
proof (cases rule: dispatch_stop_cases)
  case (dispatched queued action outcome s1 terminal rec report)
  then show ?thesis using inv_dispatch [OF assms(1)] by blast
qed (use assms(1) inv_check inv_pending in auto)

lemma inv_execute_step:
  assumes "inv s" and "execute_step env graph preflight confirmed n step records s = (out, s')"
  shows "inv s'"
proof (cases "ec_pending_stop s = None")
  case False
  obtain out1 s1 where "dispatch_stop env graph records preflight confirmed s = (out1, s1)" by fastforce
  moreover from inv_dispatch_stop [OF assms(1) this] have "inv s1" .
  ultimately show ?thesis
    using assms False by (auto simp: execute_step_def and_then_def split: option.splits sum.splits)
next
  case True
  obtain outcome s1 where check: "check_policy env (single_step_graph graph step) confirmed s = (outcome, s1)" by fastforce
  obtain terminal rec s2 where dispatch: "dispatch_action env (ts_action step) (records ! n) s1 = ((terminal, rec), s2)"
    by (metis prod.collapse)
  have "inv s2" if "\<not> policy_refuses outcome"
    using inv_dispatch [OF assms(1) check that, of _ "ec_pending_stop s1"] dispatch by simp
  moreover have "inv s1" using inv_check [OF assms(1) check] .
  ultimately show ?thesis
    using assms(2) True check dispatch by (auto simp: execute_step_def split: if_splits option.splits)
qed

lemma inv_execute_steps:
  assumes "inv s" and "execute_steps env graph preflight confirmed n steps records s = (out, s')"
  shows "inv s'"
  using assms
proof (induction steps arbitrary: n records s)
  case Nil
  then show ?case by simp
next
  case (Cons step steps)
  obtain out1 s1 where step: "execute_step env graph preflight confirmed n step records s = (out1, s1)" by fastforce
  have "inv s1" using inv_execute_step [OF Cons.prems(1) step] .
  then show ?case
    using Cons.prems(2) step Cons.IH [of s1] by (auto simp: and_then_def split: sum.splits)
qed

lemma inv_execute:
  assumes "inv s"
  shows "inv (snd (execute env argument confirmed_action_ids s))"
proof -
  have run: "inv (snd (run_graph env graph confirmed records s))" for graph confirmed records
  proof -
    obtain preflight errors s1 where check: "check_policy env graph confirmed s = ((preflight, errors), s1)"
      by (metis prod.collapse)
    have s1: "inv s1" using inv_check [OF assms check] .
    obtain out2 s2 where steps: "execute_steps env graph preflight confirmed 0 (tg_steps graph) records s1 = (out2, s2)"
      by fastforce
    have s2: "inv s2" using inv_execute_steps [OF s1 steps] .
    have "inv (snd (finish_sequence env graph preflight confirmed records' s2))" for records'
      using inv_dispatch_stop [OF s2, of graph records' preflight confirmed] s2
      by (cases "dispatch_stop env graph records' preflight confirmed s2") (auto simp: finish_sequence_def split: option.split)
    then show ?thesis
      using check steps s1 s2 by (auto simp: run_graph_def and_then_def split: sum.split)
  qed
  show ?thesis
    using run assms
    by (auto simp: execute_def Let_def split: graph_argument.split sum.split option.split)
qed

lemma inv_controller_step: "inv s \<Longrightarrow> inv (controller_step env op s)"
  by (cases op) (simp_all add: controller_step_def inv_request inv_execute)

end

sublocale controller_invariant \<subseteq> machine_invariant "controller_step env" inv
  by unfold_locales (rule inv_controller_step)

text \<open>The first invariant: an action id is recorded for each call of the adapter, and only once.\<close>

definition ids_recorded :: "'w controller \<Rightarrow> bool" where
  "ids_recorded s \<longleftrightarrow>
     map sa_action_id (calls (ec_trace s)) = rev (ec_dispatched_action_ids s) \<and> distinct (ec_dispatched_action_ids s)"

lemma dispatch_action_ids_recorded:
  assumes "ids_recorded s" and "dispatch_action env action rec s = (out, s')"
  shows "ids_recorded s'"
  using assms by (auto simp: dispatch_action_def ids_recorded_def split: sum.splits if_splits prod.splits)

interpretation recorded: controller_invariant env ids_recorded for env :: "'w environment"
proof unfold_locales
  show "ids_recorded s'" if "ids_recorded s" "check_policy env graph confirmed s = (outcome, s')" for s graph confirmed outcome s'
    using that check_policy_frame(1,2) [OF that(2)] by (simp add: ids_recorded_def)
  note check = this
  show "ids_recorded s2"
    if "ids_recorded s" "check_policy env (single_step_graph graph step) confirmed s = (outcome, s1)"
      "dispatch_action env (ts_action step) rec (s1\<lparr>ec_pending_stop := p\<rparr>) = (out, s2)" for s graph step confirmed outcome s1 rec p out s2
    using dispatch_action_ids_recorded [OF _ that(3)] check [OF that(1,2)] by (simp add: ids_recorded_def)
qed (simp_all add: ids_recorded_def)

text \<open>The second: the events are those of the gate.\<close>

interpretation gated: controller_invariant env "\<lambda>s. faithful_copies env \<longrightarrow> gated s" for env :: "'w environment"
proof unfold_locales
  show "faithful_copies env \<longrightarrow> gated s2"
    if "faithful_copies env \<longrightarrow> gated s" "check_policy env (single_step_graph graph step) confirmed s = (outcome, s1)"
      "\<not> policy_refuses outcome" "dispatch_action env (ts_action step) rec (s1\<lparr>ec_pending_stop := p\<rparr>) = (out, s2)"
    for s graph step confirmed outcome s1 rec p out s2
    using that check_then_dispatch_gated by blast
  show "faithful_copies env \<longrightarrow> gated (snd (request_stop env request s))" if "faithful_copies env \<longrightarrow> gated s" for s request
    using that by (simp add: gated_def behind_gate_def)
  show "faithful_copies env \<longrightarrow> gated s'"
    if "faithful_copies env \<longrightarrow> gated s" "check_policy env graph confirmed s = (outcome, s')" for s graph confirmed outcome s'
    using that check_policy_gated by blast
qed simp

text \<open>The third: every recorded answer is one the policy gave to that question.\<close>

definition answered :: "'w environment \<Rightarrow> 'w controller \<Rightarrow> bool" where
  "answered env s \<longleftrightarrow>
     (\<forall>graph confirmed reply. PolicyChecked graph confirmed reply \<in> set (ec_trace s) \<longrightarrow>
        (\<exists>w. fst (env_check env w graph confirmed) = reply))"

lemma check_policy_answered:
  assumes "answered env s" and "check_policy env graph confirmed s = (outcome, s')"
  shows "answered env s'"
proof (cases "env_copy_graph env graph")
  case (Inl e)
  then show ?thesis using assms by (simp add: check_policy_def)
next
  case (Inr copied)
  obtain reply stops w where "env_check env (ec_world s) copied confirmed = (reply, stops, w)"
    by (metis prod_cases3)
  then have "ec_trace s' = ec_trace s @ [PolicyChecked copied confirmed reply]"
    and "fst (env_check env (ec_world s) copied confirmed) = reply"
    using assms(2) Inr by (auto simp: check_policy_def)
  then show ?thesis using assms(1) unfolding answered_def by auto
qed

lemma dispatch_action_answered:
  assumes "answered env s" and "dispatch_action env action rec s = (out, s')"
  shows "answered env s'"
  using assms by (auto simp: dispatch_action_def answered_def split: sum.splits if_splits prod.splits)

interpretation answered: controller_invariant env "answered env" for env :: "'w environment"
proof unfold_locales
  show "answered env s2"
    if "answered env s" "check_policy env (single_step_graph graph step) confirmed s = (outcome, s1)"
      "dispatch_action env (ts_action step) rec (s1\<lparr>ec_pending_stop := p\<rparr>) = (out, s2)" for s graph step confirmed outcome s1 rec p out s2
    using dispatch_action_answered [OF _ that(3)] check_policy_answered [OF that(1,2)] by (simp add: answered_def)
qed (simp_all add: answered_def check_policy_answered [unfolded answered_def])

text \<open>
  What one execution of a graph does to the adapter: it is called for the actions of the first \<open>k\<close>
  steps, in order, and perhaps for one STOP after them.
\<close>

definition follows :: "task_graph \<Rightarrow> 'w controller \<Rightarrow> execution_report \<Rightarrow> 'w controller \<Rightarrow> bool" where
  "follows graph s report s' \<longleftrightarrow>
     (\<exists>k stops. k \<le> length (tg_steps graph) \<and> stop_calls stops
        \<and> calls (ec_trace s') = calls (ec_trace s) @ map ts_action (take k (tg_steps graph)) @ stops
        \<and> (0 < k \<longrightarrow> well_structured graph)
        \<and> (\<forall>i. Suc i < k \<longrightarrow> completed (xr_records report ! i))
        \<and> (stops \<noteq> [] \<longrightarrow> (\<forall>i<k. completed (xr_records report ! i)))
        \<and> (xr_terminal_state report = SUCCEEDED \<longrightarrow>
             k = length (tg_steps graph) \<and> stops = [] \<and> length (xr_records report) = k
             \<and> (\<forall>i<k. completed (xr_records report ! i))))"

lemma follows_none:
  "xr_terminal_state report \<noteq> SUCCEEDED \<Longrightarrow> calls (ec_trace s') = calls (ec_trace s) \<Longrightarrow> follows graph s report s'"
  unfolding follows_def by (intro exI [of _ 0] exI [of _ "[]"]) (simp add: stop_calls_def)

lemma halted_follows:
  assumes "halted (tg_steps graph) 0 s1 report s'" and "calls (ec_trace s1) = calls (ec_trace s)" and "well_structured graph"
  shows "follows graph s report s'"
  using assms unfolding halted_def follows_def by (metis diff_zero drop0)

lemma finish_follows:
  assumes "faithful_copies env" and "progress (tg_steps graph) (length (tg_steps graph)) records" and "well_structured graph"
    and calls: "calls (ec_trace s1) = calls (ec_trace s) @ map ts_action (tg_steps graph)"
    and "finish_sequence env graph preflight confirmed records s1 = (out, s')"
  shows "\<exists>report. out = Inr report \<and> follows graph s report s'"
proof -
  let ?n = "length (tg_steps graph)"
  have completed: "\<forall>i<?n. completed (records ! i)" and len: "length records = ?n"
    using assms(2) by (auto simp: progress_def)
  have follows: "follows graph s report s'"
    if "calls (ec_trace s') = calls (ec_trace s1) @ stops" "stop_calls stops"
      "\<forall>i<?n. completed (xr_records report ! i)"
      "xr_terminal_state report = SUCCEEDED \<longrightarrow> stops = [] \<and> length (xr_records report) = ?n" for report stops
    unfolding follows_def using that calls assms(3) by (intro exI [of _ ?n] exI [of _ stops]) auto
  show ?thesis
  proof (cases "live_graph_failure env graph records None preflight s1")
    case (Some report)
    then have "out = Inr report" "s' = s1" using assms(5) by (simp_all add: finish_sequence_def)
    then show ?thesis
      using follows [of "[]" report] completed live_graph_failure_report(1,3) [OF Some] by (auto simp: stop_calls_def)
  next
    case None
    show ?thesis
    proof (cases "ec_pending_stop s1 = None")
      case True
      then show ?thesis
        using assms(5) None completed len follows [of "[]" "report_of graph SUCCEEDED SEQUENCE_SUCCEEDED records preflight []"]
        by (auto simp: finish_sequence_def report_of_def stop_calls_def)
    next
      case False
      then have stop: "dispatch_stop env graph records preflight confirmed s1 = (out, s')"
        using assms(5) None by (simp add: finish_sequence_def)
      obtain report rec stops where "out = Inr report" "xr_terminal_state report \<noteq> SUCCEEDED"
        "xr_records report = records @ [rec]" "calls (ec_trace s') = calls (ec_trace s1) @ stops" "stop_calls stops"
        using dispatch_stop_calls [OF assms(1) False stop] .
      then show ?thesis using follows [of stops report] completed len by (auto simp: nth_append)
    qed
  qed
qed

lemma progress_start:
  "progress steps 0 (map (\<lambda>step. record_builder (ts_step_id step) (step_action_id step)) steps)"
  by (simp add: progress_def step_builder_def)

lemma run_graph_follows:
  assumes "faithful_copies env" and "well_structured graph"
    and "run_graph env graph confirmed (map (\<lambda>step. record_builder (ts_step_id step) (step_action_id step)) (tg_steps graph)) s = (out, s')"
  shows "\<exists>report. out = Inr report \<and> follows graph s report s'"
proof -
  let ?records = "map (\<lambda>step. record_builder (ts_step_id step) (step_action_id step)) (tg_steps graph)"
  obtain preflight errors s1 where check: "check_policy env graph confirmed s = ((preflight, errors), s1)"
    by (metis prod.collapse)
  note same = check_policy_frame(1) [OF check]
  show ?thesis
  proof (cases "policy_refuses (preflight, errors)")
    case True
    then show ?thesis
      using assms(3) check same by (auto simp: run_graph_def report_of_def intro!: follows_none)
  next
    case False
    obtain out2 s2 where steps: "execute_steps env graph preflight confirmed 0 (tg_steps graph) ?records s1 = (out2, s2)"
      by fastforce
    have final: "(out, s') = (case out2 of Inl e \<Rightarrow> (Inl e, s2) | Inr (Inl report) \<Rightarrow> (Inr report, s2)
        | Inr (Inr records') \<Rightarrow> finish_sequence env graph preflight confirmed records' s2)"
      using assms(3) check False steps by (auto simp: run_graph_def and_then_def split: sum.splits)
    from execute_steps_cases [OF assms(1) progress_start, of "tg_steps graph" graph preflight confirmed s1 out2 s2] steps
    consider records' where "out2 = Inr (Inr records')" "progress (tg_steps graph) (length (tg_steps graph)) records'"
        "calls (ec_trace s2) = calls (ec_trace s1) @ map ts_action (tg_steps graph)"
      | report where "out2 = Inr (Inl report)" "halted (tg_steps graph) 0 s1 report s2"
      by auto
    then show ?thesis
    proof cases
      case (1 records')
      then show ?thesis
        using finish_follows [OF assms(1) 1(2) assms(2), of s2 s preflight confirmed out s'] final same by simp
    next
      case (2 report)
      then show ?thesis using halted_follows [OF 2(2) same assms(2)] final by simp
    qed
  qed
qed

lemma execute_follows:
  assumes "faithful_copies env" and "env_live env (ec_world s) = Inr graph"
    and "execute env LiveGraph confirmed_action_ids s = (out, s')"
  shows "\<exists>report. out = Inr report \<and> follows graph s report s'"
proof -
  let ?records = "map (\<lambda>step. record_builder (ts_step_id step) (step_action_id step)) (tg_steps graph)"
  consider (early) report where "out = Inr report" "xr_terminal_state report = FAILED" "s' = s"
    | (run) confirmed where "well_structured graph" "run_graph env graph confirmed ?records s = (out, s')"
    using assms(2,3) structure_errors_Nil [of graph]
    by (auto simp: execute_def report_of_def Let_def split: option.splits if_splits)
  then show ?thesis
  proof cases
    case (early report)
    then show ?thesis using follows_none [of report s' s graph] by simp
  next
    case run
    then show ?thesis using run_graph_follows [OF assms(1)] by blast
  qed
qed

lemma gate_call_checked:
  assumes "gate trace granted used" and "trace = before @ AdapterCalled action # rest"
  shows "\<exists>earlier graph confirmed reply.
           before = earlier @ [PolicyChecked graph confirmed reply] \<and> grant graph reply = Some action"
  using assms
proof (induction arbitrary: rest rule: gate.induct)
  case gate_start
  then show ?case by simp
next
  case (gate_check trace granted used graph confirmed reply)
  from gate_check.prems obtain rest' where "trace = before @ AdapterCalled action # rest'"
    by (cases rest rule: rev_cases) auto
  then show ?case using gate_check.IH by blast
next
  case (gate_call trace a used)
  show ?case
  proof (cases rest rule: rev_cases)
    case Nil
    then have "before = trace" "a = action" using gate_call.prems by auto
    then have "gate before (Some action) used" using gate_call.hyps(1) by simp
    then show ?thesis by (cases rule: gate.cases) auto
  next
    case (snoc rest' e)
    then have "trace = before @ AdapterCalled action # rest'" using gate_call.prems by auto
    then show ?thesis using gate_call.IH by blast
  qed
qed

lemma controller_run_gated:
  "faithful_copies env \<Longrightarrow> gated (fold (controller_step env) ops (init_controller w))"
  using gated.inv_run [of env "init_controller w" ops] gate_start
  by (auto simp: gated_def behind_gate_def init_controller_def)

lemma run_graph_pending:
  assumes "faithful_copies env" and "ec_pending_stop s \<noteq> None"
    and "run_graph env graph confirmed (map (\<lambda>step. record_builder (ts_step_id step) (step_action_id step)) (tg_steps graph)) s = (out, s')"
  shows "\<exists>stops. stop_calls stops \<and> calls (ec_trace s') = calls (ec_trace s) @ stops"
proof -
  let ?records = "map (\<lambda>step. record_builder (ts_step_id step) (step_action_id step)) (tg_steps graph)"
  obtain preflight errors s1 where check: "check_policy env graph confirmed s = ((preflight, errors), s1)"
    by (metis prod.collapse)
  note same = check_policy_frame(1) [OF check]
  have pending: "ec_pending_stop s1 \<noteq> None" using check_policy_frame(3) [OF check] assms(2) by auto
  show ?thesis
  proof (cases "policy_refuses (preflight, errors)")
    case True
    then show ?thesis using assms(3) check same by (auto simp: run_graph_def stop_calls_def)
  next
    case False
    obtain out2 s2 where steps: "execute_steps env graph preflight confirmed 0 (tg_steps graph) ?records s1 = (out2, s2)"
      by fastforce
    have final: "s' = (case out2 of Inl e \<Rightarrow> s2 | Inr (Inl report) \<Rightarrow> s2
        | Inr (Inr records') \<Rightarrow> snd (finish_sequence env graph preflight confirmed records' s2))"
      using assms(3) check False steps by (auto simp: run_graph_def and_then_def split: sum.splits)
    from execute_steps_cases [OF assms(1) progress_start, of "tg_steps graph" graph preflight confirmed s1 out2 s2] steps pending
    consider report stops where "out2 = Inr (Inl report)" "stop_calls stops" "calls (ec_trace s2) = calls (ec_trace s1) @ stops"
      | records' where "out2 = Inr (Inr records')" "tg_steps graph = []"
      by auto
    then show ?thesis
    proof cases
      case 1
      then show ?thesis using final same by auto
    next
      case (2 records')
      then have s2: "s2 = s1" using steps by simp
      obtain out3 s3 where stop: "dispatch_stop env graph records' preflight confirmed s1 = (out3, s3)" by fastforce
      obtain stops where "calls (ec_trace s3) = calls (ec_trace s1) @ stops" "stop_calls stops"
        using dispatch_stop_calls [OF assms(1) pending stop] by metis
      then show ?thesis
        using final 2(1) s2 stop pending same by (auto simp: finish_sequence_def stop_calls_def split: option.splits)
    qed
  qed
qed

section \<open>Properties\<close>

text \<open>
  C2: the controller refines the gate. Whatever a client calls and in whatever order, and whatever
  the policy, the adapter and the other holders of the graph do, the calls of the policy and the
  adapter are a run of the gate, with the recorded action ids as the used ones.
\<close>

theorem controller_refines_the_gate:
  assumes "faithful_copies env" and "s = fold (controller_step env) ops (init_controller w)"
  shows "\<exists>granted. gate (ec_trace s) granted (set (ec_dispatched_action_ids s))"
  using controller_run_gated [OF assms(1)] unfolding assms(2) gated_def behind_gate_def .

text \<open>
  C8: an action id is dispatched at most once. Over any sequence of calls on one controller no two
  calls of the adapter carry the same action id, whatever the policy, the adapter and the model
  library do.
\<close>

theorem action_ids_are_dispatched_at_most_once:
  "distinct (map sa_action_id (calls (ec_trace (fold (controller_step env) ops (init_controller w)))))"
  using recorded.inv_run [of "init_controller w" env ops]
  by (simp add: ids_recorded_def init_controller_def)

text \<open>
  C6: nothing reaches the adapter that the policy did not just allow. The event before a call of the
  adapter is a policy check of one step with that action, answered by one decision that allows it.
\<close>

theorem every_dispatch_was_just_allowed:
  assumes "faithful_copies env"
    and "ec_trace (fold (controller_step env) ops (init_controller w)) = before @ AdapterCalled action # rest"
  shows "\<exists>earlier graph confirmed reply.
           before = earlier @ [PolicyChecked graph confirmed reply] \<and> grant graph reply = Some action"
  using controller_run_gated [OF assms(1), of ops w] gate_call_checked [OF _ assms(2)]
  unfolding gated_def behind_gate_def by blast


text \<open>
  C7: a queued STOP comes first. When a STOP is pending, an execution calls the adapter for no action
  of its graph: it makes no call, or one call with a STOP.
\<close>

theorem pending_stop_blocks_the_graph:
  fixes env :: "'w environment"
  assumes "faithful_copies env" and "ec_pending_stop s = Some stop"
  shows "\<exists>stops. stop_calls stops
           \<and> calls (ec_trace (snd (execute env argument confirmed_action_ids s))) = calls (ec_trace s) @ stops"
proof -
  define same where "same s' \<longleftrightarrow> (\<exists>stops. stop_calls stops \<and> calls (ec_trace s') = calls (ec_trace s) @ stops)" for s' :: "'w controller"
  have run: "same (snd (run_graph env graph confirmed
      (map (\<lambda>step. record_builder (ts_step_id step) (step_action_id step)) (tg_steps graph)) s))" for graph confirmed
  proof -
    obtain out s' where "run_graph env graph confirmed
        (map (\<lambda>step. record_builder (ts_step_id step) (step_action_id step)) (tg_steps graph)) s = (out, s')" by fastforce
    with run_graph_pending [OF assms(1) _ this] show ?thesis using assms(2) by (simp add: same_def)
  qed
  have unchanged: "same s" by (simp add: same_def stop_calls_def)
  have "same (snd (execute env argument confirmed_action_ids s))"
    using run unchanged by (simp add: execute_def Let_def split: graph_argument.split sum.split option.split)
  then show ?thesis by (simp add: same_def)
qed

section \<open>A concrete run\<close>

definition demo_step :: "string \<Rightarrow> string \<Rightarrow> action_type \<Rightarrow> string list \<Rightarrow> task_step" where
  "demo_step step_id action_id t deps =
     \<lparr>ts_step_id = step_id,
      ts_action = \<lparr>sa_action_id = action_id, sa_action_type = t, sa_target_id = Some ''cup'', sa_parameters = []\<rparr>,
      ts_depends_on = deps\<rparr>"

definition demo_graph :: task_graph where
  "demo_graph =
     \<lparr>tg_task_id = ''t'', tg_goal = ''g'',
      tg_steps = [demo_step ''s1'' ''a1'' OBSERVE [], demo_step ''s2'' ''a2'' GRASP [''s1'']],
      tg_planner = ''p'', tg_model_route = ''m''\<rparr>"

definition demo_result :: "string \<Rightarrow> action_result" where
  "demo_result action_id =
     \<lparr>ar_result_id = ''r'', ar_action_id = action_id, ar_run_id = ''run'', ar_outcome = OUTCOME_COMPLETED,
      ar_dispatch_state = SENT, ar_device_state = CONFIRMED, ar_error_code = None, ar_error_reason = None,
      ar_started_at = ''0'', ar_ended_at = ''1'', ar_clock_id = MONOTONIC, ar_retry_count = 0,
      ar_entity_id = None, ar_resulting_location = None, ar_evidence_refs = []\<rparr>"

text \<open>A policy that allows everything, and an adapter that completes everything.\<close>

definition demo_env :: "unit environment" where
  "demo_env =
     \<lparr>env_live = (\<lambda>_. Inr demo_graph), env_live_task_id = (\<lambda>_. None),
      env_copy_graph = Inr, env_copy_action = Inr, env_copy_result = Inr,
      env_dump = (\<lambda>g. PyList (map (\<lambda>(i, j). PyList [PyStr i, PyStr j]) (step_ids g))),
      env_check = (\<lambda>w g c. (CheckReport (Decisions (map (\<lambda>step.
          policy_decision_of step ALLOW POLICY_ALLOWED None []) (tg_steps g))) (Inr g), [], w)),
      env_dispatch = (\<lambda>w a. (AdapterResult (demo_result (sa_action_id a)), [], w))\<rparr>"

definition demo_stop :: semantic_action where
  "demo_stop = \<lparr>sa_action_id = ''stop'', sa_action_type = STOP, sa_target_id = None, sa_parameters = []\<rparr>"

abbreviation demo_run :: "unit controller" where
  "demo_run \<equiv> fold (controller_step demo_env) [OpExecute LiveGraph (PySet [])] (init_controller ())"

lemma demo_env_faithful: "faithful_copies demo_env"
proof -
  have "inj (\<lambda>(i, j). PyList [PyStr i, PyStr j])" by (auto simp: inj_def)
  then show ?thesis by (auto simp: faithful_copies_def demo_env_def dest: map_injective)
qed

lemma demo_run_calls: "map sa_action_id (calls (ec_trace demo_run)) = [''a1'', ''a2'']"
  by code_simp

lemma demo_run_first_call:
  "ec_trace demo_run = take 2 (ec_trace demo_run)
     @ AdapterCalled (ts_action (demo_step ''s1'' ''a1'' OBSERVE [])) # drop 3 (ec_trace demo_run)"
  by code_simp

theorem controller_refines_the_gate_witness:
  "map sa_action_id (calls (ec_trace demo_run)) = [''a1'', ''a2'']
   \<and> (\<exists>granted. gate (ec_trace demo_run) granted (set (ec_dispatched_action_ids demo_run)))"
  using controller_refines_the_gate [OF demo_env_faithful refl] demo_run_calls by blast

theorem every_dispatch_was_just_allowed_witness:
  "\<exists>earlier graph confirmed reply.
     take 2 (ec_trace demo_run) = earlier @ [PolicyChecked graph confirmed reply]
     \<and> grant graph reply = Some (ts_action (demo_step ''s1'' ''a1'' OBSERVE []))"
  using every_dispatch_was_just_allowed [OF demo_env_faithful demo_run_first_call] .


text \<open>A STOP queued first is all that is dispatched.\<close>

definition stopped_start :: "unit controller" where
  "stopped_start = snd (request_stop demo_env (RequestStop demo_stop) (init_controller ()))"

lemma stopped_start_pending: "ec_pending_stop stopped_start = Some demo_stop"
  by code_simp

theorem pending_stop_blocks_the_graph_witness:
  "map sa_action_id (calls (ec_trace (snd (execute demo_env LiveGraph (PySet []) stopped_start)))) = [''stop'']
   \<and> (\<exists>stops. stop_calls stops
        \<and> calls (ec_trace (snd (execute demo_env LiveGraph (PySet []) stopped_start))) = calls (ec_trace stopped_start) @ stops)"
proof
  show "map sa_action_id (calls (ec_trace (snd (execute demo_env LiveGraph (PySet []) stopped_start)))) = [''stop'']"
    by code_simp
qed (rule pending_stop_blocks_the_graph [OF demo_env_faithful stopped_start_pending])

end
