(* ===== verification/ObservedAttributes.thy ===== *)
theory ObservedAttributes
  imports Contracts JsonText "HOL-Library.AList"
begin

text \<open>
  The bounded vocabulary of observed attributes, after
  \<^verbatim>\<open>libs/contracts/workbench_contracts/observed_attributes.py\<close>: which keys and values an entity type
  admits, what the evidence metadata of one attribute must look like, and how metadata that an
  observation omits is filled in from the observation. Errors are modelled by their class, messages
  are not.
\<close>

datatype world_error =
    WValueError
  | WPayloadError \<comment> \<open>\<^verbatim>\<open>WorldEventPayloadValidationError\<close>, a subclass of \<^verbatim>\<open>ValueError\<close>\<close>
  | WTypeError
  | WOverflowError

section \<open>The vocabulary\<close>

definition MAX_ATTRIBUTE_COUNT :: nat where "MAX_ATTRIBUTE_COUNT = 32"
definition MAX_ATTRIBUTE_KEY_LENGTH :: nat where "MAX_ATTRIBUTE_KEY_LENGTH = 64"
definition MAX_ATTRIBUTE_VALUE_LENGTH :: nat where "MAX_ATTRIBUTE_VALUE_LENGTH = 256"
definition MAX_ATTRIBUTES_JSON_BYTES :: nat where "MAX_ATTRIBUTES_JSON_BYTES = 4096"
definition MAX_ATTRIBUTE_METADATA_JSON_BYTES :: nat where
  "MAX_ATTRIBUTE_METADATA_JSON_BYTES = 16 * 1024"
definition MAX_ATTRIBUTE_METADATA_TEXT_LENGTH :: nat where "MAX_ATTRIBUTE_METADATA_TEXT_LENGTH = 256"
definition MAX_ATTRIBUTE_EVIDENCE_REF_COUNT :: nat where "MAX_ATTRIBUTE_EVIDENCE_REF_COUNT = 32"
definition MAX_ATTRIBUTE_EVIDENCE_REF_LENGTH :: nat where "MAX_ATTRIBUTE_EVIDENCE_REF_LENGTH = 256"

definition ATTRIBUTE_SCHEMA_VERSION :: string where
  "ATTRIBUTE_SCHEMA_VERSION = ''observed-attributes-v1''"
definition LEGACY_ATTRIBUTE_MIGRATION_VERSION :: string where
  "LEGACY_ATTRIBUTE_MIGRATION_VERSION = ''legacy-observed-attributes-v0''"

definition ATTRIBUTE_BELIEF_VALUES :: "string list" where
  "ATTRIBUTE_BELIEF_VALUES = [''observed'', ''inferred'', ''stale'', ''lost'']"

definition GENERIC_ATTRIBUTE_KEYS :: "string list" where
  "GENERIC_ATTRIBUTE_KEYS = [''colour'', ''presence'', ''identity'', ''orientation'']"

definition PARCEL_ATTRIBUTE_KEYS :: "string list" where
  "PARCEL_ATTRIBUTE_KEYS = [''label_status'', ''condition'', ''tracking_id'', ''barcode'', ''parcel_uid'']"

definition APPLIANCE_ATTRIBUTE_KEYS :: "string list" where
  "APPLIANCE_ATTRIBUTE_KEYS = [''door_state'', ''rack_state'']"

definition MANAGED_SLOT_ATTRIBUTE_KEYS :: "string list" where
  "MANAGED_SLOT_ATTRIBUTE_KEYS = [''slot_state'', ''slot_occupancy'']"

definition SUPPORTED_ATTRIBUTE_KEYS :: "string list" where
  "SUPPORTED_ATTRIBUTE_KEYS =
     GENERIC_ATTRIBUTE_KEYS @ PARCEL_ATTRIBUTE_KEYS @ APPLIANCE_ATTRIBUTE_KEYS @ MANAGED_SLOT_ATTRIBUTE_KEYS"

definition ATTRIBUTE_ENUMS :: "(string \<times> string list) list" where
  "ATTRIBUTE_ENUMS =
     [(''label_status'', [''verified'', ''unreadable'', ''missing'', ''unknown'']),
      (''condition'', [''intact'', ''damaged'', ''unknown'']),
      (''door_state'', [''open'', ''closed'', ''unknown'']),
      (''rack_state'', [''open'', ''closed'', ''unknown'']),
      (''slot_state'', [''empty'', ''occupied'', ''blocked'', ''unknown'']),
      (''slot_occupancy'', [''empty'', ''occupied'', ''blocked'', ''unknown'']),
      (''presence'', [''present'', ''absent'', ''unknown''])]"

definition PARCEL_ENTITY_TYPES :: "string list" where
  "PARCEL_ENTITY_TYPES =
     [''parcel'', ''parcel_box'', ''parcel_envelope'', ''box'', ''envelope'', ''package'']"

definition DOOR_ONLY_ENTITY_TYPES :: "string list" where
  "DOOR_ONLY_ENTITY_TYPES = [''washer'', ''washing_machine'', ''washer_door'', ''dishwasher_door'']"

definition APPLIANCE_ENTITY_TYPES :: "string list" where
  "APPLIANCE_ENTITY_TYPES = [''appliance'', ''dishwasher'']"

definition RACK_ENTITY_TYPES :: "string list" where
  "RACK_ENTITY_TYPES = [''rack'', ''dishwasher_rack'', ''rack_fixture'']"

definition SLOT_ENTITY_TYPES :: "string list" where
  "SLOT_ENTITY_TYPES = [''slot'', ''managed_slot'', ''rack_slot'', ''dishwasher_slot'']"

section \<open>Text\<close>

text \<open>
  \<^verbatim>\<open>str.isprintable\<close>, \<^verbatim>\<open>str.casefold\<close> and \<^verbatim>\<open>str.replace("-", "_")\<close> on code points below 256. The
  micro sign folds to a Greek letter outside that range; it is left as it is, and neither letter is
  in a name the folded text is compared with.
\<close>

definition printable_char :: "char \<Rightarrow> bool" where
  "printable_char c \<longleftrightarrow>
     (let n = (of_char c :: nat) in 32 \<le> n \<and> n \<le> 126 \<or> 161 \<le> n \<and> n \<noteq> 173)"

definition printable_text :: "string \<Rightarrow> bool" where
  "printable_text s \<longleftrightarrow> list_all printable_char s"

definition casefold_char :: "char \<Rightarrow> string" where
  "casefold_char c =
     (let n = (of_char c :: nat) in
      if 65 \<le> n \<and> n \<le> 90 \<or> 192 \<le> n \<and> n \<le> 222 \<and> n \<noteq> 215 then [char_of (n + 32)]
      else if n = 223 then ''ss''
      else [c])"

definition casefold :: "string \<Rightarrow> string" where
  "casefold s = concat (map casefold_char s)"

definition dash_to_underscore :: "string \<Rightarrow> string" where
  "dash_to_underscore s = map (\<lambda>c. if c = CHR ''-'' then CHR ''_'' else c) s"

text \<open>Text of at most \<open>chars\<close> characters and \<open>bytes\<close> bytes, printable, without surrounding blanks.\<close>

definition bounded_text :: "nat \<Rightarrow> nat \<Rightarrow> pyval \<Rightarrow> world_error + string" where
  "bounded_text chars bytes v =
     (case v of
        PyStr s \<Rightarrow>
          require (\<not> py_blank s) WValueError
            (require (length s \<le> chars) WValueError
              (require (utf8_length s \<le> bytes) WValueError
                (require (printable_text s \<and> s = py_strip s) WValueError (Inr s))))
      | _ \<Rightarrow> Inl WValueError)"

definition validate_metadata_text :: "pyval \<Rightarrow> world_error + string" where
  "validate_metadata_text =
     bounded_text MAX_ATTRIBUTE_METADATA_TEXT_LENGTH (MAX_ATTRIBUTE_METADATA_TEXT_LENGTH * 4)"

definition validate_evidence_reference :: "pyval \<Rightarrow> world_error + string" where
  "validate_evidence_reference =
     bounded_text MAX_ATTRIBUTE_EVIDENCE_REF_LENGTH MAX_ATTRIBUTE_EVIDENCE_REF_LENGTH"

definition validate_attribute_evidence_refs :: "bool \<Rightarrow> pyval \<Rightarrow> world_error + string list" where
  "validate_attribute_evidence_refs require_non_empty v =
     (case v of
        PyList refs \<Rightarrow>
          require (\<not> (require_non_empty \<and> refs = [])) WValueError
            (require (length refs \<le> MAX_ATTRIBUTE_EVIDENCE_REF_COUNT) WValueError
              (and_try (traverse validate_evidence_reference refs) (\<lambda>normalized.
                 require (distinct normalized) WValueError (Inr normalized))))
      | _ \<Rightarrow> Inl WValueError)"

section \<open>Attribute maps\<close>

definition validate_attribute_key :: "string list option \<Rightarrow> bool \<Rightarrow> string \<Rightarrow> world_error + string" where
  "validate_attribute_key applicable allow_unknown_keys key =
     require (\<not> py_blank key) WValueError
       (require (length key \<le> MAX_ATTRIBUTE_KEY_LENGTH) WValueError
         (require (printable_text key \<and> key = py_strip key) WValueError
           (require (key \<in> set SUPPORTED_ATTRIBUTE_KEYS \<or> allow_unknown_keys) WValueError
             (require
                (case applicable of None \<Rightarrow> True | Some keys \<Rightarrow> key \<in> set keys \<or> allow_unknown_keys)
                WValueError (Inr key)))))"

definition applicable_keys :: "string option \<Rightarrow> string list option" where
  "applicable_keys entity_type =
     (case entity_type of
        None \<Rightarrow> None
      | Some t \<Rightarrow>
          let normalized = dash_to_underscore (casefold (py_strip t)) in
          if normalized = ''legacy'' then Some SUPPORTED_ATTRIBUTE_KEYS
          else if normalized \<in> set PARCEL_ENTITY_TYPES
          then Some (GENERIC_ATTRIBUTE_KEYS @ PARCEL_ATTRIBUTE_KEYS)
          else if normalized \<in> set APPLIANCE_ENTITY_TYPES
          then Some (GENERIC_ATTRIBUTE_KEYS @ APPLIANCE_ATTRIBUTE_KEYS)
          else if normalized \<in> set DOOR_ONLY_ENTITY_TYPES
          then Some (GENERIC_ATTRIBUTE_KEYS @ [''door_state''])
          else if normalized \<in> set RACK_ENTITY_TYPES
          then Some (GENERIC_ATTRIBUTE_KEYS @ [''rack_state''])
          else if normalized \<in> set SLOT_ENTITY_TYPES
          then Some (GENERIC_ATTRIBUTE_KEYS @ MANAGED_SLOT_ATTRIBUTE_KEYS)
          else Some GENERIC_ATTRIBUTE_KEYS)"

definition str_dict :: "(string \<times> string) list \<Rightarrow> (string \<times> pyval) list" where
  "str_dict d = map (\<lambda>(k, v). (k, PyStr v)) d"

definition validate_attribute_item ::
    "string list option \<Rightarrow> bool \<Rightarrow> string \<times> pyval \<Rightarrow> world_error + string \<times> string" where
  "validate_attribute_item applicable allow_unknown_keys = (\<lambda>(raw_key, item).
     and_try (validate_attribute_key applicable allow_unknown_keys raw_key) (\<lambda>key.
       case item of
         PyStr s \<Rightarrow>
           require (\<not> py_blank s) WValueError
             (require (length s \<le> MAX_ATTRIBUTE_VALUE_LENGTH) WValueError
               (require (s = py_strip s \<and> printable_text s) WValueError
                 (require
                    (case map_of ATTRIBUTE_ENUMS key of None \<Rightarrow> True | Some allowed \<Rightarrow> s \<in> set allowed)
                    WValueError (Inr (key, s)))))
       | _ \<Rightarrow> Inl WValueError))"

text \<open>The byte length of the canonical text of a dictionary, checked against a limit.\<close>

definition within_json_bytes :: "float_ops \<Rightarrow> nat \<Rightarrow> pyval \<Rightarrow> bool" where
  "within_json_bytes fl limit v \<longleftrightarrow>
     (case json_dumps fl v of None \<Rightarrow> False | Some t \<Rightarrow> utf8_length t \<le> limit)"

definition validate_observed_attributes ::
    "float_ops \<Rightarrow> string option \<Rightarrow> bool \<Rightarrow> pyval \<Rightarrow> world_error + (string \<times> string) list" where
  "validate_observed_attributes fl entity_type allow_unknown_keys v =
     (case v of
        PyDict d \<Rightarrow>
          require (length d \<le> MAX_ATTRIBUTE_COUNT) WValueError
            (require (case entity_type of None \<Rightarrow> True | Some t \<Rightarrow> \<not> py_blank t) WValueError
              (and_try
                 (traverse (validate_attribute_item (applicable_keys entity_type) allow_unknown_keys) d)
                 (\<lambda>normalized.
                    require (within_json_bytes fl MAX_ATTRIBUTES_JSON_BYTES (PyDict (str_dict normalized)))
                      WValueError (Inr normalized))))
      | _ \<Rightarrow> Inl WValueError)"

section \<open>Evidence metadata of one attribute\<close>

datatype world_belief = BELIEF_OBSERVED | BELIEF_INFERRED | BELIEF_STALE | BELIEF_LOST

definition belief_value :: "world_belief \<Rightarrow> string" where
  "belief_value b =
     (case b of
        BELIEF_OBSERVED \<Rightarrow> ''observed''
      | BELIEF_INFERRED \<Rightarrow> ''inferred''
      | BELIEF_STALE \<Rightarrow> ''stale''
      | BELIEF_LOST \<Rightarrow> ''lost'')"

definition clock_value :: "clock_id \<Rightarrow> string" where
  "clock_value c = (case c of MONOTONIC \<Rightarrow> ''monotonic'' | WALL \<Rightarrow> ''wall'')"

record attribute_metadata =
  am_observed_at :: string
  am_confidence :: rat
  am_evidence_refs :: "string list"
  am_belief :: string
  am_clock_id :: string
  am_source :: "string option"

definition metadata_fields :: "string list" where
  "metadata_fields =
     [''observed_at'', ''confidence'', ''evidence_refs'', ''belief'', ''clock_id'', ''source'']"

text \<open>
  A number between 0 and 1 as a double. \<^verbatim>\<open>float(value)\<close> raises \<^verbatim>\<open>OverflowError\<close> for an integer too
  large for a double.
\<close>

definition unit_float :: "rat \<Rightarrow> world_error + rat" where
  "unit_float q = require (0 \<le> q \<and> q \<le> 1) WValueError (Inr q)"

definition normalize_confidence :: "float_ops \<Rightarrow> pyval \<Rightarrow> world_error + rat" where
  "normalize_confidence fl v =
     (case v of
        PyInt i \<Rightarrow> (case fl_round fl (of_int i) of None \<Rightarrow> Inl WOverflowError | Some q \<Rightarrow> unit_float q)
      | PyFloat (Finite q) \<Rightarrow> unit_float q
      | _ \<Rightarrow> Inl WValueError)"

definition normalize_belief :: "pyval \<Rightarrow> world_error + string" where
  "normalize_belief v =
     (case v of
        PyStr s \<Rightarrow> require (s \<in> set ATTRIBUTE_BELIEF_VALUES) WValueError (Inr s)
      | _ \<Rightarrow> Inl WValueError)"

definition normalize_clock_id :: "pyval \<Rightarrow> world_error + string" where
  "normalize_clock_id v =
     (case v of
        PyStr s \<Rightarrow> require (s = ''monotonic'' \<or> s = ''wall'') WValueError (Inr s)
      | _ \<Rightarrow> Inl WValueError)"

definition reject_null_source :: "pyval \<Rightarrow> world_error + string" where
  "reject_null_source v = (if v = PyNone then Inl WValueError else validate_metadata_text v)"

definition required_field ::
    "(string \<times> pyval) list \<Rightarrow> string \<Rightarrow> (pyval \<Rightarrow> world_error + 'a) \<Rightarrow> world_error + 'a" where
  "required_field d k f = (case map_of d k of None \<Rightarrow> Inl WValueError | Some v \<Rightarrow> f v)"

definition optional_field ::
    "(string \<times> pyval) list \<Rightarrow> string \<Rightarrow> 'a \<Rightarrow> (pyval \<Rightarrow> world_error + 'a) \<Rightarrow> world_error + 'a" where
  "optional_field d k dflt f = (case map_of d k of None \<Rightarrow> Inr dflt | Some v \<Rightarrow> f v)"

text \<open>
  \<^verbatim>\<open>ObservedAttributeMetadata.model_validate\<close>. Every field is looked at whatever the others are, so an
  \<^verbatim>\<open>OverflowError\<close> of the confidence, which the library does not catch, comes before any other error.
\<close>

definition metadata_model :: "float_ops \<Rightarrow> pyval \<Rightarrow> world_error + attribute_metadata" where
  "metadata_model fl v =
     (case v of
        PyDict d \<Rightarrow>
          require (required_field d ''confidence'' (normalize_confidence fl) \<noteq> Inl WOverflowError) WOverflowError
            (require (fst ` set d \<subseteq> set metadata_fields) WValueError
              (and_try (required_field d ''observed_at'' validate_metadata_text) (\<lambda>observed_at.
               and_try (required_field d ''confidence'' (normalize_confidence fl)) (\<lambda>confidence.
               and_try (required_field d ''evidence_refs'' (validate_attribute_evidence_refs True)) (\<lambda>refs.
               and_try (required_field d ''belief'' normalize_belief) (\<lambda>belief.
               and_try (optional_field d ''clock_id'' ''monotonic'' normalize_clock_id) (\<lambda>clock.
               and_try (optional_field d ''source'' None (\<lambda>s. and_try (reject_null_source s) (Inr \<circ> Some))) (\<lambda>source.
               Inr \<lparr>am_observed_at = observed_at, am_confidence = confidence, am_evidence_refs = refs,
                    am_belief = belief, am_clock_id = clock, am_source = source\<rparr>))))))))
      | _ \<Rightarrow> Inl WValueError)"

text \<open>\<^verbatim>\<open>model_dump(mode="json", exclude_none=True)\<close>\<close>

definition metadata_dump :: "attribute_metadata \<Rightarrow> (string \<times> pyval) list" where
  "metadata_dump m =
     [(''observed_at'', PyStr (am_observed_at m)),
      (''confidence'', PyFloat (Finite (am_confidence m))),
      (''evidence_refs'', PyList (map PyStr (am_evidence_refs m))),
      (''belief'', PyStr (am_belief m)),
      (''clock_id'', PyStr (am_clock_id m))]
     @ (case am_source m of None \<Rightarrow> [] | Some s \<Rightarrow> [(''source'', PyStr s)])"

type_synonym metadata_map = "(string \<times> (string \<times> pyval) list) list"

definition metadata_dict :: "metadata_map \<Rightarrow> (string \<times> pyval) list" where
  "metadata_dict ms = map (\<lambda>(k, m). (k, PyDict m)) ms"

text \<open>
  \<^verbatim>\<open>except (TypeError, ValueError) as error: raise ValueError\<close>; an \<^verbatim>\<open>OverflowError\<close> passes.
\<close>

definition rewrap :: "world_error \<Rightarrow> world_error + 'a \<Rightarrow> world_error + 'a" where
  "rewrap e r = (case r of Inl f \<Rightarrow> Inl (if f = WOverflowError then f else e) | Inr a \<Rightarrow> Inr a)"

definition validate_metadata_item ::
    "float_ops \<Rightarrow> string list option \<Rightarrow> string list option \<Rightarrow> bool \<Rightarrow> bool \<Rightarrow> pyval
     \<Rightarrow> string \<times> pyval \<Rightarrow> world_error + string \<times> (string \<times> pyval) list" where
  "validate_metadata_item fl attribute_keys applicable allow_unknown_keys require_observed expected_clock =
     (\<lambda>(raw_key, raw_metadata).
        and_try (validate_attribute_key applicable allow_unknown_keys raw_key) (\<lambda>key.
        require (case attribute_keys of None \<Rightarrow> True | Some keys \<Rightarrow> key \<in> set keys) WValueError
          (and_try (rewrap WValueError (metadata_model fl raw_metadata)) (\<lambda>m.
             require (require_observed \<longrightarrow> am_belief m = ''observed'') WValueError
               (require (expected_clock = PyNone \<or> PyStr (am_clock_id m) = expected_clock) WValueError
                 (Inr (key, metadata_dump m)))))))"

text \<open>
  \<^verbatim>\<open>expected_clock not in {"monotonic", "wall"}\<close> raises \<^verbatim>\<open>TypeError\<close> for a value that has no hash. A
  set is looked up as the frozen set of its elements; one inside a tuple is taken to be frozen.
\<close>

fun py_hashable :: "pyval \<Rightarrow> bool" where
  "py_hashable (PyList xs) = False"
| "py_hashable (PyDict d) = False"
| "py_hashable (PyTuple xs) = list_all py_hashable xs"
| "py_hashable _ = True"

definition check_expected_clock :: "pyval \<Rightarrow> world_error + unit" where
  "check_expected_clock v =
     (if v = PyNone then Inr ()
      else require (py_hashable v) WTypeError
        (require (v = PyStr ''monotonic'' \<or> v = PyStr ''wall'') WValueError (Inr ())))"

definition validate_attribute_metadata_map ::
    "float_ops \<Rightarrow> string list option \<Rightarrow> string option \<Rightarrow> bool \<Rightarrow> bool \<Rightarrow> bool \<Rightarrow> pyval
     \<Rightarrow> pyval \<Rightarrow> world_error + metadata_map" where
  "validate_attribute_metadata_map fl attribute_keys entity_type allow_unknown_keys require_observed
       require_complete expected_clock v =
     (case v of
        PyDict d \<Rightarrow>
          require (length d \<le> MAX_ATTRIBUTE_COUNT) WValueError
            (and_try
               (case attribute_keys of
                  None \<Rightarrow> Inr ()
                | Some keys \<Rightarrow>
                    and_try (traverse (validate_attribute_key (applicable_keys entity_type) allow_unknown_keys) keys)
                      (\<lambda>_. require (\<not> (require_complete \<and> \<not> set keys \<subseteq> fst ` set d)) WValueError (Inr ())))
               (\<lambda>_. and_try (check_expected_clock expected_clock) (\<lambda>_.
                 and_try
                   (traverse
                      (validate_metadata_item fl attribute_keys (applicable_keys entity_type) allow_unknown_keys
                         require_observed expected_clock) d)
                   (\<lambda>normalized.
                      require
                        (within_json_bytes fl MAX_ATTRIBUTE_METADATA_JSON_BYTES (PyDict (metadata_dict normalized)))
                        WValueError (Inr normalized)))))
      | _ \<Rightarrow> Inl WValueError)"

definition legacy_attribute_keys_allowed :: "string option \<Rightarrow> bool" where
  "legacy_attribute_keys_allowed entity_type = False"

section \<open>Filling in metadata\<close>

definition py_update :: "(string \<times> pyval) list \<Rightarrow> (string \<times> pyval) list \<Rightarrow> (string \<times> pyval) list" where
  "py_update d e = fold (\<lambda>(k, v). AList.update k v) e d"

text \<open>The metadata an attribute gets from the enclosing observation.\<close>

definition metadata_defaults :: "pyval \<Rightarrow> pyval \<Rightarrow> pyval \<Rightarrow> pyval \<Rightarrow> pyval \<Rightarrow> (string \<times> pyval) list" where
  "metadata_defaults observed_at confidence evidence_refs clock source =
     [(''observed_at'', observed_at),
      (''confidence'', confidence),
      (''evidence_refs'', evidence_refs),
      (''belief'', PyStr ''observed''),
      (''clock_id'', clock)]
     @ (if source = PyNone then [] else [(''source'', source)])"

definition materialize_item ::
    "float_ops \<Rightarrow> metadata_map \<Rightarrow> (string \<times> pyval) list \<Rightarrow> string \<Rightarrow> world_error + string \<times> (string \<times> pyval) list" where
  "materialize_item fl explicit defaults key =
     (let candidate = py_update defaults (case map_of explicit key of None \<Rightarrow> [] | Some m \<Rightarrow> m) in
      and_try (rewrap WValueError (metadata_model fl (PyDict candidate))) (\<lambda>item.
        require (am_belief item = ''observed'') WValueError (Inr (key, metadata_dump item))))"

definition materialize_attribute_metadata ::
    "float_ops \<Rightarrow> (string \<times> string) list \<Rightarrow> pyval \<Rightarrow> (string \<times> pyval) list \<Rightarrow> pyval \<Rightarrow> string option \<Rightarrow> bool
     \<Rightarrow> world_error + metadata_map" where
  "materialize_attribute_metadata fl attributes metadata defaults clock entity_type allow_unknown_keys =
     and_try (validate_observed_attributes fl entity_type allow_unknown_keys (PyDict (str_dict attributes))) (\<lambda>_.
     and_try
       (if metadata = PyNone then Inr []
        else validate_attribute_metadata_map fl (Some (map fst attributes)) entity_type allow_unknown_keys
               True False clock metadata)
       (\<lambda>explicit.
     and_try (traverse (materialize_item fl explicit defaults) (map fst attributes)) (\<lambda>normalized.
     and_try
       (validate_attribute_metadata_map fl (Some (map fst attributes)) entity_type allow_unknown_keys
          True True clock (PyDict (metadata_dict normalized)))
       (\<lambda>_. Inr normalized))))"

section \<open>Validation returns what it accepts\<close>

text \<open>
  Every validator above accepts what it returns: a second pass over validated data succeeds and
  changes nothing.
\<close>

named_theorems validator_idem \<open>a validator accepts its own result and returns it\<close>

lemma bounded_text_eq: "bounded_text n b v = Inr s \<Longrightarrow> v = PyStr s"
  by (auto simp: bounded_text_def outcome_simps split: pyval.splits)

lemma bounded_text_idem [validator_idem]: "bounded_text n b v = Inr s \<Longrightarrow> bounded_text n b (PyStr s) = Inr s"
  by (frule bounded_text_eq) simp

lemma metadata_text_idem [validator_idem]:
  "validate_metadata_text v = Inr s \<Longrightarrow> validate_metadata_text (PyStr s) = Inr s"
  unfolding validate_metadata_text_def by (rule bounded_text_idem)

lemma evidence_reference_eq: "validate_evidence_reference v = Inr s \<Longrightarrow> v = PyStr s"
  unfolding validate_evidence_reference_def by (rule bounded_text_eq)

lemma evidence_references_eq:
  "list_all2 (\<lambda>v s. validate_evidence_reference v = Inr s) vs ss \<Longrightarrow> vs = map PyStr ss"
  by (induction rule: list_all2_induct) (auto dest: evidence_reference_eq)

lemma evidence_refs_eq: "validate_attribute_evidence_refs b v = Inr refs \<Longrightarrow> v = PyList (map PyStr refs)"
  by (auto simp: validate_attribute_evidence_refs_def outcome_simps dest: evidence_references_eq
      split: pyval.splits)

lemma evidence_refs_idem [validator_idem]:
  "validate_attribute_evidence_refs b v = Inr refs
   \<Longrightarrow> validate_attribute_evidence_refs b (PyList (map PyStr refs)) = Inr refs"
  by (frule evidence_refs_eq) simp

lemma confidence_idem [validator_idem]:
  "normalize_confidence fl v = Inr q \<Longrightarrow> normalize_confidence fl (PyFloat (Finite q)) = Inr q"
  by (auto simp: normalize_confidence_def unit_float_def outcome_simps
      split: pyval.splits pyfloat.splits option.splits)

lemma belief_idem [validator_idem]: "normalize_belief v = Inr s \<Longrightarrow> normalize_belief (PyStr s) = Inr s"
  by (auto simp: normalize_belief_def outcome_simps split: pyval.splits)

lemma clock_idem [validator_idem]: "normalize_clock_id v = Inr s \<Longrightarrow> normalize_clock_id (PyStr s) = Inr s"
  by (auto simp: normalize_clock_id_def outcome_simps split: pyval.splits)

lemma source_idem [validator_idem]: "reject_null_source v = Inr s \<Longrightarrow> reject_null_source (PyStr s) = Inr s"
  by (auto simp: reject_null_source_def validator_idem split: if_splits)

lemma attribute_key_eq: "validate_attribute_key applicable allow k = Inr k' \<Longrightarrow> k' = k"
  by (simp add: validate_attribute_key_def outcome_simps)

lemma attribute_item_eq:
  "validate_attribute_item applicable allow (k, v) = Inr (k', s) \<Longrightarrow> k' = k \<and> v = PyStr s"
  by (cases v) (auto simp: validate_attribute_item_def outcome_simps dest: attribute_key_eq)

lemma attribute_items_eq:
  "list_all2 (\<lambda>x y. validate_attribute_item applicable allow x = Inr y) d ys \<Longrightarrow> d = str_dict ys"
  by (induction rule: list_all2_induct) (auto simp: str_dict_def dest: attribute_item_eq)

lemma observed_attributes_eq: "validate_observed_attributes fl et allow v = Inr ys \<Longrightarrow> v = PyDict (str_dict ys)"
  by (auto simp: validate_observed_attributes_def outcome_simps dest: attribute_items_eq split: pyval.splits)

lemma observed_attributes_idem [validator_idem]:
  "validate_observed_attributes fl et allow v = Inr ys
   \<Longrightarrow> validate_observed_attributes fl et allow (PyDict (str_dict ys)) = Inr ys"
  by (frule observed_attributes_eq) simp

lemma metadata_model_cong:
  assumes "map_of d = map_of d'"
  shows "metadata_model fl (PyDict d) = metadata_model fl (PyDict d')"
proof -
  have "fst ` set d = fst ` set d'"
    using assms by (metis dom_map_of_conv_image_fst)
  then show ?thesis
    by (simp add: metadata_model_def required_field_def optional_field_def assms)
qed

text \<open>The fields of metadata as the model library accepted them.\<close>

definition metadata_ok :: "float_ops \<Rightarrow> attribute_metadata \<Rightarrow> bool" where
  "metadata_ok fl m \<longleftrightarrow>
     validate_metadata_text (PyStr (am_observed_at m)) = Inr (am_observed_at m)
     \<and> normalize_confidence fl (PyFloat (Finite (am_confidence m))) = Inr (am_confidence m)
     \<and> validate_attribute_evidence_refs True (PyList (map PyStr (am_evidence_refs m))) = Inr (am_evidence_refs m)
     \<and> normalize_belief (PyStr (am_belief m)) = Inr (am_belief m)
     \<and> normalize_clock_id (PyStr (am_clock_id m)) = Inr (am_clock_id m)
     \<and> (\<forall>s. am_source m = Some s \<longrightarrow> reject_null_source (PyStr s) = Inr s)"

lemma monotonic_clock: "normalize_clock_id (PyStr ''monotonic'') = Inr ''monotonic''"
  by (simp add: normalize_clock_id_def require_def)

lemma metadata_model_ok: "metadata_model fl v = Inr m \<Longrightarrow> metadata_ok fl m"
  by (auto simp: metadata_model_def metadata_ok_def required_field_def optional_field_def outcome_simps
      monotonic_clock validator_idem split: pyval.splits option.splits)

lemma metadata_dump_model: "metadata_ok fl m \<Longrightarrow> metadata_model fl (PyDict (metadata_dump m)) = Inr m"
  by (cases "am_source m")
     (simp_all add: metadata_model_def metadata_ok_def metadata_dump_def required_field_def
        optional_field_def require_def metadata_fields_def)

lemma map_of_update_dump:
  assumes "src = PyNone \<or> am_source m \<noteq> None"
  shows "map_of (py_update (metadata_defaults a b c d src) (metadata_dump m)) = map_of (metadata_dump m)"
  using assms
  by (cases "am_source m")
     (auto simp: py_update_def metadata_defaults_def metadata_dump_def update_conv' fun_eq_iff)

lemma metadata_model_source:
  "metadata_model fl (PyDict d) = Inr m \<Longrightarrow> map_of d ''source'' = Some v \<Longrightarrow> am_source m \<noteq> None"
  by (auto simp: metadata_model_def optional_field_def outcome_simps)

text \<open>What one attribute gets: valid observed metadata, with a source if the observation has one.\<close>

lemma metadata_source_default:
  assumes "metadata_model fl (PyDict (py_update (metadata_defaults a b c d src) e)) = Inr m"
    and "src \<noteq> PyNone"
  shows "am_source m \<noteq> None"
proof -
  have keeps: "fst ` set d' \<subseteq> fst ` set (py_update d' e)" for d' :: "(string \<times> pyval) list"
    unfolding py_update_def
  proof (induction e arbitrary: d')
    case (Cons x e)
    have "fst ` set d' \<subseteq> fst ` set (AList.update (fst x) (snd x) d')"
      by (auto simp: dom_map_of_conv_image_fst [symmetric] update_conv')
    then show ?case
      using Cons.IH [of "AList.update (fst x) (snd x) d'"] by (simp add: case_prod_beta)
  qed simp
  have "''source'' \<in> fst ` set (metadata_defaults a b c d src)"
    using assms(2) by (simp add: metadata_defaults_def)
  then obtain v where "map_of (py_update (metadata_defaults a b c d src) e) ''source'' = Some v"
    using keeps by (metis domD dom_map_of_conv_image_fst subsetD)
  with assms(1) show ?thesis
    by (rule metadata_model_source)
qed

lemma rewrap_Inr [outcome_simps]: "rewrap e r = Inr a \<longleftrightarrow> r = Inr a"
  by (cases r) (auto simp: rewrap_def)

lemma materialize_item_Inr:
  assumes "materialize_item fl explicit (metadata_defaults a b c d src) k = Inr y"
  obtains m where "y = (k, metadata_dump m)" "metadata_ok fl m" "am_belief m = ''observed''"
    "src = PyNone \<or> am_source m \<noteq> None"
proof -
  obtain m where
    model: "metadata_model fl (PyDict (py_update (metadata_defaults a b c d src)
              (case map_of explicit k of None \<Rightarrow> [] | Some m \<Rightarrow> m))) = Inr m" and
    rest: "am_belief m = ''observed''" "y = (k, metadata_dump m)"
    using assms by (auto simp: materialize_item_def Let_def outcome_simps)
  show thesis
    using that [OF rest(2) metadata_model_ok [OF model] rest(1)] metadata_source_default [OF model] by blast
qed

lemma materialize_item_fst:
  "materialize_item fl explicit defaults k = Inr y \<Longrightarrow> fst y = k"
  by (auto simp: materialize_item_def Let_def outcome_simps)

lemma materialize_item_again:
  assumes "materialize_item fl explicit (metadata_defaults a b c d src) k = Inr y"
    and "map_of ms k = Some (snd y)"
  shows "materialize_item fl ms (metadata_defaults a b c d src) k = Inr y"
proof -
  obtain m where m: "y = (k, metadata_dump m)" "metadata_ok fl m" "am_belief m = ''observed''"
    "src = PyNone \<or> am_source m \<noteq> None"
    using assms(1) by (rule materialize_item_Inr)
  have "metadata_model fl (PyDict (py_update (metadata_defaults a b c d src) (metadata_dump m))) = Inr m"
    using m by (metis metadata_model_cong map_of_update_dump metadata_dump_model)
  then show ?thesis
    using assms(2) m by (simp add: materialize_item_def rewrap_def require_def)
qed

text \<open>Metadata that was filled in passes the map check with the same result.\<close>

lemma metadata_item_eq:
  assumes "validate_metadata_item fl keys applicable allow obs clock (k, PyDict (metadata_dump m)) = Inr y"
    and "metadata_ok fl m"
  shows "y = (k, metadata_dump m)"
  using assms by (auto simp: validate_metadata_item_def outcome_simps metadata_dump_model dest: attribute_key_eq)

lemma metadata_items_eq:
  assumes "list_all2 (\<lambda>x y. validate_metadata_item fl keys applicable allow obs clock x = Inr y)
             (metadata_dict ms) ys"
    and "\<forall>x\<in>set ms. \<exists>m. snd x = metadata_dump m \<and> metadata_ok fl m"
  shows "ys = ms"
  using assms
proof (induction ms arbitrary: ys)
  case (Cons x ms)
  then show ?case
    by (cases x) (auto simp: metadata_dict_def list_all2_Cons1 dest: metadata_item_eq)
qed (simp add: metadata_dict_def)

lemma metadata_map_eq:
  assumes "validate_attribute_metadata_map fl keys et allow obs cmpl clock (PyDict (metadata_dict ms)) = Inr ys"
    and "\<forall>x\<in>set ms. \<exists>m. snd x = metadata_dump m \<and> metadata_ok fl m"
  shows "ys = ms"
  using assms by (auto simp: validate_attribute_metadata_map_def outcome_simps dest: metadata_items_eq)

lemma metadata_map_weaken:
  "validate_attribute_metadata_map fl keys et allow obs True clock v = Inr ys
   \<Longrightarrow> validate_attribute_metadata_map fl keys et allow obs False clock v = Inr ys"
  by (auto simp: validate_attribute_metadata_map_def outcome_simps split: pyval.splits option.splits)

lemma materialized_items:
  assumes "list_all2 (\<lambda>k y. materialize_item fl explicit (metadata_defaults a b c d src) k = Inr y) ks ms"
  shows "map fst ms = ks" "\<forall>x\<in>set ms. \<exists>m. snd x = metadata_dump m \<and> metadata_ok fl m"
    "\<forall>x\<in>set ms. map_of ms (fst x) = Some (snd x)"
proof -
  have item: "materialize_item fl explicit (metadata_defaults a b c d src) (fst x) = Inr x" if "x \<in> set ms" for x
    using assms that by (induction rule: list_all2_induct) (auto dest: materialize_item_fst)
  show "map fst ms = ks"
    using assms by (induction rule: list_all2_induct) (auto dest: materialize_item_fst)
  show "\<forall>x\<in>set ms. \<exists>m. snd x = metadata_dump m \<and> metadata_ok fl m"
    using item by (fastforce elim: materialize_item_Inr)
  show "\<forall>x\<in>set ms. map_of ms (fst x) = Some (snd x)"
  proof
    fix x assume "x \<in> set ms"
    then obtain v where v: "map_of ms (fst x) = Some v"
      by (metis domIff dom_map_of_conv_image_fst image_eqI option.exhaust)
    then have "(fst x, v) \<in> set ms"
      by (rule map_of_SomeD)
    from item [OF this] item [OF \<open>x \<in> set ms\<close>] have "(fst x, v) = x"
      by simp
    then show "map_of ms (fst x) = Some (snd x)"
      using v by (metis snd_conv)
  qed
qed

lemma materialize_again:
  assumes "materialize_attribute_metadata fl attrs md (metadata_defaults a b c d src) clock et allow = Inr ms"
  shows "materialize_attribute_metadata fl attrs (PyDict (metadata_dict ms)) (metadata_defaults a b c d src)
           clock et allow = Inr ms"
proof -
  let ?defaults = "metadata_defaults a b c d src"
  obtain explicit ys zs where
    attrs: "validate_observed_attributes fl et allow (PyDict (str_dict attrs)) = Inr ys" and
    items: "list_all2 (\<lambda>k y. materialize_item fl explicit ?defaults k = Inr y) (map fst attrs) ms" and
    check: "validate_attribute_metadata_map fl (Some (map fst attrs)) et allow True True clock
              (PyDict (metadata_dict ms)) = Inr zs"
    using assms by (auto simp: materialize_attribute_metadata_def outcome_simps)
  note ms = materialized_items [OF items]
  have zs: "zs = ms"
    using check ms(2) by (rule metadata_map_eq)
  have "list_all2 (\<lambda>k y. materialize_item fl ms ?defaults k = Inr y) (map fst attrs) ms"
  proof (rule list.rel_mono_strong [OF items])
    fix k y
    assume "y \<in> set ms" and item: "materialize_item fl explicit ?defaults k = Inr y"
    then have "map_of ms k = Some (snd y)"
      using ms(3) materialize_item_fst by metis
    with item show "materialize_item fl ms ?defaults k = Inr y"
      by (rule materialize_item_again)
  qed
  then have "traverse (materialize_item fl ms ?defaults) (map fst attrs) = Inr ms"
    by (simp only: traverse_Inr)
  then show ?thesis
    using attrs check metadata_map_weaken [OF check] unfolding zs
    by (simp add: materialize_attribute_metadata_def)
qed

end
