(* ===== verification/EventPayloads.thy ===== *)
theory EventPayloads
  imports ObservedAttributes
begin

text \<open>
  Validation and normalization of the payloads of world events, after
  \<^verbatim>\<open>services/world_model/workbench_world_model/event_payloads.py\<close>: recovery events, action results and
  observations. A payload is a dictionary with string keys; enumeration members inside a payload are
  their string values, as they are in a stored event.
\<close>

datatype world_event_type =
    EV_OBSERVATION | EV_ACTION_REQUEST | EV_ACTION_RESULT | EV_VERIFICATION | EV_FAULT | EV_EMOTION
  | EV_TASK_ACCEPTED | EV_TASK_TERMINAL | EV_TASK_START | EV_TOOL_CALL | EV_POLICY_VIOLATION
  | EV_RECOVERY_STARTED | EV_RECOVERY_COMPLETE

record world_event =
  we_event_id :: string
  we_run_id :: string
  we_sequence_no :: int
  we_event_type :: world_event_type
  we_occurred_at :: string
  we_payload :: "(string \<times> pyval) list"
  we_recorded_at :: "string option"
  we_clock_id :: "clock_id option"
  we_evidence_refs :: "string list"

section \<open>Recovery payloads\<close>

definition RECOVERY_ACTIONS :: "string list" where
  "RECOVERY_ACTIONS = [''retry_observation'', ''retry_action'', ''ask_confirm'', ''safe_stop'', ''abort'']"

definition RECOVERY_RUNTIME_OWNED_ACTIONS :: "string list" where
  "RECOVERY_RUNTIME_OWNED_ACTIONS = [''safe_stop'']"

definition RECOVERY_TERMINAL_ACTIONS :: "string list" where
  "RECOVERY_TERMINAL_ACTIONS = [''safe_stop'', ''abort'']"

definition MAX_RECOVERY_ATTEMPTS :: int where "MAX_RECOVERY_ATTEMPTS = 10"
definition MAX_RECOVERY_TICKS :: int where "MAX_RECOVERY_TICKS = 100"
definition MAX_RECOVERY_ID_LENGTH :: nat where "MAX_RECOVERY_ID_LENGTH = 128"
definition MAX_RECOVERY_REASON_LENGTH :: nat where "MAX_RECOVERY_REASON_LENGTH = 512"
definition MAX_RECOVERY_EVIDENCE_REFS :: nat where "MAX_RECOVERY_EVIDENCE_REFS = 32"

definition RECOVERY_REQUIRED_FIELDS :: "string list" where
  "RECOVERY_REQUIRED_FIELDS =
     [''recovery_id'', ''task_id'', ''action'', ''state'', ''attempt'', ''max_attempts'', ''reason_code'', ''reason'']"

definition RECOVERY_OPTIONAL_FIELDS :: "string list" where
  "RECOVERY_OPTIONAL_FIELDS =
     [''ticks'', ''max_recovery_ticks'', ''policy_version'', ''runtime_owned'', ''outcome'', ''evidence_refs'']"

definition recovery_bounded_int :: "int \<Rightarrow> int \<Rightarrow> pyval \<Rightarrow> world_error + int" where
  "recovery_bounded_int lo hi v =
     (case v of PyInt i \<Rightarrow> require (lo \<le> i \<and> i \<le> hi) WPayloadError (Inr i) | _ \<Rightarrow> Inl WPayloadError)"

definition recovery_bounded_string :: "nat \<Rightarrow> pyval \<Rightarrow> world_error + string" where
  "recovery_bounded_string hi v =
     (case v of
        PyStr s \<Rightarrow> require (\<not> py_blank s \<and> length s \<le> hi) WPayloadError (Inr s)
      | _ \<Rightarrow> Inl WPayloadError)"

definition recovery_action_name :: "pyval \<Rightarrow> world_error + string" where
  "recovery_action_name v =
     require (py_hashable v) WTypeError
       (case v of
          PyStr s \<Rightarrow> require (s \<in> set RECOVERY_ACTIONS) WPayloadError (Inr s)
        | _ \<Rightarrow> Inl WPayloadError)"

text \<open>A field after its presence was checked, and one that may be missing.\<close>

abbreviation payload_field :: "(string \<times> pyval) list \<Rightarrow> string \<Rightarrow> pyval" where
  "payload_field d k \<equiv> py_get d k PyNone"

definition recovery_ticks :: "(string \<times> pyval) list \<Rightarrow> world_error + (string \<times> pyval) list" where
  "recovery_ticks d =
     (case map_of d ''ticks'' of
        Some v \<Rightarrow>
          and_try (recovery_bounded_int 0 MAX_RECOVERY_TICKS v) (\<lambda>ticks.
            (case map_of d ''max_recovery_ticks'' of
               Some w \<Rightarrow>
                 and_try (recovery_bounded_int 1 MAX_RECOVERY_TICKS w) (\<lambda>max_ticks.
                   require (ticks \<le> max_ticks) WPayloadError
                     (Inr [(''ticks'', PyInt ticks), (''max_recovery_ticks'', PyInt max_ticks)]))
             | None \<Rightarrow> Inr [(''ticks'', PyInt ticks)]))
      | None \<Rightarrow>
          (case map_of d ''max_recovery_ticks'' of
             Some w \<Rightarrow>
               and_try (recovery_bounded_int 1 MAX_RECOVERY_TICKS w) (\<lambda>max_ticks.
                 Inr [(''max_recovery_ticks'', PyInt max_ticks)])
           | None \<Rightarrow> Inr []))"

definition recovery_policy_version :: "(string \<times> pyval) list \<Rightarrow> world_error + (string \<times> pyval) list" where
  "recovery_policy_version d =
     (case map_of d ''policy_version'' of
        Some v \<Rightarrow>
          and_try (recovery_bounded_string MAX_RECOVERY_ID_LENGTH v) (\<lambda>s. Inr [(''policy_version'', PyStr s)])
      | None \<Rightarrow> Inr [])"

definition recovery_runtime_owned :: "(string \<times> pyval) list \<Rightarrow> string \<Rightarrow> world_error + (string \<times> pyval) list" where
  "recovery_runtime_owned d action =
     (let runtime_owned = action \<in> set RECOVERY_RUNTIME_OWNED_ACTIONS in
      require
        (case map_of d ''runtime_owned'' of None \<Rightarrow> True | Some v \<Rightarrow> v = PyBool runtime_owned)
        WPayloadError (Inr [(''runtime_owned'', PyBool runtime_owned)]))"

definition recovery_outcome ::
    "(string \<times> pyval) list \<Rightarrow> world_event_type \<Rightarrow> string \<Rightarrow> world_error + (string \<times> pyval) list" where
  "recovery_outcome d event_type action =
     (let terminal = action \<in> set RECOVERY_TERMINAL_ACTIONS;
          expected_outcome = (if action = ''safe_stop'' then ''stopped'' else ''aborted'') in
      if event_type = EV_RECOVERY_COMPLETE then
        require terminal WPayloadError
          (require (py_get d ''outcome'' (PyStr expected_outcome) = PyStr expected_outcome) WPayloadError
            (Inr [(''outcome'', PyStr expected_outcome)]))
      else require (\<not> terminal) WPayloadError (Inr []))"

definition recovery_evidence_refs :: "(string \<times> pyval) list \<Rightarrow> world_error + (string \<times> pyval) list" where
  "recovery_evidence_refs d =
     (case payload_field d ''evidence_refs'' of
        PyNone \<Rightarrow> Inr []
      | PyList refs \<Rightarrow>
          require (length refs \<le> MAX_RECOVERY_EVIDENCE_REFS) WPayloadError
            (and_try (traverse (recovery_bounded_string MAX_RECOVERY_ID_LENGTH) refs) (\<lambda>_.
               Inr [(''evidence_refs'', PyList refs)]))
      | _ \<Rightarrow> Inl WPayloadError)"

definition normalize_recovery_payload ::
    "(string \<times> pyval) list \<Rightarrow> world_event_type \<Rightarrow> world_error + (string \<times> pyval) list" where
  "normalize_recovery_payload d event_type =
     require (event_type = EV_RECOVERY_STARTED \<or> event_type = EV_RECOVERY_COMPLETE) WPayloadError
     (require (set RECOVERY_REQUIRED_FIELDS \<subseteq> fst ` set d) WPayloadError
     (require (fst ` set d \<subseteq> set RECOVERY_REQUIRED_FIELDS \<union> set RECOVERY_OPTIONAL_FIELDS) WPayloadError
     (and_try (recovery_bounded_string MAX_RECOVERY_ID_LENGTH (payload_field d ''recovery_id'')) (\<lambda>recovery_id.
      and_try (recovery_bounded_string MAX_RECOVERY_ID_LENGTH (payload_field d ''task_id'')) (\<lambda>task_id.
      and_try (recovery_bounded_string MAX_RECOVERY_ID_LENGTH (payload_field d ''reason_code'')) (\<lambda>reason_code.
      and_try (recovery_bounded_string MAX_RECOVERY_REASON_LENGTH (payload_field d ''reason'')) (\<lambda>reason.
      and_try (recovery_action_name (payload_field d ''action'')) (\<lambda>action.
      and_try (recovery_bounded_string MAX_RECOVERY_ID_LENGTH (payload_field d ''state'')) (\<lambda>state.
      and_try (recovery_bounded_int 0 MAX_RECOVERY_ATTEMPTS (payload_field d ''attempt'')) (\<lambda>attempt.
      and_try (recovery_bounded_int 1 MAX_RECOVERY_ATTEMPTS (payload_field d ''max_attempts'')) (\<lambda>max_attempts.
      require (attempt \<le> max_attempts) WPayloadError
     (and_try (recovery_ticks d) (\<lambda>ticks.
      and_try (recovery_policy_version d) (\<lambda>version.
      and_try (recovery_runtime_owned d action) (\<lambda>owned.
      and_try (recovery_outcome d event_type action) (\<lambda>outcome.
      and_try (recovery_evidence_refs d) (\<lambda>refs.
      Inr ([(''recovery_id'', PyStr recovery_id), (''task_id'', PyStr task_id), (''action'', PyStr action),
            (''state'', PyStr state), (''attempt'', PyInt attempt), (''max_attempts'', PyInt max_attempts),
            (''reason_code'', PyStr reason_code), (''reason'', PyStr reason)]
           @ ticks @ version @ owned @ outcome @ refs))))))))))))))))))"

section \<open>Action result payloads\<close>

definition outcome_value :: "action_outcome \<Rightarrow> string" where
  "outcome_value r =
     (case r of
        OUTCOME_COMPLETED \<Rightarrow> ''completed''
      | OUTCOME_FAILED \<Rightarrow> ''failed''
      | OUTCOME_CANCELED \<Rightarrow> ''canceled''
      | OUTCOME_SAFE_STOP \<Rightarrow> ''safe_stop''
      | OUTCOME_TIMEOUT \<Rightarrow> ''timeout'')"

definition dispatch_state_value :: "dispatch_state \<Rightarrow> string" where
  "dispatch_state_value r =
     (case r of NOT_SENT \<Rightarrow> ''not_sent'' | SENT \<Rightarrow> ''sent'' | SEND_FAILED \<Rightarrow> ''send_failed'')"

definition device_state_value :: "device_state \<Rightarrow> string" where
  "device_state_value r =
     (case r of
        UNCONFIRMED \<Rightarrow> ''unconfirmed''
      | CONFIRMED \<Rightarrow> ''confirmed''
      | REJECTED \<Rightarrow> ''rejected''
      | DEVICE_STOPPED \<Rightarrow> ''stopped'')"

text \<open>A member of an enumeration from its value; the members are those of the list.\<close>

definition enum_of_value :: "('a \<Rightarrow> string) \<Rightarrow> 'a list \<Rightarrow> pyval \<Rightarrow> world_error + 'a" where
  "enum_of_value val members v =
     (case v of
        PyStr s \<Rightarrow>
          (case find (\<lambda>x. val x = s) members of None \<Rightarrow> Inl WPayloadError | Some x \<Rightarrow> Inr x)
      | _ \<Rightarrow> Inl WPayloadError)"

definition strict_non_blank_string :: "pyval \<Rightarrow> world_error + string" where
  "strict_non_blank_string v =
     (case v of PyStr s \<Rightarrow> require (\<not> py_blank s) WPayloadError (Inr s) | _ \<Rightarrow> Inl WPayloadError)"

definition payload_strings :: "pyval \<Rightarrow> world_error + string list" where
  "payload_strings v =
     (case v of
        PyList vs \<Rightarrow> traverse (\<lambda>r. case r of PyStr s \<Rightarrow> Inr s | _ \<Rightarrow> Inl WPayloadError) vs
      | _ \<Rightarrow> Inl WPayloadError)"

definition nullable :: "(pyval \<Rightarrow> world_error + 'a) \<Rightarrow> pyval \<Rightarrow> world_error + 'a option" where
  "nullable f v = (if v = PyNone then Inr None else and_try (f v) (Inr \<circ> Some))"

definition action_result_fields :: "string list" where
  "action_result_fields =
     [''result_id'', ''action_id'', ''run_id'', ''outcome'', ''dispatch_state'', ''device_state'',
      ''error_code'', ''error_reason'', ''started_at'', ''ended_at'', ''clock_id'', ''retry_count'',
      ''entity_id'', ''resulting_location'', ''evidence_refs'']"

definition validate_spatial_claim :: "action_result \<Rightarrow> bool" where
  "validate_spatial_claim r \<longleftrightarrow>
     (if ar_outcome r = OUTCOME_COMPLETED
      then (ar_entity_id r \<noteq> None) = (ar_resulting_location r \<noteq> None)
      else ar_resulting_location r = None)"

text \<open>
  \<^verbatim>\<open>TypedActionResult.model_validate\<close> followed by \<^verbatim>\<open>ActionResult.model_validate\<close>: the checks of both,
  each of which fails as a \<^verbatim>\<open>WorldEventPayloadValidationError\<close>.
\<close>

definition action_result_model :: "(string \<times> pyval) list \<Rightarrow> world_error + action_result" where
  "action_result_model d =
     require (fst ` set d \<subseteq> set action_result_fields) WPayloadError
     (and_try (strict_non_blank_string (payload_field d ''result_id'')) (\<lambda>result_id.
      and_try (strict_non_blank_string (payload_field d ''action_id'')) (\<lambda>action_id.
      and_try (strict_non_blank_string (payload_field d ''run_id'')) (\<lambda>run_id.
      and_try (strict_non_blank_string (payload_field d ''started_at'')) (\<lambda>started_at.
      and_try (strict_non_blank_string (payload_field d ''ended_at'')) (\<lambda>ended_at.
      and_try (enum_of_value outcome_value
                 [OUTCOME_COMPLETED, OUTCOME_FAILED, OUTCOME_CANCELED, OUTCOME_SAFE_STOP, OUTCOME_TIMEOUT]
                 (payload_field d ''outcome'')) (\<lambda>outcome.
      and_try (enum_of_value dispatch_state_value [NOT_SENT, SENT, SEND_FAILED]
                 (payload_field d ''dispatch_state'')) (\<lambda>dispatch_state.
      and_try (enum_of_value device_state_value [UNCONFIRMED, CONFIRMED, REJECTED, DEVICE_STOPPED]
                 (payload_field d ''device_state'')) (\<lambda>device_state.
      and_try (enum_of_value clock_value [MONOTONIC, WALL] (py_get d ''clock_id'' (PyStr ''monotonic''))) (\<lambda>clock.
      and_try (nullable (\<lambda>v. case v of PyInt i \<Rightarrow> Inr i | _ \<Rightarrow> Inl WPayloadError)
                 (payload_field d ''error_code'')) (\<lambda>error_code.
      and_try (nullable (\<lambda>v. case v of PyStr s \<Rightarrow> Inr s | _ \<Rightarrow> Inl WPayloadError)
                 (payload_field d ''error_reason'')) (\<lambda>error_reason.
      and_try (case py_get d ''retry_count'' (PyInt 0) of
                 PyInt i \<Rightarrow> require (0 \<le> i) WPayloadError (Inr i)
               | _ \<Rightarrow> Inl WPayloadError) (\<lambda>retry_count.
      and_try (nullable strict_non_blank_string (payload_field d ''entity_id'')) (\<lambda>entity_id.
      and_try (nullable strict_non_blank_string (payload_field d ''resulting_location'')) (\<lambda>location.
      and_try (payload_strings (py_get d ''evidence_refs'' (PyList []))) (\<lambda>refs.
      let r = \<lparr>ar_result_id = result_id, ar_action_id = action_id, ar_run_id = run_id, ar_outcome = outcome,
               ar_dispatch_state = dispatch_state, ar_device_state = device_state, ar_error_code = error_code,
               ar_error_reason = error_reason, ar_started_at = started_at, ar_ended_at = ended_at,
               ar_clock_id = clock, ar_retry_count = retry_count, ar_entity_id = entity_id,
               ar_resulting_location = location, ar_evidence_refs = refs\<rparr> in
      require (validate_completion_state r \<and> validate_spatial_claim r) WPayloadError (Inr r)))))))))))))))))"

definition opt_str :: "string option \<Rightarrow> pyval" where
  "opt_str s = (case s of None \<Rightarrow> PyNone | Some t \<Rightarrow> PyStr t)"

text \<open>\<^verbatim>\<open>ActionResult.model_dump(mode="json")\<close>\<close>

definition action_result_dump :: "action_result \<Rightarrow> (string \<times> pyval) list" where
  "action_result_dump r =
     [(''result_id'', PyStr (ar_result_id r)), (''action_id'', PyStr (ar_action_id r)),
      (''run_id'', PyStr (ar_run_id r)), (''outcome'', PyStr (outcome_value (ar_outcome r))),
      (''dispatch_state'', PyStr (dispatch_state_value (ar_dispatch_state r))),
      (''device_state'', PyStr (device_state_value (ar_device_state r))),
      (''error_code'', (case ar_error_code r of None \<Rightarrow> PyNone | Some i \<Rightarrow> PyInt i)),
      (''error_reason'', opt_str (ar_error_reason r)),
      (''started_at'', PyStr (ar_started_at r)), (''ended_at'', PyStr (ar_ended_at r)),
      (''clock_id'', PyStr (clock_value (ar_clock_id r))), (''retry_count'', PyInt (ar_retry_count r)),
      (''entity_id'', opt_str (ar_entity_id r)),
      (''resulting_location'', opt_str (ar_resulting_location r)),
      (''evidence_refs'', PyList (map PyStr (ar_evidence_refs r)))]"

definition normalize_action_result_payload ::
    "(string \<times> pyval) list \<Rightarrow> string \<Rightarrow> string list option \<Rightarrow> string option \<Rightarrow> world_error + action_result" where
  "normalize_action_result_payload d event_run_id event_evidence_refs expected_action_id =
     and_try (action_result_model d) (\<lambda>result.
     require (ar_run_id result = event_run_id) WPayloadError
     (require (case expected_action_id of None \<Rightarrow> True | Some a \<Rightarrow> ar_action_id result = a) WPayloadError
     (require (case event_evidence_refs of None \<Rightarrow> True | Some refs \<Rightarrow> ar_evidence_refs result = refs) WPayloadError
     (Inr result))))"

section \<open>Observation payloads\<close>

definition attribute_fields :: "string list" where
  "attribute_fields = [''attributes_mode'', ''attributes_schema_version'', ''attribute_metadata'']"

text \<open>
  The fields every observation has. A field that is present is checked and keeps its value; only the
  confidence changes, to a double.
\<close>

definition observation_text_fields :: "(string \<times> pyval) list \<Rightarrow> world_error + unit" where
  "observation_text_fields d =
     for_each
       (\<lambda>field. case map_of d field of
          None \<Rightarrow> Inr ()
        | Some v \<Rightarrow> and_try (strict_non_blank_string v) (\<lambda>_. Inr ()))
       [''entity_type'', ''observed_at'', ''source'']"

definition observation_base :: "float_ops \<Rightarrow> (string \<times> pyval) list \<Rightarrow> world_error + (string \<times> pyval) list" where
  "observation_base fl d =
     require (''entity_id'' \<in> fst ` set d) WPayloadError
     (and_try (strict_non_blank_string (payload_field d ''entity_id'')) (\<lambda>_.
      and_try (observation_text_fields d) (\<lambda>_.
      require (map_of d ''clock_id'' \<noteq> Some PyNone) WPayloadError
     (and_try
        (case map_of d ''location'' of
           None \<Rightarrow> Inr ()
         | Some v \<Rightarrow> and_try (strict_non_blank_string v) (\<lambda>_. Inr ())) (\<lambda>_.
      require (''confidence'' \<in> fst ` set d) WPayloadError
     (and_try (rewrap WPayloadError (normalize_confidence fl (payload_field d ''confidence''))) (\<lambda>q.
      Inr (AList.update ''confidence'' (PyFloat (Finite q)) d))))))))"

definition looks_like_legacy_attribute_payload :: "(string \<times> pyval) list \<Rightarrow> bool" where
  "looks_like_legacy_attribute_payload d \<longleftrightarrow>
     fst ` set d \<inter> {''entity_type'', ''observed_at'', ''clock_id'', ''source''} = {}"

definition normalize_attribute_schema_version :: "pyval \<Rightarrow> world_error + string" where
  "normalize_attribute_schema_version v =
     (case v of
        PyStr s \<Rightarrow>
          require (s = ATTRIBUTE_SCHEMA_VERSION \<or> s = LEGACY_ATTRIBUTE_MIGRATION_VERSION) WPayloadError (Inr s)
      | _ \<Rightarrow> Inl WPayloadError)"

definition attribute_version :: "(string \<times> pyval) list \<Rightarrow> world_error + string" where
  "attribute_version d =
     (case map_of d ''attributes_schema_version'' of
        None \<Rightarrow>
          require (looks_like_legacy_attribute_payload d) WPayloadError (Inr LEGACY_ATTRIBUTE_MIGRATION_VERSION)
      | Some v \<Rightarrow> normalize_attribute_schema_version v)"

definition normalize_attributes_mode :: "pyval \<Rightarrow> world_error + string" where
  "normalize_attributes_mode v =
     (case v of
        PyStr s \<Rightarrow> require (s = ''complete'' \<or> s = ''partial'') WPayloadError (Inr s)
      | _ \<Rightarrow> Inl WPayloadError)"

definition attributes_mode :: "(string \<times> pyval) list \<Rightarrow> world_error + string" where
  "attributes_mode d =
     (case map_of d ''attributes_mode'' of None \<Rightarrow> Inr ''complete'' | Some v \<Rightarrow> normalize_attributes_mode v)"

definition attribute_clock :: "(string \<times> pyval) list \<Rightarrow> clock_id option \<Rightarrow> world_error + string" where
  "attribute_clock d event_clock =
     and_try
       (case map_of d ''clock_id'' of
          None \<Rightarrow> Inr (clock_value (case event_clock of None \<Rightarrow> MONOTONIC | Some c \<Rightarrow> c))
        | Some v \<Rightarrow> rewrap WPayloadError (normalize_clock_id v))
       (\<lambda>clock.
          require (case event_clock of None \<Rightarrow> True | Some c \<Rightarrow> clock = clock_value c) WPayloadError (Inr clock))"

definition payload_entity_type :: "(string \<times> pyval) list \<Rightarrow> string option" where
  "payload_entity_type d = (case map_of d ''entity_type'' of Some (PyStr t) \<Rightarrow> Some t | _ \<Rightarrow> None)"

text \<open>The fields modern attributes cannot do without.\<close>

definition modern_requirements :: "(string \<times> pyval) list \<Rightarrow> string \<Rightarrow> string list \<Rightarrow> bool" where
  "modern_requirements d version refs \<longleftrightarrow>
     version = LEGACY_ATTRIBUTE_MIGRATION_VERSION
     \<or> {''entity_type'', ''observed_at'', ''source''} \<subseteq> fst ` set d \<and> refs \<noteq> []"

definition observation_attributes ::
    "float_ops \<Rightarrow> world_event \<Rightarrow> (string \<times> pyval) list \<Rightarrow> world_error + (string \<times> pyval) list" where
  "observation_attributes fl event d =
     and_try (attribute_version d) (\<lambda>version.
     and_try (attributes_mode d) (\<lambda>mode.
     let entity_type = payload_entity_type d;
         allow_legacy = version = LEGACY_ATTRIBUTE_MIGRATION_VERSION \<and> legacy_attribute_keys_allowed entity_type in
     and_try (rewrap WPayloadError
                (validate_observed_attributes fl entity_type allow_legacy (payload_field d ''attributes''))) (\<lambda>attributes.
     and_try (rewrap WPayloadError
                (validate_attribute_evidence_refs False (PyList (map PyStr (we_evidence_refs event))))) (\<lambda>refs.
     and_try (attribute_clock d (we_clock_id event)) (\<lambda>clock.
     require (modern_requirements d version refs) WPayloadError
    (let observed_at = py_get d ''observed_at'' (PyStr (we_occurred_at event));
         source = payload_field d ''source'' in
     require (map_of d ''attribute_metadata'' \<noteq> Some PyNone) WPayloadError
    (and_try (rewrap WPayloadError
                (materialize_attribute_metadata fl attributes (payload_field d ''attribute_metadata'')
                   (metadata_defaults observed_at (payload_field d ''confidence'') (PyList (map PyStr refs))
                      (PyStr clock) source)
                   (PyStr clock) entity_type allow_legacy)) (\<lambda>metadata.
     Inr (AList.update ''attribute_metadata'' (PyDict (metadata_dict metadata))
           (AList.update ''observed_at'' observed_at
             (AList.update ''clock_id'' (PyStr clock)
               (AList.update ''attributes_mode'' (PyStr mode)
                 (AList.update ''attributes_schema_version'' (PyStr version) d)))))))))))))"

definition normalize_observation_payload ::
    "float_ops \<Rightarrow> world_event \<Rightarrow> world_error + (string \<times> pyval) list" where
  "normalize_observation_payload fl event =
     and_try (observation_base fl (we_payload event)) (\<lambda>d.
     if ''attributes'' \<in> fst ` set d then observation_attributes fl event d
     else require (set attribute_fields \<inter> fst ` set d = {}) WPayloadError (Inr d))"

section \<open>Events\<close>

definition normalized_payload ::
    "float_ops \<Rightarrow> string option \<Rightarrow> world_event \<Rightarrow> world_error + (string \<times> pyval) list" where
  "normalized_payload fl expected_action_id event =
     (if we_event_type event = EV_OBSERVATION then normalize_observation_payload fl event
      else if we_event_type event = EV_ACTION_RESULT then
        and_try
          (normalize_action_result_payload (we_payload event) (we_run_id event)
             (Some (we_evidence_refs event)) expected_action_id)
          (\<lambda>r. Inr (action_result_dump r))
      else if we_event_type event = EV_RECOVERY_STARTED \<or> we_event_type event = EV_RECOVERY_COMPLETE then
        normalize_recovery_payload (we_payload event) (we_event_type event)
      else Inr (we_payload event))"

definition normalize_world_event ::
    "float_ops \<Rightarrow> string option \<Rightarrow> world_event \<Rightarrow> world_error + world_event" where
  "normalize_world_event fl expected_action_id event =
     and_try (normalized_payload fl expected_action_id event) (\<lambda>payload. Inr (event\<lparr>we_payload := payload\<rparr>))"

section \<open>Normalization is idempotent\<close>

subsection \<open>Recovery payloads\<close>

lemma bounded_string_eq: "recovery_bounded_string n v = Inr s \<Longrightarrow> v = PyStr s"
  by (auto simp: recovery_bounded_string_def outcome_simps split: pyval.splits)

lemma bounded_int_eq: "recovery_bounded_int lo hi v = Inr i \<Longrightarrow> v = PyInt i"
  by (auto simp: recovery_bounded_int_def outcome_simps split: pyval.splits)

lemma action_name_eq: "recovery_action_name v = Inr s \<Longrightarrow> v = PyStr s"
  by (auto simp: recovery_action_name_def outcome_simps split: pyval.splits)

lemma recovery_field_idem [validator_idem]:
  "recovery_bounded_string n v = Inr s \<Longrightarrow> recovery_bounded_string n (PyStr s) = Inr s"
  "recovery_bounded_int lo hi v = Inr i \<Longrightarrow> recovery_bounded_int lo hi (PyInt i) = Inr i"
  "recovery_action_name v = Inr s \<Longrightarrow> recovery_action_name (PyStr s) = Inr s"
  using bounded_string_eq bounded_int_eq action_name_eq by auto

lemma recovery_ticks_again:
  assumes "recovery_ticks d = Inr fr" "map_of n ''ticks'' = map_of fr ''ticks''"
    "map_of n ''max_recovery_ticks'' = map_of fr ''max_recovery_ticks''"
  shows "recovery_ticks n = Inr fr"
  using assms
  by (auto simp: recovery_ticks_def outcome_simps validator_idem split: option.splits)

lemma recovery_policy_version_again:
  assumes "recovery_policy_version d = Inr fr" "map_of n ''policy_version'' = map_of fr ''policy_version''"
  shows "recovery_policy_version n = Inr fr"
  using assms
  by (auto simp: recovery_policy_version_def outcome_simps validator_idem split: option.splits)

lemma recovery_runtime_owned_again:
  assumes "recovery_runtime_owned d action = Inr fr" "map_of n ''runtime_owned'' = map_of fr ''runtime_owned''"
  shows "recovery_runtime_owned n action = Inr fr"
  using assms by (auto simp: recovery_runtime_owned_def Let_def outcome_simps)

lemma recovery_outcome_again:
  assumes "recovery_outcome d t action = Inr fr" "map_of n ''outcome'' = map_of fr ''outcome''"
  shows "recovery_outcome n t action = Inr fr"
  using assms by (auto simp: recovery_outcome_def Let_def outcome_simps py_get_def split: if_splits)

lemma recovery_evidence_refs_again:
  assumes "recovery_evidence_refs d = Inr fr" "map_of n ''evidence_refs'' = map_of fr ''evidence_refs''"
  shows "recovery_evidence_refs n = Inr fr"
  using assms
  by (cases "payload_field d ''evidence_refs''")
     (auto simp: recovery_evidence_refs_def outcome_simps py_get_def)

text \<open>The keys of each part, so that a lookup in the normalized payload finds the right part.\<close>

lemma recovery_part_keys:
  "recovery_ticks d = Inr fr \<Longrightarrow> fst ` set fr \<subseteq> {''ticks'', ''max_recovery_ticks''}"
  "recovery_policy_version d = Inr fr \<Longrightarrow> fst ` set fr \<subseteq> {''policy_version''}"
  "recovery_runtime_owned d action = Inr fr \<Longrightarrow> fst ` set fr \<subseteq> {''runtime_owned''}"
  "recovery_outcome d t action = Inr fr \<Longrightarrow> fst ` set fr \<subseteq> {''outcome''}"
  "recovery_evidence_refs d = Inr fr \<Longrightarrow> fst ` set fr \<subseteq> {''evidence_refs''}"
  by (auto simp: recovery_ticks_def recovery_policy_version_def recovery_runtime_owned_def
      recovery_outcome_def recovery_evidence_refs_def outcome_simps Let_def
      split: option.splits if_splits pyval.splits)

lemma map_of_part: "fst ` set fr \<subseteq> K \<Longrightarrow> k \<notin> K \<Longrightarrow> map_of fr k = None"
  by (metis map_of_eq_None_iff subsetD)

lemma normalize_recovery_again:
  assumes "normalize_recovery_payload d t = Inr n"
  shows "normalize_recovery_payload n t = Inr n"
proof -
  obtain recovery_id task_id reason_code reason action state attempt max_attempts ticks version owned outcome refs
    where t: "t = EV_RECOVERY_STARTED \<or> t = EV_RECOVERY_COMPLETE" and
    fields: "recovery_bounded_string MAX_RECOVERY_ID_LENGTH (PyStr recovery_id) = Inr recovery_id"
      "recovery_bounded_string MAX_RECOVERY_ID_LENGTH (PyStr task_id) = Inr task_id"
      "recovery_bounded_string MAX_RECOVERY_ID_LENGTH (PyStr reason_code) = Inr reason_code"
      "recovery_bounded_string MAX_RECOVERY_REASON_LENGTH (PyStr reason) = Inr reason"
      "recovery_action_name (PyStr action) = Inr action"
      "recovery_bounded_string MAX_RECOVERY_ID_LENGTH (PyStr state) = Inr state"
      "recovery_bounded_int 0 MAX_RECOVERY_ATTEMPTS (PyInt attempt) = Inr attempt"
      "recovery_bounded_int 1 MAX_RECOVERY_ATTEMPTS (PyInt max_attempts) = Inr max_attempts"
      "attempt \<le> max_attempts" and
    parts: "recovery_ticks d = Inr ticks" "recovery_policy_version d = Inr version"
      "recovery_runtime_owned d action = Inr owned" "recovery_outcome d t action = Inr outcome"
      "recovery_evidence_refs d = Inr refs" and
    n: "n = [(''recovery_id'', PyStr recovery_id), (''task_id'', PyStr task_id), (''action'', PyStr action),
             (''state'', PyStr state), (''attempt'', PyInt attempt), (''max_attempts'', PyInt max_attempts),
             (''reason_code'', PyStr reason_code), (''reason'', PyStr reason)]
            @ ticks @ version @ owned @ outcome @ refs"
    using assms unfolding normalize_recovery_payload_def and_try_Inr require_Inr
    by (elim exE conjE) (blast intro: validator_idem)
  note keys = recovery_part_keys(1) [OF parts(1)] recovery_part_keys(2) [OF parts(2)]
    recovery_part_keys(3) [OF parts(3)] recovery_part_keys(4) [OF parts(4)] recovery_part_keys(5) [OF parts(5)]
  note absent = keys [THEN map_of_part]
  have optional: "map_of n ''ticks'' = map_of ticks ''ticks''"
    "map_of n ''max_recovery_ticks'' = map_of ticks ''max_recovery_ticks''"
    "map_of n ''policy_version'' = map_of version ''policy_version''"
    "map_of n ''runtime_owned'' = map_of owned ''runtime_owned''"
    "map_of n ''outcome'' = map_of outcome ''outcome''"
    "map_of n ''evidence_refs'' = map_of refs ''evidence_refs''"
    by (simp_all add: n map_add_def absent split: option.split)
  note again = recovery_ticks_again [OF parts(1) optional(1,2)] recovery_policy_version_again [OF parts(2) optional(3)]
    recovery_runtime_owned_again [OF parts(3) optional(4)] recovery_outcome_again [OF parts(4) optional(5)]
    recovery_evidence_refs_again [OF parts(5) optional(6)]
  have required: "payload_field n ''recovery_id'' = PyStr recovery_id" "payload_field n ''task_id'' = PyStr task_id"
    "payload_field n ''action'' = PyStr action" "payload_field n ''state'' = PyStr state"
    "payload_field n ''attempt'' = PyInt attempt" "payload_field n ''max_attempts'' = PyInt max_attempts"
    "payload_field n ''reason_code'' = PyStr reason_code" "payload_field n ''reason'' = PyStr reason"
    by (simp_all add: n py_get_def)
  have "set RECOVERY_REQUIRED_FIELDS \<subseteq> fst ` set n"
    by (simp add: RECOVERY_REQUIRED_FIELDS_def n)
  moreover have "fst ` set n \<subseteq> set RECOVERY_REQUIRED_FIELDS \<union> set RECOVERY_OPTIONAL_FIELDS"
    using keys by (auto simp: RECOVERY_REQUIRED_FIELDS_def RECOVERY_OPTIONAL_FIELDS_def n)
  ultimately show ?thesis
    by (simp add: normalize_recovery_payload_def require_def required fields again t) (simp add: n)
qed

subsection \<open>Action results\<close>

lemma non_blank_eq: "strict_non_blank_string v = Inr s \<Longrightarrow> v = PyStr s"
  by (auto simp: strict_non_blank_string_def outcome_simps split: pyval.splits)

lemma non_blank_idem [validator_idem]:
  "strict_non_blank_string v = Inr s \<Longrightarrow> strict_non_blank_string (PyStr s) = Inr s"
  by (frule non_blank_eq) simp

lemma nullable_text_idem [validator_idem]:
  "nullable strict_non_blank_string v = Inr s \<Longrightarrow> nullable strict_non_blank_string (opt_str s) = Inr s"
  by (auto simp: nullable_def opt_str_def outcome_simps validator_idem split: if_splits option.splits)

lemma payload_strings_idem [validator_idem]:
  "payload_strings v = Inr ss \<Longrightarrow> payload_strings (PyList (map PyStr ss)) = Inr ss"
  by (auto simp: payload_strings_def outcome_simps list_all2_conv_all_nth split: pyval.splits)

lemma enum_of_member:
  "enum_of_value outcome_value
     [OUTCOME_COMPLETED, OUTCOME_FAILED, OUTCOME_CANCELED, OUTCOME_SAFE_STOP, OUTCOME_TIMEOUT]
     (PyStr (outcome_value x)) = Inr x"
  "enum_of_value dispatch_state_value [NOT_SENT, SENT, SEND_FAILED] (PyStr (dispatch_state_value y)) = Inr y"
  "enum_of_value device_state_value [UNCONFIRMED, CONFIRMED, REJECTED, DEVICE_STOPPED]
     (PyStr (device_state_value z)) = Inr z"
  "enum_of_value clock_value [MONOTONIC, WALL] (PyStr (clock_value c)) = Inr c"
  subgoal by (cases x) (simp_all add: enum_of_value_def outcome_value_def)
  subgoal by (cases y) (simp_all add: enum_of_value_def dispatch_state_value_def)
  subgoal by (cases z) (simp_all add: enum_of_value_def device_state_value_def)
  subgoal by (cases c) (simp_all add: enum_of_value_def clock_value_def)
  done

lemma plain_fields:
  "nullable (\<lambda>v. case v of PyInt i \<Rightarrow> Inr i | _ \<Rightarrow> Inl WPayloadError)
     (case a of None \<Rightarrow> PyNone | Some i \<Rightarrow> PyInt i) = Inr a"
  "nullable (\<lambda>v. case v of PyStr s \<Rightarrow> Inr s | _ \<Rightarrow> Inl WPayloadError) (opt_str b) = Inr b"
  "payload_strings (PyList (map PyStr ss)) = Inr ss"
  by (simp_all add: nullable_def opt_str_def payload_strings_def traverse_Inr list_all2_conv_all_nth
      split: option.split)

lemma action_result_again:
  assumes "action_result_model d = Inr r"
  shows "action_result_model (action_result_dump r) = Inr r"
proof -
  have r: "strict_non_blank_string (PyStr (ar_result_id r)) = Inr (ar_result_id r)"
    "strict_non_blank_string (PyStr (ar_action_id r)) = Inr (ar_action_id r)"
    "strict_non_blank_string (PyStr (ar_run_id r)) = Inr (ar_run_id r)"
    "strict_non_blank_string (PyStr (ar_started_at r)) = Inr (ar_started_at r)"
    "strict_non_blank_string (PyStr (ar_ended_at r)) = Inr (ar_ended_at r)"
    "nullable strict_non_blank_string (opt_str (ar_entity_id r)) = Inr (ar_entity_id r)"
    "nullable strict_non_blank_string (opt_str (ar_resulting_location r)) = Inr (ar_resulting_location r)"
    "0 \<le> ar_retry_count r" "validate_completion_state r" "validate_spatial_claim r"
    using assms
    by (auto simp: action_result_model_def outcome_simps Let_def validator_idem split: pyval.splits)
  show ?thesis
    using r
    by (cases r) (simp add: action_result_model_def action_result_dump_def py_get_def enum_of_member plain_fields require_def
        action_result_fields_def Let_def)
qed

subsection \<open>Observations\<close>

lemma version_idem [validator_idem]:
  "normalize_attribute_schema_version v = Inr s \<Longrightarrow> normalize_attribute_schema_version (PyStr s) = Inr s"
  by (auto simp: normalize_attribute_schema_version_def outcome_simps split: pyval.splits)

lemma mode_idem [validator_idem]:
  "normalize_attributes_mode v = Inr s \<Longrightarrow> normalize_attributes_mode (PyStr s) = Inr s"
  by (auto simp: normalize_attributes_mode_def outcome_simps split: pyval.splits)

lemma attribute_version_valid:
  "attribute_version d = Inr s \<Longrightarrow> normalize_attribute_schema_version (PyStr s) = Inr s"
  by (auto simp: attribute_version_def outcome_simps normalize_attribute_schema_version_def
      split: option.splits pyval.splits)

lemma attributes_mode_valid: "attributes_mode d = Inr s \<Longrightarrow> normalize_attributes_mode (PyStr s) = Inr s"
  by (auto simp: attributes_mode_def normalize_attributes_mode_def outcome_simps
      split: option.splits pyval.splits)

lemma clock_value_valid: "normalize_clock_id (PyStr (clock_value c)) = Inr (clock_value c)"
  by (cases c) (simp_all add: normalize_clock_id_def clock_value_def require_def)

lemma attribute_clock_valid: "attribute_clock d c = Inr s \<Longrightarrow> normalize_clock_id (PyStr s) = Inr s"
  by (auto simp: attribute_clock_def outcome_simps validator_idem clock_value_valid split: option.splits)

lemma attribute_clock_again:
  assumes "attribute_clock d c = Inr s" "map_of n ''clock_id'' = Some (PyStr s)"
  shows "attribute_clock n c = Inr s"
  using assms attribute_clock_valid [OF assms(1)] by (auto simp: attribute_clock_def outcome_simps)

text \<open>A payload passes the base checks again if the fields they look at are kept or become valid.\<close>

lemma observation_base_again:
  assumes "observation_base fl d = Inr d'" "fst ` set d' \<subseteq> fst ` set n"
    "\<forall>k\<in>{''entity_id'', ''entity_type'', ''source'', ''location'', ''confidence''}. map_of n k = map_of d' k"
    "map_of n ''observed_at'' = map_of d' ''observed_at''
     \<or> (\<exists>v s. map_of n ''observed_at'' = Some v \<and> strict_non_blank_string v = Inr s)"
    "map_of n ''clock_id'' \<noteq> Some PyNone"
  shows "observation_base fl n = Inr n"
proof -
  obtain q eid where
    d': "d' = AList.update ''confidence'' (PyFloat (Finite q)) d" and
    raw: "normalize_confidence fl (payload_field d ''confidence'') = Inr q" and
    eid: "''entity_id'' \<in> fst ` set d" "strict_non_blank_string (payload_field d ''entity_id'') = Inr eid" and
    rest: "observation_text_fields d = Inr ()"
      "(case map_of d ''location'' of None \<Rightarrow> Inr ()
        | Some v \<Rightarrow> and_try (strict_non_blank_string v) (\<lambda>_. Inr ())) = Inr ()"
    using assms(1) unfolding observation_base_def require_Inr and_try_Inr rewrap_Inr
    by (elim exE conjE) auto
  note q = confidence_idem [OF raw]
  have n: "map_of n ''entity_id'' = map_of d ''entity_id''" "map_of n ''entity_type'' = map_of d ''entity_type''"
    "map_of n ''source'' = map_of d ''source''" "map_of n ''location'' = map_of d ''location''"
    "map_of n ''confidence'' = Some (PyFloat (Finite q))"
    using assms(3) by (simp_all add: d' update_conv')
  have obs: "map_of n ''observed_at'' = map_of d ''observed_at''
     \<or> (\<exists>v s. map_of n ''observed_at'' = Some v \<and> strict_non_blank_string v = Inr s)"
    using assms(4) by (simp add: d' update_conv')
  have keys: "''entity_id'' \<in> fst ` set n" "''confidence'' \<in> fst ` set n"
    using eid(1) assms(2) by (auto simp: d' dom_update)
  have "observation_text_fields n = Inr ()"
    using rest(1) n obs by (auto simp: observation_text_fields_def outcome_simps)
  moreover have "AList.update ''confidence'' (PyFloat (Finite q)) n = n"
    using n(5) by (rule update_triv)
  ultimately show ?thesis
    using keys eid(2) rest(2) n assms(5)
    by (simp add: observation_base_def require_def py_get_def q rewrap_def)
qed

lemma key_iff: "k \<in> fst ` set d \<longleftrightarrow> map_of d k \<noteq> None"
  by (simp add: map_of_eq_None_iff)

lemma observation_attributes_again:
  assumes "observation_attributes fl event d = Inr n"
    and "map_of d ''confidence'' = Some c" "''attributes'' \<in> fst ` set d"
  shows "observation_attributes fl event n = Inr n"
proof -
  obtain version mode attributes refs clock metadata where
    version: "attribute_version d = Inr version" and
    mode: "attributes_mode d = Inr mode" and
    attributes: "validate_observed_attributes fl (payload_entity_type d) False (payload_field d ''attributes'')
      = Inr attributes" and
    refs: "validate_attribute_evidence_refs False (PyList (map PyStr (we_evidence_refs event))) = Inr refs" and
    clock: "attribute_clock d (we_clock_id event) = Inr clock" and
    modern: "modern_requirements d version refs" and
    metadata: "materialize_attribute_metadata fl attributes (payload_field d ''attribute_metadata'')
      (metadata_defaults (py_get d ''observed_at'' (PyStr (we_occurred_at event))) (payload_field d ''confidence'')
         (PyList (map PyStr refs)) (PyStr clock) (payload_field d ''source''))
      (PyStr clock) (payload_entity_type d) False = Inr metadata" and
    n: "n = AList.update ''attribute_metadata'' (PyDict (metadata_dict metadata))
           (AList.update ''observed_at'' (py_get d ''observed_at'' (PyStr (we_occurred_at event)))
             (AList.update ''clock_id'' (PyStr clock)
               (AList.update ''attributes_mode'' (PyStr mode)
                 (AList.update ''attributes_schema_version'' (PyStr version) d))))"
    using assms(1)
    unfolding observation_attributes_def Let_def legacy_attribute_keys_allowed_def and_try_Inr require_Inr
      rewrap_Inr simp_thms
    by (elim exE conjE) auto
  have new: "map_of n ''attributes_schema_version'' = Some (PyStr version)"
    "map_of n ''attributes_mode'' = Some (PyStr mode)" "map_of n ''clock_id'' = Some (PyStr clock)"
    "map_of n ''observed_at'' = Some (py_get d ''observed_at'' (PyStr (we_occurred_at event)))"
    "map_of n ''attribute_metadata'' = Some (PyDict (metadata_dict metadata))"
    by (simp_all add: n update_conv')
  have kept: "map_of n ''attributes'' = map_of d ''attributes''" "map_of n ''entity_type'' = map_of d ''entity_type''"
    "map_of n ''source'' = map_of d ''source''" "map_of n ''confidence'' = map_of d ''confidence''"
    by (simp_all add: n update_conv')
  have "modern_requirements n version refs"
    using modern new(4) kept(2,3) by (auto simp: modern_requirements_def key_iff)
  moreover have "attribute_version n = Inr version" "attributes_mode n = Inr mode"
    using new(1,2) attribute_version_valid [OF version] attributes_mode_valid [OF mode]
    by (simp_all add: attribute_version_def attributes_mode_def)
  moreover have "payload_entity_type n = payload_entity_type d"
    using kept(2) by (simp add: payload_entity_type_def)
  moreover have "n = AList.update ''attribute_metadata'' (PyDict (metadata_dict metadata))
           (AList.update ''observed_at'' (py_get d ''observed_at'' (PyStr (we_occurred_at event)))
             (AList.update ''clock_id'' (PyStr clock)
               (AList.update ''attributes_mode'' (PyStr mode)
                 (AList.update ''attributes_schema_version'' (PyStr version) n))))"
    by (simp add: update_triv new)
  ultimately show ?thesis
    using attributes refs attribute_clock_again [OF clock new(3)] materialize_again [OF metadata] new(4,5) kept
    by (simp add: observation_attributes_def Let_def legacy_attribute_keys_allowed_def require_def rewrap_def
        py_get_def)
qed

lemma observation_attributes_payload [simp]:
  "observation_attributes fl (e\<lparr>we_payload := p\<rparr>) d = observation_attributes fl e d"
  by (simp add: observation_attributes_def)

lemma observation_attributes_frame:
  assumes "observation_attributes fl e d = Inr n"
  shows "k \<in> fst ` set d \<Longrightarrow> k \<in> fst ` set n"
    and "k \<notin> {''attribute_metadata'', ''observed_at'', ''clock_id'', ''attributes_mode'', ''attributes_schema_version''}
         \<Longrightarrow> map_of n k = map_of d k"
    and "map_of n ''observed_at'' = Some (py_get d ''observed_at'' (PyStr (we_occurred_at e)))"
    and "map_of n ''clock_id'' \<noteq> Some PyNone"
  using assms
  by (auto simp: observation_attributes_def Let_def outcome_simps key_iff update_conv' simp del: map_of_eq_None_iff)

lemma observation_base_confidence:
  "observation_base fl d = Inr d' \<Longrightarrow> \<exists>q. map_of d' ''confidence'' = Some (PyFloat (Finite q))"
  by (auto simp: observation_base_def outcome_simps update_conv')

lemma observation_base_observed_at:
  assumes "observation_base fl d = Inr d'" "map_of d' ''observed_at'' = Some v"
  shows "\<exists>s. strict_non_blank_string v = Inr s"
  using assms
  by (auto simp: observation_base_def observation_text_fields_def outcome_simps update_conv')

lemma observation_base_clock:
  "observation_base fl d = Inr d' \<Longrightarrow> map_of d' ''clock_id'' \<noteq> Some PyNone"
  by (auto simp: observation_base_def outcome_simps update_conv')

lemma normalize_observation_again:
  assumes norm: "normalize_observation_payload fl e = Inr n" and time: "\<not> py_blank (we_occurred_at e)"
  shows "normalize_observation_payload fl (e\<lparr>we_payload := n\<rparr>) = Inr n"
proof -
  obtain d where base: "observation_base fl (we_payload e) = Inr d"
    using norm by (auto simp: normalize_observation_payload_def outcome_simps)
  show ?thesis
  proof (cases "''attributes'' \<in> fst ` set d")
    case True
    then have attrs: "observation_attributes fl e d = Inr n"
      using norm base by (simp add: normalize_observation_payload_def)
    note frame = observation_attributes_frame [OF attrs]
    have "\<exists>s. strict_non_blank_string (py_get d ''observed_at'' (PyStr (we_occurred_at e))) = Inr s"
      using observation_base_observed_at [OF base] time
      by (cases "map_of d ''observed_at''") (auto simp: py_get_def strict_non_blank_string_def require_def)
    then have again: "observation_base fl n = Inr n"
      using frame by (intro observation_base_again [OF base]) auto
    moreover obtain c where "map_of d ''confidence'' = Some c"
      using observation_base_confidence [OF base] by blast
    ultimately show ?thesis
      using observation_attributes_again [OF attrs _ True] True frame(1)
      by (auto simp: normalize_observation_payload_def)
  next
    case False
    then have "n = d" "set attribute_fields \<inter> fst ` set d = {}"
      using norm base by (auto simp: normalize_observation_payload_def outcome_simps)
    moreover have "observation_base fl d = Inr d"
      using observation_base_clock [OF base] by (intro observation_base_again [OF base]) auto
    ultimately show ?thesis
      using False by (simp add: normalize_observation_payload_def require_def)
  qed
qed

lemma normalize_world_event_Inr:
  "normalize_world_event fl a e = Inr e' \<Longrightarrow> e' = e\<lparr>we_payload := we_payload e'\<rparr>"
  by (auto simp: normalize_world_event_def outcome_simps)

lemma normalize_action_result_again:
  "normalize_action_result_payload d run refs a = Inr r
   \<Longrightarrow> normalize_action_result_payload (action_result_dump r) run refs a = Inr r"
  by (auto simp: normalize_action_result_payload_def outcome_simps dest: action_result_again)

lemma normalized_payload_again:
  assumes norm: "normalized_payload fl a e = Inr n" and time: "\<not> py_blank (we_occurred_at e)"
  shows "normalized_payload fl a (e\<lparr>we_payload := n\<rparr>) = Inr n"
proof (cases "we_event_type e = EV_OBSERVATION")
  case True
  then show ?thesis
    using norm normalize_observation_again [OF _ time] by (simp add: normalized_payload_def)
next
  case other: False
  show ?thesis
  proof (cases "we_event_type e = EV_ACTION_RESULT")
    case True
    then obtain r where "normalize_action_result_payload (we_payload e) (we_run_id e)
        (Some (we_evidence_refs e)) a = Inr r" "n = action_result_dump r"
      using norm by (auto simp: normalized_payload_def and_try_Inr)
    then show ?thesis
      using True normalize_action_result_again by (simp add: normalized_payload_def)
  next
    case False
    then show ?thesis
      using other norm normalize_recovery_again [of "we_payload e" "we_event_type e" n]
      by (auto simp: normalized_payload_def split: if_splits)
  qed
qed

lemma normalize_again:
  assumes norm: "normalize_world_event fl a e = Inr e'" and time: "\<not> py_blank (we_occurred_at e)"
  shows "normalize_world_event fl a e' = Inr e'"
proof -
  obtain n where n: "normalized_payload fl a e = Inr n" and e': "e' = e\<lparr>we_payload := n\<rparr>"
    using norm by (auto simp: normalize_world_event_def and_try_Inr)
  show ?thesis
    using normalized_payload_again [OF n time] by (simp add: normalize_world_event_def e')
qed

section \<open>Properties\<close>

text \<open>
  C13: Replay normalizes every event twice, once in the preflight of the stream and once when the event
  is applied, and a stored event may be the result of an earlier normalization. Normalizing an event
  whose occurrence time is not blank succeeds on its own result and changes nothing any more; and
  only the payload of an event is touched.
\<close>

theorem normalization_is_idempotent:
  assumes "normalize_world_event fl expected e = Inr e'" and "\<not> py_blank (we_occurred_at e)"
  shows "normalize_world_event fl expected e' = Inr e' \<and> e' = e\<lparr>we_payload := we_payload e'\<rparr>"
  using normalize_again [OF assms] normalize_world_event_Inr [OF assms(1)] by blast

definition door_event :: world_event where
  "door_event =
     \<lparr>we_event_id = ''e1'', we_run_id = ''run'', we_sequence_no = 1, we_event_type = EV_OBSERVATION,
      we_occurred_at = ''2026-01-01T00:00:00Z'',
      we_payload =
        [(''entity_id'', PyStr ''dw''), (''entity_type'', PyStr ''Dishwasher''),
         (''observed_at'', PyStr ''2026-01-01T00:00:00Z''), (''source'', PyStr ''cam''), (''confidence'', PyInt 1),
         (''attributes'', PyDict [(''door_state'', PyStr ''open'')]),
         (''attributes_schema_version'', PyStr ''observed-attributes-v1'')],
      we_recorded_at = None, we_clock_id = Some WALL, we_evidence_refs = [''frame-1'']\<rparr>"

definition door_event_normal :: world_event where
  "door_event_normal = door_event\<lparr>we_payload :=
     [(''entity_id'', PyStr ''dw''), (''entity_type'', PyStr ''Dishwasher''),
      (''observed_at'', PyStr ''2026-01-01T00:00:00Z''), (''source'', PyStr ''cam''),
      (''confidence'', PyFloat (Finite 1)), (''attributes'', PyDict [(''door_state'', PyStr ''open'')]),
      (''attributes_schema_version'', PyStr ''observed-attributes-v1''),
      (''attributes_mode'', PyStr ''complete''), (''clock_id'', PyStr ''wall''),
      (''attribute_metadata'', PyDict [(''door_state'', PyDict
        [(''observed_at'', PyStr ''2026-01-01T00:00:00Z''), (''confidence'', PyFloat (Finite 1)),
         (''evidence_refs'', PyList [PyStr ''frame-1'']), (''belief'', PyStr ''observed''),
         (''clock_id'', PyStr ''wall''), (''source'', PyStr ''cam'')])])]\<rparr>"

lemma door_event_normalized: "normalize_world_event exact_floats None door_event = Inr door_event_normal"
  by code_simp

theorem normalization_is_idempotent_witness:
  "normalize_world_event exact_floats None door_event = Inr door_event_normal
   \<and> normalize_world_event exact_floats None door_event_normal = Inr door_event_normal"
proof -
  have "\<not> py_blank (we_occurred_at door_event)"
    by code_simp
  then show ?thesis
    using normalization_is_idempotent [OF door_event_normalized] door_event_normalized by blast
qed

text \<open>
  Without the condition on the occurrence time the second normalization can refuse the result of the
  first: an observation in the old form with an empty attribute map takes its observation time from
  the event, and a blank one is accepted on the way in and refused afterwards.
\<close>

definition blank_time_event :: world_event where
  "blank_time_event =
     \<lparr>we_event_id = ''e1'', we_run_id = ''run'', we_sequence_no = 1, we_event_type = EV_OBSERVATION,
      we_occurred_at = [],
      we_payload = [(''entity_id'', PyStr ''cup''), (''confidence'', PyInt 1), (''attributes'', PyDict [])],
      we_recorded_at = None, we_clock_id = None, we_evidence_refs = []\<rparr>"

definition blank_time_event_normal :: world_event where
  "blank_time_event_normal = blank_time_event\<lparr>we_payload :=
     [(''entity_id'', PyStr ''cup''), (''confidence'', PyFloat (Finite 1)), (''attributes'', PyDict []),
      (''attributes_schema_version'', PyStr ''legacy-observed-attributes-v0''),
      (''attributes_mode'', PyStr ''complete''), (''clock_id'', PyStr ''monotonic''),
      (''observed_at'', PyStr []), (''attribute_metadata'', PyDict [])]\<rparr>"

lemma blank_time_is_refused_on_replay:
  "normalize_world_event exact_floats None blank_time_event = Inr blank_time_event_normal"
  "normalize_world_event exact_floats None blank_time_event_normal = Inl WPayloadError"
  by code_simp+

end
