(* ===== verification/Aging.thy ===== *)
theory Aging
  imports ObservedAttributes "HOL-Library.Monad_Syntax"
begin

text \<open>
  Freshness of the world state, after \<^verbatim>\<open>services/world_model/workbench_world_model/aging.py\<close>: time
  stamps that can be compared, freshness policies and their tightening, and the ageing of a world
  state against an explicit boundary. The record \<open>world_state\<close> is the internal state of the reducer
  in \<^verbatim>\<open>reducer.py\<close>; its dictionaries are association lists in insertion order.
\<close>

record world_state =
  ws_run_id :: string
  entity_types :: "(string \<times> string) list"
  entity_poses :: "(string \<times> pyval) list"
  entity_last_observed_at :: "(string \<times> string) list"
  entity_observation_clock_ids :: "(string \<times> string) list"
  entity_observation_sources :: "(string \<times> string) list"
  entity_beliefs :: "(string \<times> world_belief) list"
  entity_locations :: "(string \<times> string) list"
  entity_location_evidence_refs :: "(string \<times> string list) list"
  entity_location_last_observed_at :: "(string \<times> string) list"
  entity_location_clock_ids :: "(string \<times> string) list"
  entity_location_sources :: "(string \<times> string) list"
  entity_location_beliefs :: "(string \<times> world_belief) list"
  entity_confidence :: "(string \<times> pyval) list"
  entity_attributes :: "(string \<times> (string \<times> string) list) list"
  entity_attribute_baselines :: "(string \<times> bool) list"
  entity_attribute_metadata :: "(string \<times> metadata_map) list"
  entity_attribute_schema_versions :: "(string \<times> string) list"
  entity_evidence_refs :: "(string \<times> string list) list"
  ws_evidence_refs :: "string list"
  freshness_evaluated :: bool
  applied_event_ids :: "string list"

section \<open>Wall time\<close>

text \<open>
  The pattern \<^verbatim>\<open>\d{4}-\d{2}-\d{2}T\d{2}:\d{2}:\d{2}(?:\.\d+)?(?:Z|\+00:00)\<close> and \<^verbatim>\<open>datetime.fromisoformat\<close>
  on text of that form: the proleptic Gregorian calendar from year 1, and a fraction of which the
  first six digits count. A time is the number of microseconds since the day before year 1.
\<close>

definition read_digits :: "nat \<Rightarrow> string \<Rightarrow> (int \<times> string) option" where
  "read_digits n s =
     (let p = take n s in
      if length p = n \<and> list_all json_digit p
      then Some (foldl (\<lambda>v c. v * 10 + (int (of_char c) - 48)) 0 p, drop n s)
      else None)"

definition read_char :: "char \<Rightarrow> string \<Rightarrow> string option" where
  "read_char c s = (case s of x # r \<Rightarrow> if x = c then Some r else None | [] \<Rightarrow> None)"

definition read_fraction :: "string \<Rightarrow> (int \<times> string) option" where
  "read_fraction s =
     (case read_char (CHR ''.'') s of
        None \<Rightarrow> Some (0, s)
      | Some r \<Rightarrow>
          let ds = takeWhile json_digit r in
          if ds = [] then None
          else map_option (\<lambda>(v, _). (v, dropWhile json_digit r)) (read_digits 6 (ds @ ''000000'')))"

definition leap_year :: "int \<Rightarrow> bool" where
  "leap_year y \<longleftrightarrow> y mod 4 = 0 \<and> (y mod 100 \<noteq> 0 \<or> y mod 400 = 0)"

definition month_lengths :: "int \<Rightarrow> int list" where
  "month_lengths y = [31, if leap_year y then 29 else 28, 31, 30, 31, 30, 31, 31, 30, 31, 30, 31]"

definition day_ordinal :: "int \<Rightarrow> int \<Rightarrow> int \<Rightarrow> int option" where
  "day_ordinal y m d =
     (if 1 \<le> y \<and> 1 \<le> m \<and> m \<le> 12 \<and> 1 \<le> d \<and> d \<le> month_lengths y ! nat (m - 1)
      then Some ((y - 1) * 365 + (y - 1) div 4 - (y - 1) div 100 + (y - 1) div 400
                 + sum_list (take (nat (m - 1)) (month_lengths y)) + d)
      else None)"

definition parse_wall_text :: "string \<Rightarrow> int option" where
  "parse_wall_text s0 = do {
     (y, s1) \<leftarrow> read_digits 4 s0; s2 \<leftarrow> read_char (CHR ''-'') s1;
     (mo, s3) \<leftarrow> read_digits 2 s2; s4 \<leftarrow> read_char (CHR ''-'') s3;
     (d, s5) \<leftarrow> read_digits 2 s4; s6 \<leftarrow> read_char (CHR ''T'') s5;
     (h, s7) \<leftarrow> read_digits 2 s6; s8 \<leftarrow> read_char (CHR '':'') s7;
     (mi, s9) \<leftarrow> read_digits 2 s8; s10 \<leftarrow> read_char (CHR '':'') s9;
     (sec, s11) \<leftarrow> read_digits 2 s10;
     (us, s12) \<leftarrow> read_fraction s11;
     if s12 = ''Z'' \<or> s12 = ''+00:00'' then do {
       n \<leftarrow> day_ordinal y mo d;
       if h \<le> 23 \<and> mi \<le> 59 \<and> sec \<le> 59
       then Some ((((n * 24 + h) * 60 + mi) * 60 + sec) * 1000000 + us) else None
     } else None }"

definition parse_utc_wall_time :: "pyval \<Rightarrow> int option" where
  "parse_utc_wall_time v = (case v of PyStr s \<Rightarrow> parse_wall_text s | _ \<Rightarrow> None)"

text \<open>\<^verbatim>\<open>(a - b).total_seconds()\<close>\<close>

definition total_seconds :: "float_ops \<Rightarrow> int \<Rightarrow> rat" where
  "total_seconds fl us = fl_nearest fl (of_int us / 1000000)"

definition comparable_wall_observation_is_older :: "pyval \<Rightarrow> pyval \<Rightarrow> pyval \<Rightarrow> pyval \<Rightarrow> bool" where
  "comparable_wall_observation_is_older current_observed_at current_clock_id incoming_observed_at incoming_clock_id =
     (if current_clock_id \<noteq> PyStr ''wall'' then False
      else if incoming_clock_id \<noteq> PyStr ''wall'' then False
      else case (parse_utc_wall_time current_observed_at, parse_utc_wall_time incoming_observed_at) of
        (Some current, Some incoming) \<Rightarrow> incoming < current
      | _ \<Rightarrow> False)"

section \<open>Freshness policies\<close>

record freshness_thresholds =
  stale_after_s :: rat
  lost_after_s :: rat

definition finite_seconds :: "float_ops \<Rightarrow> pyval \<Rightarrow> world_error + rat" where
  "finite_seconds fl v =
     (case v of
        PyInt i \<Rightarrow> (case fl_round fl (of_int i) of None \<Rightarrow> Inl WOverflowError | Some q \<Rightarrow> Inr q)
      | PyFloat (Finite q) \<Rightarrow> Inr q
      | _ \<Rightarrow> Inl WValueError)"

definition new_thresholds :: "float_ops \<Rightarrow> pyval \<Rightarrow> pyval \<Rightarrow> world_error + freshness_thresholds" where
  "new_thresholds fl stale lost =
     and_try (finite_seconds fl stale) (\<lambda>stale_s.
     and_try (finite_seconds fl lost) (\<lambda>lost_s.
     require (0 < stale_s) WValueError
     (require (0 < lost_s) WValueError
     (require (stale_s \<le> lost_s) WValueError
     (Inr \<lparr>stale_after_s = stale_s, lost_after_s = lost_s\<rparr>)))))"

type_synonym freshness_rules = "((string \<times> string) \<times> freshness_thresholds) list"

record freshness_policy =
  fp_rules :: freshness_rules

definition policy_label_ok :: "string \<Rightarrow> bool" where
  "policy_label_ok s \<longleftrightarrow> \<not> py_blank s \<and> py_strip s \<noteq> ''*''"

definition new_policy :: "freshness_rules \<Rightarrow> world_error + freshness_policy" where
  "new_policy rules =
     require (rules \<noteq> []) WValueError
     (require (list_all (\<lambda>((source, entity_type), _). policy_label_ok source \<and> policy_label_ok entity_type) rules)
        WValueError (Inr \<lparr>fp_rules = rules\<rparr>))"

definition rule_for :: "freshness_policy \<Rightarrow> pyval \<Rightarrow> pyval \<Rightarrow> freshness_thresholds option" where
  "rule_for p source entity_type =
     (case (source, entity_type) of
        (PyStr s, PyStr t) \<Rightarrow> map_of (fp_rules p) (s, t)
      | _ \<Rightarrow> None)"

fun tighten_rules :: "freshness_rules \<Rightarrow> freshness_rules \<Rightarrow> freshness_rules \<Rightarrow> world_error + freshness_rules" where
  "tighten_rules rules [] merged = Inr merged"
| "tighten_rules rules ((key, replacement) # overrides) merged =
     (case map_of rules key of
        None \<Rightarrow> Inl WValueError
      | Some original \<Rightarrow>
          if stale_after_s replacement > stale_after_s original \<or> lost_after_s replacement > lost_after_s original
          then Inl WValueError
          else tighten_rules rules overrides (AList.update key replacement merged))"

definition tightened :: "freshness_policy \<Rightarrow> freshness_rules \<Rightarrow> world_error + freshness_policy" where
  "tightened p overrides = and_try (tighten_rules (fp_rules p) overrides (fp_rules p)) new_policy"

record aging_boundary =
  ab_as_of :: string
  ab_clock_id :: clock_id

definition new_boundary :: "string \<Rightarrow> clock_id \<Rightarrow> world_error + aging_boundary" where
  "new_boundary as_of clock =
     require (\<not> py_blank as_of) WValueError
     (require (clock = WALL \<longrightarrow> parse_wall_text as_of \<noteq> None) WValueError
     (Inr \<lparr>ab_as_of = as_of, ab_clock_id = clock\<rparr>))"

section \<open>Ageing\<close>

definition belief_for_observation ::
    "float_ops \<Rightarrow> freshness_policy \<Rightarrow> aging_boundary \<Rightarrow> pyval \<Rightarrow> pyval \<Rightarrow> pyval \<Rightarrow> pyval \<Rightarrow> world_belief" where
  "belief_for_observation fl policy boundary observed_at clock source entity_type =
     (if ab_clock_id boundary \<noteq> WALL then BELIEF_LOST
      else if clock \<noteq> PyStr ''wall'' then BELIEF_LOST
      else case rule_for policy source entity_type of
        None \<Rightarrow> BELIEF_LOST
      | Some thresholds \<Rightarrow>
          (case (parse_utc_wall_time observed_at, parse_wall_text (ab_as_of boundary)) of
             (Some observation_time, Some boundary_time) \<Rightarrow>
               let age_s = total_seconds fl (boundary_time - observation_time) in
               if age_s < 0 then BELIEF_LOST
               else if age_s < stale_after_s thresholds then BELIEF_OBSERVED
               else if age_s < lost_after_s thresholds then BELIEF_STALE
               else BELIEF_LOST
           | _ \<Rightarrow> BELIEF_LOST))"

definition least_fresh :: "world_belief list \<Rightarrow> world_belief" where
  "least_fresh beliefs =
     (if BELIEF_LOST \<in> set beliefs then BELIEF_LOST
      else if BELIEF_STALE \<in> set beliefs then BELIEF_STALE
      else if BELIEF_INFERRED \<in> set beliefs then BELIEF_INFERRED
      else BELIEF_OBSERVED)"

definition opt_text :: "(string \<times> string) list \<Rightarrow> string \<Rightarrow> pyval" where
  "opt_text d k = (case map_of d k of None \<Rightarrow> PyNone | Some s \<Rightarrow> PyStr s)"

definition age_metadata ::
    "float_ops \<Rightarrow> freshness_policy \<Rightarrow> aging_boundary \<Rightarrow> pyval \<Rightarrow> (string \<times> pyval) list \<Rightarrow> (string \<times> pyval) list" where
  "age_metadata fl policy boundary entity_type m =
     (let belief = belief_for_observation fl policy boundary (py_get m ''observed_at'' PyNone)
            (py_get m ''clock_id'' PyNone) (py_get m ''source'' PyNone) entity_type;
          final = (if py_get m ''belief'' PyNone = PyStr ''inferred'' \<and> belief = BELIEF_OBSERVED
                   then BELIEF_INFERRED else belief) in
      AList.update ''belief'' (PyStr (belief_value final)) m)"

definition age_attribute_metadata ::
    "float_ops \<Rightarrow> freshness_policy \<Rightarrow> aging_boundary \<Rightarrow> world_state \<Rightarrow> world_state" where
  "age_attribute_metadata fl policy boundary s =
     s\<lparr>entity_attribute_metadata :=
        map (\<lambda>(entity_id, metadata).
               if entity_id \<in> fst ` set (entity_attributes s)
               then (entity_id,
                     map (\<lambda>(k, m). (k, age_metadata fl policy boundary (opt_text (entity_types s) entity_id) m))
                       metadata)
               else (entity_id, metadata))
          (entity_attribute_metadata s)\<rparr>"

definition entity_belief ::
    "float_ops \<Rightarrow> freshness_policy \<Rightarrow> aging_boundary \<Rightarrow> world_state \<Rightarrow> string \<Rightarrow> world_belief" where
  "entity_belief fl policy boundary s entity_id =
     belief_for_observation fl policy boundary (opt_text (entity_last_observed_at s) entity_id)
       (opt_text (entity_observation_clock_ids s) entity_id) (opt_text (entity_observation_sources s) entity_id)
       (opt_text (entity_types s) entity_id)"

text \<open>\<^verbatim>\<open>location.partition(":")\<close>: whether the separator occurs, and what follows it.\<close>

definition location_endpoint :: "string \<Rightarrow> string option" where
  "location_endpoint location =
     (case dropWhile (\<lambda>c. c \<noteq> CHR '':'') location of
        [] \<Rightarrow> None
      | _ # endpoint \<Rightarrow> if py_blank endpoint then None else Some endpoint)"

definition belief_or_lost :: "(string \<times> world_belief) list \<Rightarrow> string \<Rightarrow> world_belief" where
  "belief_or_lost beliefs entity_id =
     (case map_of beliefs entity_id of None \<Rightarrow> BELIEF_LOST | Some b \<Rightarrow> b)"

definition location_belief ::
    "float_ops \<Rightarrow> freshness_policy \<Rightarrow> aging_boundary \<Rightarrow> world_state \<Rightarrow> (string \<times> world_belief) list
     \<Rightarrow> string \<times> string \<Rightarrow> world_belief" where
  "location_belief fl policy boundary s beliefs = (\<lambda>(entity_id, location).
     let endpoint_belief =
           (case location_endpoint location of None \<Rightarrow> BELIEF_LOST | Some e \<Rightarrow> belief_or_lost beliefs e);
         location_observation_belief =
           belief_for_observation fl policy boundary (opt_text (entity_location_last_observed_at s) entity_id)
             (opt_text (entity_location_clock_ids s) entity_id) (opt_text (entity_location_sources s) entity_id)
             (opt_text (entity_types s) entity_id) in
     least_fresh [belief_or_lost beliefs entity_id, endpoint_belief, location_observation_belief])"

definition age_world_state ::
    "float_ops \<Rightarrow> freshness_policy \<Rightarrow> aging_boundary \<Rightarrow> world_state \<Rightarrow> world_state" where
  "age_world_state fl policy boundary s =
     (let aged = age_attribute_metadata fl policy boundary (s\<lparr>freshness_evaluated := True\<rparr>);
          beliefs = map (\<lambda>entity_id. (entity_id, entity_belief fl policy boundary aged entity_id))
                      (sort (map fst (entity_types aged)));
          locations = map (\<lambda>(entity_id, location).
                             (entity_id, location_belief fl policy boundary aged beliefs (entity_id, location)))
                        (sort_key fst (entity_locations aged)) in
      aged\<lparr>entity_beliefs := beliefs, entity_location_beliefs := locations\<rparr>)"

section \<open>Ageing loses freshness only\<close>

definition freshness :: "world_belief \<Rightarrow> nat" where
  "freshness b =
     (case b of BELIEF_LOST \<Rightarrow> 0 | BELIEF_STALE \<Rightarrow> 1 | BELIEF_INFERRED \<Rightarrow> 2 | BELIEF_OBSERVED \<Rightarrow> 3)"

text \<open>\<open>tighter p' p\<close>: every rule of \<open>p'\<close> has a rule of \<open>p\<close> for the same tuple with bounds at least as long.\<close>

definition tighter :: "freshness_policy \<Rightarrow> freshness_policy \<Rightarrow> bool" where
  "tighter p' p \<longleftrightarrow>
     (\<forall>k r'. map_of (fp_rules p') k = Some r' \<longrightarrow>
        (\<exists>r. map_of (fp_rules p) k = Some r
           \<and> stale_after_s r' \<le> stale_after_s r \<and> lost_after_s r' \<le> lost_after_s r))"

definition not_after :: "int \<Rightarrow> pyval \<Rightarrow> bool" where
  "not_after t v \<longleftrightarrow> (case parse_utc_wall_time v of None \<Rightarrow> True | Some u \<Rightarrow> u \<le> t)"

text \<open>No time stamp of the state that can be read is later than \<open>t\<close>.\<close>

definition observed_by :: "world_state \<Rightarrow> int \<Rightarrow> bool" where
  "observed_by s t \<longleftrightarrow>
     (\<forall>v\<in>snd ` set (entity_last_observed_at s). not_after t (PyStr v))
     \<and> (\<forall>v\<in>snd ` set (entity_location_last_observed_at s). not_after t (PyStr v))
     \<and> (\<forall>ms\<in>snd ` set (entity_attribute_metadata s). \<forall>m\<in>snd ` set ms. not_after t (py_get m ''observed_at'' PyNone))"

lemma tighter_update:
  assumes "tighter \<lparr>fp_rules = merged\<rparr> \<lparr>fp_rules = rules\<rparr>" "map_of rules key = Some r"
    "stale_after_s r' \<le> stale_after_s r" "lost_after_s r' \<le> lost_after_s r"
  shows "tighter \<lparr>fp_rules = AList.update key r' merged\<rparr> \<lparr>fp_rules = rules\<rparr>"
  unfolding tighter_def
proof (intro allI impI)
  fix k r''
  assume "map_of (fp_rules \<lparr>fp_rules = AList.update key r' merged\<rparr>) k = Some r''"
  then show "\<exists>r. map_of (fp_rules \<lparr>fp_rules = rules\<rparr>) k = Some r
               \<and> stale_after_s r'' \<le> stale_after_s r \<and> lost_after_s r'' \<le> lost_after_s r"
    using assms by (cases "k = key") (simp_all add: update_conv' tighter_def del: split_paired_All)
qed

lemma tighten_rules_tighter:
  assumes "tighten_rules rules overrides merged = Inr merged'"
    and "tighter \<lparr>fp_rules = merged\<rparr> \<lparr>fp_rules = rules\<rparr>"
  shows "tighter \<lparr>fp_rules = merged'\<rparr> \<lparr>fp_rules = rules\<rparr>"
  using assms
proof (induction rules overrides merged rule: tighten_rules.induct)
  case (2 rules key replacement overrides merged)
  then obtain r where r: "map_of rules key = Some r"
    by (auto split: option.splits)
  moreover from this have bounds: "\<not> (stale_after_s replacement > stale_after_s r \<or> lost_after_s replacement > lost_after_s r)"
    using "2.prems"(1) by (simp split: if_splits)
  ultimately show ?case
    using "2.IH" [OF r bounds] "2.prems" tighter_update [OF "2.prems"(2) r] by (simp add: not_less)
qed simp

lemma tightened_tighter:
  assumes "tightened p overrides = Inr p'"
  shows "tighter p' p"
proof -
  obtain rules where rules: "tighten_rules (fp_rules p) overrides (fp_rules p) = Inr rules"
    and p': "p' = \<lparr>fp_rules = rules\<rparr>"
    using assms by (auto simp: tightened_def new_policy_def outcome_simps)
  have "tighter \<lparr>fp_rules = fp_rules p\<rparr> \<lparr>fp_rules = fp_rules p\<rparr>"
    by (simp add: tighter_def)
  from tighten_rules_tighter [OF rules this] show ?thesis
    by (simp add: p' tighter_def)
qed

lemma total_seconds_mono: "faithful_rounding fl \<Longrightarrow> a \<le> b \<Longrightarrow> total_seconds fl a \<le> total_seconds fl b"
  by (simp add: faithful_rounding_def total_seconds_def monoD divide_right_mono)

lemma total_seconds_nonneg: "faithful_rounding fl \<Longrightarrow> 0 \<le> a \<Longrightarrow> 0 \<le> total_seconds fl a"
  using total_seconds_mono [of fl 0 a] by (simp add: total_seconds_def faithful_rounding_def)

lemma rule_for_tighter:
  assumes "tighter p' p" "rule_for p' source entity_type = Some r'"
  shows "\<exists>r. rule_for p source entity_type = Some r
           \<and> stale_after_s r' \<le> stale_after_s r \<and> lost_after_s r' \<le> lost_after_s r"
proof -
  obtain a c where "source = PyStr a" "entity_type = PyStr c" "map_of (fp_rules p') (a, c) = Some r'"
    using assms(2) by (auto simp: rule_for_def split: pyval.splits)
  then show ?thesis
    using assms(1) by (simp add: tighter_def rule_for_def)
qed

text \<open>The belief an age gives under one rule.\<close>

definition graded :: "freshness_thresholds \<Rightarrow> rat \<Rightarrow> world_belief" where
  "graded r age =
     (if age < 0 then BELIEF_LOST else if age < stale_after_s r then BELIEF_OBSERVED
      else if age < lost_after_s r then BELIEF_STALE else BELIEF_LOST)"

lemma graded_antitone:
  assumes "0 \<le> age" "age \<le> age'" "stale_after_s r' \<le> stale_after_s r" "lost_after_s r' \<le> lost_after_s r"
  shows "freshness (graded r' age') \<le> freshness (graded r age)"
  using assms unfolding graded_def freshness_def by (simp split: if_split)

lemma belief_graded:
  assumes "rule_for p source entity_type = Some r" "parse_utc_wall_time observed_at = Some u"
    "parse_wall_text (ab_as_of b) = Some t" "ab_clock_id b = WALL" "clock = PyStr ''wall''"
  shows "belief_for_observation fl p b observed_at clock source entity_type = graded r (total_seconds fl (t - u))"
  unfolding belief_for_observation_def graded_def assms Let_def by simp

lemma belief_antitone:
  assumes "faithful_rounding fl" "tighter p' p" "ab_clock_id b = WALL"
    "parse_wall_text (ab_as_of b) = Some t" "parse_wall_text (ab_as_of b') = Some t'" "t \<le> t'"
    "not_after t observed_at"
  shows "freshness (belief_for_observation fl p' b' observed_at clock source entity_type)
       \<le> freshness (belief_for_observation fl p b observed_at clock source entity_type)"
proof (cases "ab_clock_id b' = WALL \<and> clock = PyStr ''wall''")
  case wall: True
  show ?thesis
  proof (cases "rule_for p' source entity_type")
    case (Some r')
    then obtain r where r: "rule_for p source entity_type = Some r"
      "stale_after_s r' \<le> stale_after_s r" "lost_after_s r' \<le> lost_after_s r"
      using assms(2) rule_for_tighter by blast
    show ?thesis
    proof (cases "parse_utc_wall_time observed_at")
      case (Some u)
      then have "u \<le> t"
        using assms(7) by (simp add: not_after_def)
      then have "0 \<le> total_seconds fl (t - u)" "total_seconds fl (t - u) \<le> total_seconds fl (t' - u)"
        using assms(1,6) by (auto intro: total_seconds_nonneg total_seconds_mono)
      from graded_antitone [OF this r(2,3)] show ?thesis
        using wall by (simp only: belief_graded [OF r(1) Some assms(4,3)]
          belief_graded [OF \<open>rule_for p' source entity_type = Some r'\<close> Some assms(5)])
    qed (use wall in \<open>auto simp: belief_for_observation_def freshness_def split: option.split\<close>)
  qed (use wall in \<open>simp add: belief_for_observation_def freshness_def\<close>)
qed (auto simp: belief_for_observation_def freshness_def)

lemma least_fresh_le: "b \<in> set bs \<Longrightarrow> freshness (least_fresh bs) \<le> freshness b"
  by (cases b) (auto simp: least_fresh_def freshness_def split: world_belief.split)

lemma least_fresh_antitone:
  assumes "list_all2 (\<lambda>x y. freshness x \<le> freshness y) xs ys"
  shows "freshness (least_fresh xs) \<le> freshness (least_fresh ys)"
proof -
  have "least_fresh ys \<in> set ys \<or> least_fresh ys = BELIEF_OBSERVED"
    by (simp add: least_fresh_def)
  then show ?thesis
  proof
    assume "least_fresh ys \<in> set ys"
    then obtain i where i: "i < length ys" "ys ! i = least_fresh ys"
      unfolding in_set_conv_nth by blast
    have "xs ! i \<in> set xs"
      using i(1) list_all2_lengthD [OF assms] by simp
    moreover have "freshness (xs ! i) \<le> freshness (least_fresh ys)"
      using list_all2_nthD2 [OF assms i(1)] unfolding i(2) .
    ultimately show ?thesis
      by (rule le_trans [OF least_fresh_le])
  next
    assume "least_fresh ys = BELIEF_OBSERVED"
    then show ?thesis
      by (cases "least_fresh xs") (simp_all add: freshness_def)
  qed
qed

text \<open>Lookups in the aged state.\<close>

lemma map_of_tabulate: "map_of (map (\<lambda>x. (x, f x)) xs) k = (if k \<in> set xs then Some (f k) else None)"
  by (induction xs) auto

lemma map_of_mapped: "map_of (map (\<lambda>(k, v). (k, f k v)) xs) k = map_option (f k) (map_of xs k)"
  by (induction xs) auto

lemma belief_or_lost_eq:
  "map_of d k = Some b \<Longrightarrow> belief_or_lost d k = b" "map_of d k = None \<Longrightarrow> belief_or_lost d k = BELIEF_LOST"
  by (simp_all add: belief_or_lost_def)

lemma age_metadata_frame [simp]:
  "entity_types (age_attribute_metadata fl p b s) = entity_types s"
  "entity_locations (age_attribute_metadata fl p b s) = entity_locations s"
  "entity_belief fl p b (age_attribute_metadata fl p b s) = entity_belief fl p b s"
  "location_belief fl p b (age_attribute_metadata fl p b s) = location_belief fl p b s"
  by (simp_all add: age_attribute_metadata_def entity_belief_def [abs_def] location_belief_def [abs_def])

lemma evaluated_frame [simp]:
  "entity_belief fl p b (s\<lparr>freshness_evaluated := v\<rparr>) = entity_belief fl p b s"
  "location_belief fl p b (s\<lparr>freshness_evaluated := v\<rparr>) = location_belief fl p b s"
  by (simp_all add: entity_belief_def [abs_def] location_belief_def [abs_def])

lemma aged_entity_beliefs:
  "belief_or_lost (entity_beliefs (age_world_state fl p b s)) k =
     (if k \<in> fst ` set (entity_types s) then entity_belief fl p b s k else BELIEF_LOST)"
  by (simp add: age_world_state_def Let_def belief_or_lost_def map_of_tabulate)

lemma map_of_first: "map_of xs k = (case filter (\<lambda>x. fst x = k) xs of [] \<Rightarrow> None | x # _ \<Rightarrow> Some (snd x))"
  by (induction xs) auto

lemma map_of_sort_key [simp]: "map_of (sort_key fst xs) = map_of xs"
  by (rule ext) (simp add: map_of_first sort_key_stable)

lemma aged_location_beliefs:
  "belief_or_lost (entity_location_beliefs (age_world_state fl p b s)) k =
     (case map_of (entity_locations s) k of
        None \<Rightarrow> BELIEF_LOST
      | Some l \<Rightarrow> location_belief fl p b s (entity_beliefs (age_world_state fl p b s)) (k, l))"
proof -
  let ?beliefs = "entity_beliefs (age_world_state fl p b s)"
  have "entity_location_beliefs (age_world_state fl p b s) =
      map (\<lambda>(i, l). (i, location_belief fl p b s ?beliefs (i, l))) (sort_key fst (entity_locations s))"
    by (simp add: age_world_state_def Let_def)
  then show ?thesis
    by (simp only: belief_or_lost_def map_of_mapped map_of_sort_key) (simp split: option.split)
qed

definition value_freshness :: "pyval \<Rightarrow> nat" where
  "value_freshness v =
     (if v = PyStr ''observed'' then 3 else if v = PyStr ''inferred'' then 2
      else if v = PyStr ''stale'' then 1 else 0)"

definition attribute_freshness :: "world_state \<Rightarrow> string \<Rightarrow> string \<Rightarrow> nat" where
  "attribute_freshness s entity_id key =
     (case map_of (entity_attribute_metadata s) entity_id of
        None \<Rightarrow> 0
      | Some ms \<Rightarrow> (case map_of ms key of None \<Rightarrow> 0 | Some m \<Rightarrow> value_freshness (py_get m ''belief'' PyNone)))"

lemma value_freshness_belief [simp]: "value_freshness (PyStr (belief_value b)) = freshness b"
  by (cases b) (simp_all add: value_freshness_def belief_value_def freshness_def)

lemma aged_metadata:
  "map_of (entity_attribute_metadata (age_world_state fl p b s)) i =
     map_option
       (\<lambda>ms. if i \<in> fst ` set (entity_attributes s)
             then map (\<lambda>(k, m). (k, age_metadata fl p b (opt_text (entity_types s) i) m)) ms else ms)
       (map_of (entity_attribute_metadata s) i)"
proof -
  have "entity_attribute_metadata (age_world_state fl p b s) =
      map (\<lambda>(i, ms). (i, if i \<in> fst ` set (entity_attributes s)
             then map (\<lambda>(k, m). (k, age_metadata fl p b (opt_text (entity_types s) i) m)) ms else ms))
        (entity_attribute_metadata s)"
    by (auto simp: age_world_state_def age_attribute_metadata_def Let_def)
  then show ?thesis
    by (simp only: map_of_mapped)
qed

text \<open>
  The setting of the comparison: a tightened policy and a later boundary, on a state that was observed
  before the earlier boundary.
\<close>

definition tightened_later ::
    "float_ops \<Rightarrow> freshness_policy \<Rightarrow> freshness_policy \<Rightarrow> aging_boundary \<Rightarrow> aging_boundary \<Rightarrow> int \<Rightarrow> bool" where
  "tightened_later fl p p' b b' t \<longleftrightarrow>
     faithful_rounding fl \<and> tighter p' p \<and> ab_clock_id b = WALL \<and> parse_wall_text (ab_as_of b) = Some t
     \<and> (\<exists>t'. parse_wall_text (ab_as_of b') = Some t' \<and> t \<le> t')"

lemma belief_antitone_later:
  assumes "tightened_later fl p p' b b' t" "not_after t observed_at"
  shows "freshness (belief_for_observation fl p' b' observed_at clock source entity_type)
       \<le> freshness (belief_for_observation fl p b observed_at clock source entity_type)"
  using assms unfolding tightened_later_def by (elim conjE exE) (rule belief_antitone)

lemma opt_text_not_after: "\<forall>v\<in>snd ` set d. not_after t (PyStr v) \<Longrightarrow> not_after t (opt_text d k)"
  by (auto simp: opt_text_def not_after_def parse_utc_wall_time_def split: option.split dest!: map_of_SomeD)

lemma entity_belief_antitone:
  assumes "tightened_later fl p p' b b' t" "observed_by s t"
  shows "freshness (belief_or_lost (entity_beliefs (age_world_state fl p' b' s)) k)
       \<le> freshness (belief_or_lost (entity_beliefs (age_world_state fl p b s)) k)"
  using assms
  by (simp add: aged_entity_beliefs entity_belief_def observed_by_def opt_text_not_after belief_antitone_later)

lemma location_belief_antitone:
  assumes "tightened_later fl p p' b b' t" "observed_by s t"
  shows "freshness (belief_or_lost (entity_location_beliefs (age_world_state fl p' b' s)) k)
       \<le> freshness (belief_or_lost (entity_location_beliefs (age_world_state fl p b s)) k)"
proof (cases "map_of (entity_locations s) k")
  case (Some l)
  have "freshness (case location_endpoint l of None \<Rightarrow> BELIEF_LOST
          | Some e \<Rightarrow> belief_or_lost (entity_beliefs (age_world_state fl p' b' s)) e)
      \<le> freshness (case location_endpoint l of None \<Rightarrow> BELIEF_LOST
          | Some e \<Rightarrow> belief_or_lost (entity_beliefs (age_world_state fl p b s)) e)"
    using entity_belief_antitone [OF assms] by (simp split: option.split)
  then show ?thesis
    using assms entity_belief_antitone [OF assms]
    by (simp add: aged_location_beliefs Some location_belief_def Let_def observed_by_def opt_text_not_after
        belief_antitone_later least_fresh_antitone)
qed (simp add: aged_location_beliefs)

lemma age_metadata_antitone:
  assumes "tightened_later fl p p' b b' t" "not_after t (py_get m ''observed_at'' PyNone)"
  shows "value_freshness (py_get (age_metadata fl p' b' et m) ''belief'' PyNone)
       \<le> value_freshness (py_get (age_metadata fl p b et m) ''belief'' PyNone)"
proof -
  have "freshness (if c \<and> x = BELIEF_OBSERVED then BELIEF_INFERRED else x)
      \<le> freshness (if c \<and> y = BELIEF_OBSERVED then BELIEF_INFERRED else y)"
    if "freshness x \<le> freshness y" for x y c
    using that by (cases x; cases y) (simp_all add: freshness_def)
  then show ?thesis
    using belief_antitone_later [OF assms] by (simp add: age_metadata_def Let_def py_get_def update_conv')
qed

lemma attribute_antitone:
  assumes "tightened_later fl p p' b b' t" "observed_by s t"
  shows "attribute_freshness (age_world_state fl p' b' s) i k \<le> attribute_freshness (age_world_state fl p b s) i k"
proof (cases "map_of (entity_attribute_metadata s) i")
  case ms: (Some ms)
  show ?thesis
  proof (cases "map_of ms k")
    case (Some m)
    then have "not_after t (py_get m ''observed_at'' PyNone)"
      using assms(2) ms by (force simp: observed_by_def dest!: map_of_SomeD)
    from age_metadata_antitone [OF assms(1) this] show ?thesis
      by (simp add: attribute_freshness_def aged_metadata ms map_of_mapped Some)
  qed (simp add: attribute_freshness_def aged_metadata ms map_of_mapped)
qed (simp add: attribute_freshness_def aged_metadata)

lemma location_no_fresher:
  assumes "map_of (entity_locations s) i = Some l"
  shows "freshness (belief_or_lost (entity_location_beliefs (age_world_state fl p b s)) i)
          \<le> min (freshness (belief_or_lost (entity_beliefs (age_world_state fl p b s)) i))
              (case location_endpoint l of None \<Rightarrow> 0
               | Some e \<Rightarrow> freshness (belief_or_lost (entity_beliefs (age_world_state fl p b s)) e))"
proof -
  let ?endpoint = "case location_endpoint l of None \<Rightarrow> BELIEF_LOST
      | Some e \<Rightarrow> belief_or_lost (entity_beliefs (age_world_state fl p b s)) e"
  obtain y where y: "belief_or_lost (entity_location_beliefs (age_world_state fl p b s)) i =
      least_fresh [belief_or_lost (entity_beliefs (age_world_state fl p b s)) i, ?endpoint, y]"
    by (simp only: aged_location_beliefs assms location_belief_def Let_def option.case prod.case)
  have "freshness ?endpoint = (case location_endpoint l of None \<Rightarrow> 0
      | Some e \<Rightarrow> freshness (belief_or_lost (entity_beliefs (age_world_state fl p b s)) e))"
    by (simp add: freshness_def split: option.split)
  then show ?thesis
    unfolding y min.bounded_iff by (metis least_fresh_le list.set_intros)
qed

section \<open>Properties\<close>


definition cup_state :: world_state where
  "cup_state =
     \<lparr>ws_run_id = ''run'', entity_types = [(''cup'', ''cup''), (''table'', ''table'')], entity_poses = [],
      entity_last_observed_at = [(''cup'', ''2026-01-01T00:00:00Z''), (''table'', ''2026-01-01T00:00:01.5Z'')],
      entity_observation_clock_ids = [(''cup'', ''wall''), (''table'', ''wall'')],
      entity_observation_sources = [(''cup'', ''cam''), (''table'', ''cam'')], entity_beliefs = [],
      entity_locations = [(''cup'', ''on:table'')], entity_location_evidence_refs = [],
      entity_location_last_observed_at = [(''cup'', ''2026-01-01T00:00:00Z'')],
      entity_location_clock_ids = [(''cup'', ''wall'')], entity_location_sources = [(''cup'', ''cam'')],
      entity_location_beliefs = [], entity_confidence = [], entity_attributes = [],
      entity_attribute_baselines = [], entity_attribute_metadata = [], entity_attribute_schema_versions = [],
      entity_evidence_refs = [], ws_evidence_refs = [], freshness_evaluated = False, applied_event_ids = []\<rparr>"

definition cup_policy :: freshness_policy where
  "cup_policy = \<lparr>fp_rules =
     [((''cam'', ''cup''), \<lparr>stale_after_s = 10, lost_after_s = 60\<rparr>),
      ((''cam'', ''table''), \<lparr>stale_after_s = 10, lost_after_s = 60\<rparr>)]\<rparr>"

definition cup_overrides :: freshness_rules where
  "cup_overrides = [((''cam'', ''cup''), \<lparr>stale_after_s = 5, lost_after_s = 30\<rparr>)]"

definition cup_tightened :: freshness_policy where
  "cup_tightened = \<lparr>fp_rules =
     [((''cam'', ''cup''), \<lparr>stale_after_s = 5, lost_after_s = 30\<rparr>),
      ((''cam'', ''table''), \<lparr>stale_after_s = 10, lost_after_s = 60\<rparr>)]\<rparr>"

abbreviation wall_at :: "string \<Rightarrow> aging_boundary" where
  "wall_at t \<equiv> \<lparr>ab_as_of = t, ab_clock_id = WALL\<rparr>"

lemma cup_times:
  "parse_wall_text ''2026-01-01T00:00:00Z'' = Some 63902908800000000"
  "parse_wall_text ''2026-01-01T00:00:01.5Z'' = Some 63902908801500000"
  "parse_wall_text ''2026-01-01T00:00:04Z'' = Some 63902908804000000"
  "parse_wall_text ''2026-01-01T00:00:40+00:00'' = Some 63902908840000000"
  by code_simp+


end
