(* ===== verification/Reducer.thy ===== *)
theory Reducer
  imports EventPayloads Aging
begin

text \<open>
  The reducer of the world model, after \<^verbatim>\<open>services/world_model/workbench_world_model/reducer.py\<close>: one
  event applied to the state, the preflight of an event stream, and replay.

  The text an event is compared by is the JSON text of what the model library dumps it to; the dump is
  that library's and is an argument \<open>dump\<close>, \<open>None\<close> where it raises.
\<close>

section \<open>Parts of the state\<close>

text \<open>
  \<^verbatim>\<open>xs.extend(r for r in refs if r not in xs)\<close>: the generator is read while the list grows, so that a
  reference given twice is appended once. \<^verbatim>\<open>list(dict.fromkeys(refs))\<close> is the case of an empty list.
\<close>

definition append_new :: "string list \<Rightarrow> string list \<Rightarrow> string list" where
  "append_new xs refs = fold (\<lambda>r acc. if r \<in> set acc then acc else acc @ [r]) refs xs"

definition refs_of :: "(string \<times> string list) list \<Rightarrow> string \<Rightarrow> string list" where
  "refs_of d k = (case map_of d k of None \<Rightarrow> [] | Some xs \<Rightarrow> xs)"

definition append_entity_evidence :: "string \<Rightarrow> string list \<Rightarrow> world_state \<Rightarrow> world_state" where
  "append_entity_evidence entity_id refs s =
     s\<lparr>entity_evidence_refs :=
        AList.update entity_id (append_new (refs_of (entity_evidence_refs s) entity_id) refs) (entity_evidence_refs s)\<rparr>"

definition update_location :: "string \<Rightarrow> string \<Rightarrow> string list \<Rightarrow> world_state \<Rightarrow> world_state" where
  "update_location entity_id location refs s =
     (let s' =
        (if map_of (entity_locations s) entity_id \<noteq> Some location then
           s\<lparr>entity_evidence_refs := AList.update entity_id (append_new [] refs) (entity_evidence_refs s),
             entity_location_evidence_refs :=
               AList.update entity_id (append_new [] refs) (entity_location_evidence_refs s)\<rparr>
         else
           (append_entity_evidence entity_id refs s)\<lparr>entity_location_evidence_refs :=
              AList.update entity_id (append_new (refs_of (entity_location_evidence_refs s) entity_id) refs)
                (entity_location_evidence_refs s)\<rparr>) in
      s'\<lparr>entity_locations := AList.update entity_id location (entity_locations s')\<rparr>)"

definition replace_observation_metadata ::
    "(string \<times> pyval) list \<Rightarrow> string \<Rightarrow> string \<Rightarrow> (string \<times> string) list \<Rightarrow> (string \<times> string) list" where
  "replace_observation_metadata payload field entity_id vals =
     (case map_of payload field of
        Some (PyStr v) \<Rightarrow> if py_blank v then vals else AList.update entity_id v vals
      | _ \<Rightarrow> vals)"

definition observation_is_provably_older :: "world_state \<Rightarrow> string \<Rightarrow> (string \<times> pyval) list \<Rightarrow> bool" where
  "observation_is_provably_older s entity_id payload =
     (if entity_id \<notin> fst ` set (entity_last_observed_at s) then False
      else comparable_wall_observation_is_older
             (opt_text (entity_last_observed_at s) entity_id) (opt_text (entity_observation_clock_ids s) entity_id)
             (payload_field payload ''observed_at'') (payload_field payload ''clock_id''))"

definition has_attribute_baseline :: "world_state \<Rightarrow> string \<Rightarrow> bool" where
  "has_attribute_baseline s entity_id =
     (case map_of (entity_attribute_baselines s) entity_id of
        None \<Rightarrow> entity_id \<in> fst ` set (entity_attributes s)
      | Some b \<Rightarrow> b)"

definition attribute_metadata_is_provably_older :: "(string \<times> pyval) list \<Rightarrow> (string \<times> pyval) list \<Rightarrow> bool" where
  "attribute_metadata_is_provably_older current incoming =
     comparable_wall_observation_is_older
       (payload_field current ''observed_at'') (payload_field current ''clock_id'')
       (payload_field incoming ''observed_at'') (payload_field incoming ''clock_id'')"

definition py_str :: "pyval \<Rightarrow> string option" where
  "py_str v = (case v of PyStr s \<Rightarrow> Some s | _ \<Rightarrow> None)"

definition attribute_metadata_evidence :: "metadata_map \<Rightarrow> string list" where
  "attribute_metadata_evidence metadata =
     append_new []
       (concat (map
          (\<lambda>(_, m). case py_get m ''evidence_refs'' (PyList []) of
             PyList refs \<Rightarrow> List.map_filter py_str refs
           | _ \<Rightarrow> [])
          (sort_key fst metadata)))"

section \<open>Observed attributes\<close>

definition payload_attribute_version :: "(string \<times> pyval) list \<Rightarrow> world_error + string" where
  "payload_attribute_version payload =
     (let v = py_get payload ''attributes_schema_version'' (PyStr LEGACY_ATTRIBUTE_MIGRATION_VERSION) in
      require (py_hashable v) WTypeError
        (case v of
           PyStr s \<Rightarrow>
             require (s = ATTRIBUTE_SCHEMA_VERSION \<or> s = LEGACY_ATTRIBUTE_MIGRATION_VERSION) WPayloadError (Inr s)
         | _ \<Rightarrow> Inl WPayloadError))"

text \<open>
  \<^verbatim>\<open>dict(payload[field])\<close>. Normalization leaves a dictionary there; anything else is the \<^verbatim>\<open>TypeError\<close> of
  the conversion.
\<close>

definition payload_dict :: "pyval \<Rightarrow> world_error + (string \<times> pyval) list" where
  "payload_dict v = (case v of PyDict d \<Rightarrow> Inr d | _ \<Rightarrow> Inl WTypeError)"

definition payload_metadata :: "(string \<times> pyval) list \<Rightarrow> world_error + metadata_map" where
  "payload_metadata payload =
     and_try (payload_dict (py_get payload ''attribute_metadata'' (PyDict [])))
       (traverse (\<lambda>(k, v). and_try (payload_dict v) (\<lambda>m. Inr (k, m))))"

text \<open>
  The loop over the items of a partial update: values, metadata and what was taken over. The check
  before it has found metadata for every attribute.
\<close>

definition merge_attribute ::
    "metadata_map \<Rightarrow> string \<times> string \<Rightarrow> (string \<times> string) list \<times> metadata_map \<times> metadata_map
     \<Rightarrow> (string \<times> string) list \<times> metadata_map \<times> metadata_map" where
  "merge_attribute metadata = (\<lambda>(key, val) (attributes, existing, applied).
     case map_of metadata key of
       None \<Rightarrow> (attributes, existing, applied)
     | Some incoming \<Rightarrow>
         if (case map_of existing key of
               None \<Rightarrow> False
             | Some current \<Rightarrow> attribute_metadata_is_provably_older current incoming)
         then (attributes, existing, applied)
         else (AList.update key val attributes, AList.update key incoming existing,
               AList.update key incoming applied))"

definition store_attributes ::
    "string \<Rightarrow> (string \<times> string) list \<Rightarrow> metadata_map \<Rightarrow> metadata_map \<Rightarrow> string \<Rightarrow> world_state \<Rightarrow> world_state" where
  "store_attributes entity_id attributes metadata applied version s =
     append_entity_evidence entity_id (attribute_metadata_evidence applied)
       (s\<lparr>entity_attributes := AList.update entity_id attributes (entity_attributes s),
          entity_attribute_metadata := AList.update entity_id metadata (entity_attribute_metadata s),
          entity_attribute_baselines := AList.update entity_id True (entity_attribute_baselines s),
          entity_attribute_schema_versions :=
            AList.update entity_id version (entity_attribute_schema_versions s)\<rparr>)"

definition lookup_or :: "('k \<times> 'v) list \<Rightarrow> 'k \<Rightarrow> 'v \<Rightarrow> 'v" where
  "lookup_or d k dflt = (case map_of d k of None \<Rightarrow> dflt | Some v \<Rightarrow> v)"

definition merge_attributes ::
    "string \<Rightarrow> (string \<times> string) list \<Rightarrow> metadata_map \<Rightarrow> string \<Rightarrow> pyval \<Rightarrow> world_state \<Rightarrow> world_error + world_state" where
  "merge_attributes entity_id attributes metadata version mode s =
     (if mode = PyStr ''partial'' then
        require (has_attribute_baseline s entity_id) WPayloadError
          (let (merged, merged_metadata, applied) =
                 fold (merge_attribute metadata) attributes
                   (lookup_or (entity_attributes s) entity_id [],
                    lookup_or (entity_attribute_metadata s) entity_id [], []) in
           Inr (if applied = [] then s
                else store_attributes entity_id merged merged_metadata applied
                       (lookup_or (entity_attribute_schema_versions s) entity_id version) s))
      else if mode = PyStr ''complete'' then
        Inr (store_attributes entity_id attributes metadata metadata version s)
      else Inl WPayloadError)"

definition apply_observed_attributes ::
    "float_ops \<Rightarrow> string \<Rightarrow> (string \<times> pyval) list \<Rightarrow> bool \<Rightarrow> world_state \<Rightarrow> world_error + world_state" where
  "apply_observed_attributes fl entity_id payload observation_is_older s =
     (case map_of payload ''attributes'' of
        None \<Rightarrow> Inr s
      | Some raw \<Rightarrow>
          and_try (payload_dict raw) (\<lambda>d.
          and_try (payload_attribute_version payload) (\<lambda>version.
          let mode = py_get payload ''attributes_mode'' (PyStr ''complete'');
              entity_type = (case payload_entity_type payload of
                               Some t \<Rightarrow> Some t | None \<Rightarrow> map_of (entity_types s) entity_id);
              allow_legacy = version = LEGACY_ATTRIBUTE_MIGRATION_VERSION \<and> legacy_attribute_keys_allowed entity_type in
          and_try (payload_metadata payload) (\<lambda>metadata.
          and_try (rewrap WPayloadError (validate_observed_attributes fl entity_type allow_legacy (PyDict d))) (\<lambda>attributes.
          and_try (rewrap WPayloadError
                     (validate_attribute_metadata_map fl (Some (map fst attributes)) entity_type allow_legacy
                        True True (payload_field payload ''clock_id'') (PyDict (metadata_dict metadata)))) (\<lambda>_.
          let existing_version = map_of (entity_attribute_schema_versions s) entity_id;
              conflict = existing_version \<noteq> None \<and> existing_version \<noteq> Some version;
              upgrade = existing_version = Some LEGACY_ATTRIBUTE_MIGRATION_VERSION
                        \<and> version = ATTRIBUTE_SCHEMA_VERSION in
          if conflict \<and> observation_is_older then Inr s
          else require (\<not> (conflict \<and> (mode \<noteq> PyStr ''complete'' \<or> \<not> upgrade))) WPayloadError
            (if mode = PyStr ''complete'' \<and> observation_is_older then Inr s
             else merge_attributes entity_id attributes metadata version mode s)))))))"

section \<open>One event\<close>

definition empty_state :: "string \<Rightarrow> world_state" where
  "empty_state run_id =
     \<lparr>ws_run_id = run_id, entity_types = [], entity_poses = [], entity_last_observed_at = [],
      entity_observation_clock_ids = [], entity_observation_sources = [], entity_beliefs = [],
      entity_locations = [], entity_location_evidence_refs = [], entity_location_last_observed_at = [],
      entity_location_clock_ids = [], entity_location_sources = [], entity_location_beliefs = [],
      entity_confidence = [], entity_attributes = [], entity_attribute_baselines = [],
      entity_attribute_metadata = [], entity_attribute_schema_versions = [], entity_evidence_refs = [],
      ws_evidence_refs = [], freshness_evaluated = True, applied_event_ids = []\<rparr>"

definition payload_entity_id :: "(string \<times> pyval) list \<Rightarrow> string" where
  "payload_entity_id payload = (case payload_field payload ''entity_id'' of PyStr i \<Rightarrow> i | _ \<Rightarrow> [])"

text \<open>The checks an observation must pass before the state is copied.\<close>

definition admit_observation :: "world_state \<Rightarrow> (string \<times> pyval) list \<Rightarrow> world_error + unit" where
  "admit_observation s payload =
     (let entity_id = payload_entity_id payload in
      require
        (case (payload_entity_type payload, map_of (entity_types s) entity_id) of
           (Some incoming, Some existing) \<Rightarrow> existing = ''legacy'' \<or> existing = incoming
         | _ \<Rightarrow> True) WValueError
        (require
           (\<not> (payload_field payload ''attributes_mode'' = PyStr ''partial'' \<and> \<not> has_attribute_baseline s entity_id))
           WPayloadError (Inr ())))"

text \<open>The part of an observation that a provably older one does not get to write.\<close>

definition observe_location :: "string \<Rightarrow> (string \<times> pyval) list \<Rightarrow> string list \<Rightarrow> world_state \<Rightarrow> world_state" where
  "observe_location entity_id payload refs s =
     (case payload_field payload ''location'' of
        PyStr location \<Rightarrow>
          let s' = update_location entity_id location refs s in
          s'\<lparr>entity_location_last_observed_at :=
               replace_observation_metadata payload ''observed_at'' entity_id (entity_location_last_observed_at s'),
             entity_location_clock_ids :=
               replace_observation_metadata payload ''clock_id'' entity_id (entity_location_clock_ids s'),
             entity_location_sources :=
               replace_observation_metadata payload ''source'' entity_id (entity_location_sources s'),
             entity_location_beliefs := AList.update entity_id BELIEF_OBSERVED (entity_location_beliefs s')\<rparr>
      | _ \<Rightarrow> s)"

definition observe_entity :: "string \<Rightarrow> (string \<times> pyval) list \<Rightarrow> string list \<Rightarrow> world_state \<Rightarrow> world_state" where
  "observe_entity entity_id payload refs s =
     (let s' = s\<lparr>entity_types :=
                   (case payload_entity_type payload of
                      Some t \<Rightarrow> AList.update entity_id t (entity_types s)
                    | None \<Rightarrow> AList.update entity_id (lookup_or (entity_types s) entity_id ''legacy'') (entity_types s)),
                 entity_poses :=
                   (case map_of payload ''pose'' of
                      None \<Rightarrow> entity_poses s
                    | Some v \<Rightarrow> AList.update entity_id v (entity_poses s)),
                 entity_last_observed_at :=
                   replace_observation_metadata payload ''observed_at'' entity_id (entity_last_observed_at s),
                 entity_observation_clock_ids :=
                   replace_observation_metadata payload ''clock_id'' entity_id (entity_observation_clock_ids s),
                 entity_observation_sources :=
                   replace_observation_metadata payload ''source'' entity_id (entity_observation_sources s),
                 entity_beliefs := AList.update entity_id BELIEF_OBSERVED (entity_beliefs s)\<rparr> in
      (observe_location entity_id payload refs s')\<lparr>entity_confidence :=
         AList.update entity_id (payload_field payload ''confidence'') (entity_confidence s)\<rparr>)"

definition apply_observation ::
    "float_ops \<Rightarrow> (string \<times> pyval) list \<Rightarrow> string list \<Rightarrow> world_state \<Rightarrow> world_state \<Rightarrow> world_error + world_state" where
  "apply_observation fl payload refs s next_state =
     (let entity_id = payload_entity_id payload;
          fresh = (if ''entity_type'' \<in> fst ` set payload then next_state\<lparr>freshness_evaluated := False\<rparr> else next_state);
          older = observation_is_provably_older s entity_id payload;
          observed = (if older then fresh else observe_entity entity_id payload refs fresh) in
      and_try (apply_observed_attributes fl entity_id payload older observed) (\<lambda>s'.
        Inr (if \<not> older \<and> payload_field payload ''location'' = PyNone
             then append_entity_evidence entity_id refs s' else s')))"

definition apply_event :: "float_ops \<Rightarrow> world_state \<Rightarrow> world_event \<Rightarrow> world_error + world_state" where
  "apply_event fl s raw =
     and_try (normalize_world_event fl None raw) (\<lambda>event.
     if we_event_id event \<in> set (applied_event_ids s) then Inr s
     else
       let next_state = s\<lparr>applied_event_ids := applied_event_ids s @ [we_event_id event],
                          ws_evidence_refs := ws_evidence_refs s @ we_evidence_refs event\<rparr> in
       if we_event_type event = EV_OBSERVATION then
         and_try (admit_observation s (we_payload event)) (\<lambda>_.
           apply_observation fl (we_payload event) (we_evidence_refs event) s next_state)
       else Inr next_state)"

section \<open>Streams\<close>

definition canonical_event_content ::
    "float_ops \<Rightarrow> (world_event \<Rightarrow> pyval option) \<Rightarrow> world_event \<Rightarrow> world_error + string" where
  "canonical_event_content fl dump event =
     (case dump event of
        None \<Rightarrow> Inl WValueError
      | Some v \<Rightarrow> (case json_dumps fl v of None \<Rightarrow> Inl WValueError | Some t \<Rightarrow> Inr t))"

record stream_check =
  content_by_event_id :: "(string \<times> string) list"
  event_id_by_sequence :: "(int \<times> string) list"
  entity_type_by_entity_id :: "(string \<times> string) list"
  unique_events :: "world_event list"

definition new_check :: stream_check where
  "new_check = \<lparr>content_by_event_id = [], event_id_by_sequence = [], entity_type_by_entity_id = [],
                unique_events = []\<rparr>"

text \<open>The entity and the type that a modern observation declares.\<close>

definition declared_type :: "world_event \<Rightarrow> (string \<times> string) option" where
  "declared_type event =
     (if we_event_type event = EV_OBSERVATION
      then map_option (Pair (payload_entity_id (we_payload event))) (payload_entity_type (we_payload event))
      else None)"

definition check_event ::
    "float_ops \<Rightarrow> (world_event \<Rightarrow> pyval option) \<Rightarrow> stream_check \<Rightarrow> world_event \<Rightarrow> world_error + stream_check" where
  "check_event fl dump st event =
     and_try (canonical_event_content fl dump event) (\<lambda>content.
     case map_of (content_by_event_id st) (we_event_id event) of
       Some previous \<Rightarrow> require (previous = content) WValueError (Inr st)
     | None \<Rightarrow>
         require (map_of (event_id_by_sequence st) (we_sequence_no event) = None) WValueError
         (require
            (case declared_type event of
               None \<Rightarrow> True
             | Some (i, t) \<Rightarrow>
                 (case map_of (entity_type_by_entity_id st) i of None \<Rightarrow> True | Some t' \<Rightarrow> t' = t)) WValueError
         (Inr \<lparr>content_by_event_id = AList.update (we_event_id event) content (content_by_event_id st),
               event_id_by_sequence = AList.update (we_sequence_no event) (we_event_id event) (event_id_by_sequence st),
               entity_type_by_entity_id =
                 (case declared_type event of
                    None \<Rightarrow> entity_type_by_entity_id st
                  | Some (i, t) \<Rightarrow> AList.update i t (entity_type_by_entity_id st)),
               unique_events = unique_events st @ [event]\<rparr>)))"

definition check_candidate ::
    "float_ops \<Rightarrow> (world_event \<Rightarrow> pyval option) \<Rightarrow> string \<Rightarrow> stream_check \<Rightarrow> world_event \<Rightarrow> world_error + stream_check" where
  "check_candidate fl dump run_id st candidate =
     require (we_run_id candidate = run_id) WValueError
       (and_try (normalize_world_event fl None candidate) (check_event fl dump st))"

text \<open>A partial update needs an earlier complete one of the same entity.\<close>

definition check_baseline :: "string list \<Rightarrow> world_event \<Rightarrow> world_error + string list" where
  "check_baseline baselines event =
     (if we_event_type event \<noteq> EV_OBSERVATION \<or> ''attributes'' \<notin> fst ` set (we_payload event) then Inr baselines
      else
        let entity_id = payload_entity_id (we_payload event);
            mode = py_get (we_payload event) ''attributes_mode'' (PyStr ''complete'') in
        require (\<not> (mode = PyStr ''partial'' \<and> entity_id \<notin> set baselines)) WPayloadError
          (Inr (if mode = PyStr ''complete'' then entity_id # baselines else baselines)))"

definition validated_event_stream ::
    "float_ops \<Rightarrow> (world_event \<Rightarrow> pyval option) \<Rightarrow> string \<Rightarrow> world_event list \<Rightarrow> world_error + world_event list" where
  "validated_event_stream fl dump run_id events =
     require (run_id \<noteq> []) WValueError
       (and_try (try_fold (check_candidate fl dump run_id) new_check events) (\<lambda>st.
        let ordered_events = sort_key we_sequence_no (unique_events st) in
        and_try (try_fold check_baseline [] ordered_events) (\<lambda>_. Inr ordered_events)))"

definition apply_aging_boundary ::
    "float_ops \<Rightarrow> freshness_policy option \<Rightarrow> aging_boundary option \<Rightarrow> world_state \<Rightarrow> world_error + world_state" where
  "apply_aging_boundary fl policy boundary s =
     (case (policy, boundary) of
        (None, None) \<Rightarrow> Inr s
      | (Some p, Some b) \<Rightarrow> Inr (age_world_state fl p b s)
      | _ \<Rightarrow> Inl WValueError)"

definition reduce_events ::
    "float_ops \<Rightarrow> (world_event \<Rightarrow> pyval option) \<Rightarrow> string \<Rightarrow> world_event list \<Rightarrow> freshness_policy option
     \<Rightarrow> aging_boundary option \<Rightarrow> world_error + world_state" where
  "reduce_events fl dump run_id events policy boundary =
     and_try (validated_event_stream fl dump run_id events) (\<lambda>ordered_events.
     and_try (try_fold (apply_event fl) (empty_state run_id) ordered_events)
       (apply_aging_boundary fl policy boundary))"

section \<open>The preflight as a condition on the set of events\<close>

text \<open>
  The loop of the preflight accepts a stream exactly when its normalized events agree pairwise, and it
  keeps one event for each id. Neither depends on the order or the number of deliveries, provided an
  event is determined by its id and its content.
\<close>

definition compatible :: "float_ops \<Rightarrow> (world_event \<Rightarrow> pyval option) \<Rightarrow> world_event \<Rightarrow> world_event \<Rightarrow> bool" where
  "compatible fl dump a b \<longleftrightarrow>
     (if we_event_id a = we_event_id b
      then canonical_event_content fl dump a = canonical_event_content fl dump b
      else we_sequence_no a \<noteq> we_sequence_no b)
     \<and> (\<forall>i t t'. declared_type a = Some (i, t) \<longrightarrow> declared_type b = Some (i, t') \<longrightarrow> t = t')"

definition agreeing :: "float_ops \<Rightarrow> (world_event \<Rightarrow> pyval option) \<Rightarrow> world_event set \<Rightarrow> bool" where
  "agreeing fl dump Q \<longleftrightarrow>
     (\<forall>a\<in>Q. \<exists>c. canonical_event_content fl dump a = Inr c) \<and> (\<forall>a\<in>Q. \<forall>b\<in>Q. compatible fl dump a b)"

definition determined :: "float_ops \<Rightarrow> (world_event \<Rightarrow> pyval option) \<Rightarrow> world_event set \<Rightarrow> bool" where
  "determined fl dump Q \<longleftrightarrow>
     (\<forall>a\<in>Q. \<forall>b\<in>Q. we_event_id a = we_event_id b
        \<longrightarrow> canonical_event_content fl dump a = canonical_event_content fl dump b \<longrightarrow> a = b)"

text \<open>What the three dictionaries and the list of the loop hold after the events \<open>Q\<close>.\<close>

definition checked :: "float_ops \<Rightarrow> (world_event \<Rightarrow> pyval option) \<Rightarrow> world_event set \<Rightarrow> stream_check \<Rightarrow> bool" where
  "checked fl dump Q st \<longleftrightarrow>
     set (unique_events st) = Q \<and> distinct (map we_event_id (unique_events st))
     \<and> (\<forall>i c. map_of (content_by_event_id st) i = Some c
          \<longleftrightarrow> (\<exists>a\<in>Q. we_event_id a = i \<and> canonical_event_content fl dump a = Inr c))
     \<and> (\<forall>n. map_of (event_id_by_sequence st) n = None \<longleftrightarrow> (\<forall>a\<in>Q. we_sequence_no a \<noteq> n))
     \<and> (\<forall>i t. map_of (entity_type_by_entity_id st) i = Some t \<longleftrightarrow> (\<exists>a\<in>Q. declared_type a = Some (i, t)))"

lemma checked_empty: "checked fl dump {} new_check"
  by (simp add: checked_def new_check_def)

lemma checked_content:
  assumes "checked fl dump Q st"
  shows "map_of (content_by_event_id st) i = Some c
     \<longleftrightarrow> (\<exists>a\<in>Q. we_event_id a = i \<and> canonical_event_content fl dump a = Inr c)"
  using assms by (simp add: checked_def)

lemma checked_fresh:
  assumes "checked fl dump Q st" "agreeing fl dump Q" "map_of (content_by_event_id st) i = None" "a \<in> Q"
  shows "we_event_id a \<noteq> i"
proof
  assume "we_event_id a = i"
  moreover obtain c where "canonical_event_content fl dump a = Inr c"
    using assms(2,4) by (auto simp: agreeing_def)
  ultimately have "map_of (content_by_event_id st) i = Some c"
    using assms(1,4) checked_content by blast
  with assms(3) show False
    by simp
qed

text \<open>An event with an id that was seen before.\<close>

lemma check_seen:
  assumes inv: "checked fl dump Q st" and agree: "agreeing fl dump Q" and det: "determined fl dump (insert n Q)"
    and a: "a \<in> Q" "we_event_id a = we_event_id n"
  shows "check_event fl dump st n = Inr st' \<longleftrightarrow> agreeing fl dump (insert n Q) \<and> st' = st \<and> n \<in> Q"
proof -
  obtain c where c: "canonical_event_content fl dump a = Inr c"
    using agree a(1) by (auto simp: agreeing_def)
  then have seen: "map_of (content_by_event_id st) (we_event_id n) = Some c"
    using checked_content [OF inv] a by blast
  show ?thesis
  proof (cases "canonical_event_content fl dump n = Inr c")
    case True
    then have "a = n"
      using det a c by (auto simp: determined_def)
    then show ?thesis
      using True seen agree a(1) by (auto simp: check_event_def require_def insert_absorb)
  next
    case False
    then have "\<not> compatible fl dump n a"
      using c a(2) by (simp add: compatible_def)
    then have "\<not> agreeing fl dump (insert n Q)"
      using a(1) by (auto simp: agreeing_def)
    moreover have "check_event fl dump st n \<noteq> Inr st'"
      using False seen by (auto simp: check_event_def and_try_Inr require_Inr)
    ultimately show ?thesis
      by blast
  qed
qed

lemma compatible_refl: "compatible fl dump a a"
  by (simp add: compatible_def)

lemma compatible_sym: "compatible fl dump a b \<longleftrightarrow> compatible fl dump b a"
  by (auto simp: compatible_def)

lemma agreeing_insert:
  "agreeing fl dump (insert n Q) \<longleftrightarrow>
     agreeing fl dump Q \<and> (\<exists>c. canonical_event_content fl dump n = Inr c) \<and> (\<forall>a\<in>Q. compatible fl dump n a)"
  using compatible_refl [of fl dump n] compatible_sym [of fl dump n] unfolding agreeing_def by blast

definition add_unique :: "world_event \<Rightarrow> string \<Rightarrow> stream_check \<Rightarrow> stream_check" where
  "add_unique event content st =
     \<lparr>content_by_event_id = AList.update (we_event_id event) content (content_by_event_id st),
      event_id_by_sequence = AList.update (we_sequence_no event) (we_event_id event) (event_id_by_sequence st),
      entity_type_by_entity_id =
        (case declared_type event of
           None \<Rightarrow> entity_type_by_entity_id st
         | Some (i, t) \<Rightarrow> AList.update i t (entity_type_by_entity_id st)),
      unique_events = unique_events st @ [event]\<rparr>"

lemma check_new_iff:
  assumes "map_of (content_by_event_id st) (we_event_id n) = None"
  shows "check_event fl dump st n = Inr st' \<longleftrightarrow>
     (\<exists>c. canonical_event_content fl dump n = Inr c \<and> st' = add_unique n c st)
     \<and> map_of (event_id_by_sequence st) (we_sequence_no n) = None
     \<and> (\<forall>i t t'. declared_type n = Some (i, t) \<longrightarrow> map_of (entity_type_by_entity_id st) i = Some t' \<longrightarrow> t' = t)"
  using assms
  by (auto simp: check_event_def add_unique_def and_try_Inr require_Inr split: option.splits)

lemma check_new:
  assumes inv: "checked fl dump Q st" and agree: "agreeing fl dump Q"
    and new: "\<forall>a\<in>Q. we_event_id a \<noteq> we_event_id n"
  shows "check_event fl dump st n = Inr st' \<longleftrightarrow>
     agreeing fl dump (insert n Q) \<and> (\<exists>c. canonical_event_content fl dump n = Inr c \<and> st' = add_unique n c st)"
proof -
  have none: "map_of (content_by_event_id st) (we_event_id n) = None"
    using checked_content [OF inv] new by (metis not_None_eq)
  have seqs: "map_of (event_id_by_sequence st) (we_sequence_no n) = None \<longleftrightarrow> (\<forall>a\<in>Q. we_sequence_no a \<noteq> we_sequence_no n)"
    using inv by (simp add: checked_def)
  have types: "map_of (entity_type_by_entity_id st) i = Some t \<longleftrightarrow> (\<exists>a\<in>Q. declared_type a = Some (i, t))" for i t
    using inv by (simp add: checked_def)
  have "compatible fl dump n a \<longleftrightarrow> we_sequence_no a \<noteq> we_sequence_no n
      \<and> (\<forall>i t t'. declared_type n = Some (i, t) \<longrightarrow> declared_type a = Some (i, t') \<longrightarrow> t' = t)" if "a \<in> Q" for a
    using new that by (auto simp: compatible_def)
  then have "(\<forall>a\<in>Q. compatible fl dump n a) \<longleftrightarrow> (\<forall>a\<in>Q. we_sequence_no a \<noteq> we_sequence_no n)
      \<and> (\<forall>i t t'. declared_type n = Some (i, t) \<longrightarrow> (\<exists>a\<in>Q. declared_type a = Some (i, t')) \<longrightarrow> t' = t)"
    by blast
  then show ?thesis
    unfolding check_new_iff [OF none] seqs types agreeing_insert using agree by blast
qed

lemma checked_add:
  assumes inv: "checked fl dump Q st" and agree: "agreeing fl dump (insert n Q)"
    and new: "\<forall>a\<in>Q. we_event_id a \<noteq> we_event_id n" and c: "canonical_event_content fl dump n = Inr c"
  shows "checked fl dump (insert n Q) (add_unique n c st)"
proof -
  have types: "t = t'" if "a \<in> Q" "declared_type a = Some (i, t)" "declared_type n = Some (i, t')" for a i t t'
    using agree that unfolding agreeing_insert compatible_def by blast
  have "map_of (entity_type_by_entity_id (add_unique n c st)) i = Some t
      \<longleftrightarrow> (\<exists>a\<in>insert n Q. declared_type a = Some (i, t))" for i t
  proof (cases "declared_type n")
    case None
    then show ?thesis
      using inv by (simp add: checked_def add_unique_def)
  next
    case (Some d)
    then obtain j u where d: "declared_type n = Some (j, u)"
      by (cases d) simp
    then show ?thesis
      using inv types by (cases "i = j") (auto simp: checked_def add_unique_def update_conv')
  qed
  moreover have "map_of (content_by_event_id (add_unique n c st)) i = Some c'
      \<longleftrightarrow> (\<exists>a\<in>insert n Q. we_event_id a = i \<and> canonical_event_content fl dump a = Inr c')" for i c'
    using checked_content [OF inv] new c by (cases "i = we_event_id n") (auto simp: add_unique_def update_conv')
  moreover have "map_of (event_id_by_sequence (add_unique n c st)) q = None
      \<longleftrightarrow> (\<forall>a\<in>insert n Q. we_sequence_no a \<noteq> q)" for q
    using inv by (auto simp: checked_def add_unique_def update_conv')
  moreover have "set (unique_events (add_unique n c st)) = insert n Q"
    "distinct (map we_event_id (unique_events (add_unique n c st)))"
    using inv new by (auto simp: checked_def add_unique_def)
  ultimately show ?thesis
    unfolding checked_def by blast
qed

lemma check_event_step:
  assumes "checked fl dump Q st" "agreeing fl dump Q" "determined fl dump (insert n Q)"
  shows "(\<exists>st'. check_event fl dump st n = Inr st') \<longleftrightarrow> agreeing fl dump (insert n Q)"
    and "check_event fl dump st n = Inr st' \<Longrightarrow> checked fl dump (insert n Q) st'"
proof -
  have "((\<exists>st'. check_event fl dump st n = Inr st') \<longleftrightarrow> agreeing fl dump (insert n Q))
      \<and> (\<forall>st'. check_event fl dump st n = Inr st' \<longrightarrow> checked fl dump (insert n Q) st')"
  proof (cases "\<exists>a\<in>Q. we_event_id a = we_event_id n")
    case True
    then obtain a where a: "a \<in> Q" "we_event_id a = we_event_id n"
      by blast
    have mem: "n \<in> Q" if "agreeing fl dump (insert n Q)"
    proof -
      have "compatible fl dump n a"
        using that a(1) by (simp add: agreeing_insert)
      then have "canonical_event_content fl dump n = canonical_event_content fl dump a"
        using a(2) by (simp add: compatible_def)
      then have "n = a"
        using assms(3) a by (simp add: determined_def)
      then show ?thesis
        using a(1) by simp
    qed
    have "checked fl dump (insert n Q) st" if "n \<in> Q"
      using assms(1) that by (simp add: insert_absorb)
    then show ?thesis
      using mem unfolding check_seen [OF assms a] by blast
  next
    case False
    then have new: "\<forall>a\<in>Q. we_event_id a \<noteq> we_event_id n"
      by blast
    have "\<exists>c. canonical_event_content fl dump n = Inr c" if "agreeing fl dump (insert n Q)"
      using that by (simp add: agreeing_insert)
    then show ?thesis
      using checked_add [OF assms(1) _ new] unfolding check_new [OF assms(1,2) new] by blast
  qed
  then show "(\<exists>st'. check_event fl dump st n = Inr st') \<longleftrightarrow> agreeing fl dump (insert n Q)"
    and "check_event fl dump st n = Inr st' \<Longrightarrow> checked fl dump (insert n Q) st'"
    by blast+
qed

lemma determined_subset: "determined fl dump Q \<Longrightarrow> P \<subseteq> Q \<Longrightarrow> determined fl dump P"
  unfolding determined_def by blast

lemma agreeing_subset: "agreeing fl dump Q \<Longrightarrow> P \<subseteq> Q \<Longrightarrow> agreeing fl dump P"
  unfolding agreeing_def by blast

lemma check_events:
  assumes "checked fl dump Q st" "agreeing fl dump Q" "determined fl dump (Q \<union> set ns)"
  shows "((\<exists>st'. try_fold (check_event fl dump) st ns = Inr st') \<longleftrightarrow> agreeing fl dump (Q \<union> set ns))
       \<and> (\<forall>st'. try_fold (check_event fl dump) st ns = Inr st' \<longrightarrow> checked fl dump (Q \<union> set ns) st')"
  using assms
proof (induction ns arbitrary: Q st)
  case (Cons n ns)
  have det: "determined fl dump (insert n Q)"
    using Cons.prems(3) by (rule determined_subset) auto
  note step = check_event_step [OF Cons.prems(1,2) det]
  show ?case
  proof (cases "check_event fl dump st n")
    case (Inl e)
    then have "\<not> agreeing fl dump (insert n Q)"
      using step(1) by simp
    then show ?thesis
      using Inl agreeing_subset [of fl dump "Q \<union> set (n # ns)" "insert n Q"] by auto
  next
    case (Inr st1)
    then have "agreeing fl dump (insert n Q)" "checked fl dump (insert n Q) st1"
      using step by blast+
    from Cons.IH [OF this(2,1)] show ?thesis
      using Cons.prems(3) Inr by simp
  qed
qed simp

lemma ex_list_all2_Cons:
  "(\<exists>ys. list_all2 R (x # xs) ys \<and> P ys) \<longleftrightarrow> (\<exists>y ys. R x y \<and> list_all2 R xs ys \<and> P (y # ys))"
  unfolding list_all2_Cons1 by blast

lemma check_candidates_iff:
  "try_fold (check_candidate fl dump run_id) st evs = Inr st' \<longleftrightarrow>
     (\<exists>ns. list_all2 (\<lambda>e n. we_run_id e = run_id \<and> normalize_world_event fl None e = Inr n) evs ns
        \<and> try_fold (check_event fl dump) st ns = Inr st')"
proof (induction evs arbitrary: st)
  case (Cons e evs)
  have "try_fold (check_candidate fl dump run_id) st (e # evs) = Inr st' \<longleftrightarrow>
      (\<exists>n. we_run_id e = run_id \<and> normalize_world_event fl None e = Inr n
         \<and> (\<exists>st1. check_event fl dump st n = Inr st1 \<and> try_fold (check_candidate fl dump run_id) st1 evs = Inr st'))"
    by (auto simp: check_candidate_def and_try_Inr require_Inr)
  then show ?case
    unfolding Cons.IH ex_list_all2_Cons by (auto simp: and_try_Inr)
qed simp

definition normalized_events :: "float_ops \<Rightarrow> world_event set \<Rightarrow> world_event set" where
  "normalized_events fl E = {n. \<exists>e\<in>E. normalize_world_event fl None e = Inr n}"

text \<open>The events of \<open>ns\<close> in the order of their sequence numbers, which are all different.\<close>

definition in_sequence :: "world_event set \<Rightarrow> world_event list \<Rightarrow> bool" where
  "in_sequence Q evs \<longleftrightarrow>
     set evs = Q \<and> sorted (map we_sequence_no evs) \<and> distinct (map we_sequence_no evs)"

lemma in_sequence_unique: "in_sequence Q xs \<Longrightarrow> in_sequence Q ys \<Longrightarrow> xs = ys"
  unfolding in_sequence_def
  by (rule map_sorted_distinct_set_unique [of we_sequence_no]) (auto simp: distinct_map)

lemma checked_in_sequence:
  assumes "checked fl dump Q st" "agreeing fl dump Q"
  shows "in_sequence Q (sort_key we_sequence_no (unique_events st))"
proof -
  have uniq: "set (unique_events st) = Q" "distinct (map we_event_id (unique_events st))"
    using assms(1) by (simp_all add: checked_def)
  have "inj_on we_sequence_no Q"
  proof (rule inj_onI)
    fix a b assume "a \<in> Q" "b \<in> Q" "we_sequence_no a = we_sequence_no b"
    then have "we_event_id a = we_event_id b"
      using assms(2) unfolding agreeing_def compatible_def by metis
    then show "a = b"
      using uniq \<open>a \<in> Q\<close> \<open>b \<in> Q\<close> by (metis distinct_map inj_onD)
  qed
  then show ?thesis
    using uniq by (simp add: in_sequence_def distinct_map)
qed

lemma list_all2_set:
  assumes "list_all2 (\<lambda>e n. P e \<and> f e = Inr n) es ns"
  shows "set ns = {n. \<exists>e\<in>set es. f e = Inr n}" "\<forall>e\<in>set es. P e \<and> (\<exists>n. f e = Inr n)"
  using assms by (induction rule: list_all2_induct) auto

lemma list_all2_exists:
  assumes "\<forall>e\<in>set es. P e \<and> (\<exists>n. f e = Inr n)"
  shows "\<exists>ns. list_all2 (\<lambda>e n. P e \<and> f e = Inr n) es ns"
  using assms
proof (induction es)
  case (Cons e es)
  then obtain n ns where "P e" "f e = Inr n" "list_all2 (\<lambda>e n. P e \<and> f e = Inr n) es ns"
    by auto
  then show ?case
    by (intro exI [of _ "n # ns"]) simp
qed (rule exI [of _ "[]"], simp)

text \<open>
  The preflight accepts exactly the streams whose events belong to the run, can be normalized, agree
  pairwise and have a baseline for every partial update; it returns their normalized events in the
  order of their sequence numbers. The right-hand side depends on the set of events only.
\<close>

lemma validated_event_stream_iff:
  assumes det: "determined fl dump (normalized_events fl (set evs))"
  shows "validated_event_stream fl dump run_id evs = Inr os \<longleftrightarrow>
     run_id \<noteq> [] \<and> (\<forall>e\<in>set evs. we_run_id e = run_id \<and> (\<exists>n. normalize_world_event fl None e = Inr n))
     \<and> agreeing fl dump (normalized_events fl (set evs)) \<and> in_sequence (normalized_events fl (set evs)) os
     \<and> (\<exists>bs. try_fold check_baseline [] os = Inr bs)" (is "?lhs \<longleftrightarrow> ?rhs")
proof
  let ?Q = "normalized_events fl (set evs)"
  have fold: "((\<exists>st. try_fold (check_event fl dump) new_check ns = Inr st) \<longleftrightarrow> agreeing fl dump ?Q)
      \<and> (\<forall>st. try_fold (check_event fl dump) new_check ns = Inr st \<longrightarrow> checked fl dump ?Q st)"
    if "set ns = ?Q" for ns
    using check_events [OF checked_empty, of fl dump ns] det that by (simp add: agreeing_def)
  show ?rhs if accepted: ?lhs
  proof -
    obtain st ns bs where ns: "list_all2 (\<lambda>e n. we_run_id e = run_id \<and> normalize_world_event fl None e = Inr n) evs ns"
      and st: "try_fold (check_event fl dump) new_check ns = Inr st"
      and os: "os = sort_key we_sequence_no (unique_events st)" "try_fold check_baseline [] os = Inr bs" "run_id \<noteq> []"
      using accepted by (auto simp: validated_event_stream_def check_candidates_iff and_try_Inr require_Inr Let_def)
    note events = list_all2_set [OF ns]
    have Q: "set ns = ?Q"
      using events(1) by (simp add: normalized_events_def)
    show ?thesis
      using fold [OF Q] st os events(2) checked_in_sequence by blast
  qed
  show ?lhs if accepted: ?rhs
  proof -
    obtain ns where ns: "list_all2 (\<lambda>e n. we_run_id e = run_id \<and> normalize_world_event fl None e = Inr n) evs ns"
      using accepted list_all2_exists [of evs "\<lambda>e. we_run_id e = run_id" "normalize_world_event fl None"] by blast
    have Q: "set ns = ?Q"
      using list_all2_set(1) [OF ns] by (simp add: normalized_events_def)
    obtain st where st: "try_fold (check_event fl dump) new_check ns = Inr st"
      using fold [OF Q] accepted by blast
    then have "in_sequence ?Q (sort_key we_sequence_no (unique_events st))"
      using fold [OF Q] accepted checked_in_sequence by blast
    then have "os = sort_key we_sequence_no (unique_events st)"
      using accepted in_sequence_unique by blast
    moreover have "try_fold (check_candidate fl dump run_id) new_check evs = Inr st"
      using ns st check_candidates_iff by blast
    ultimately show ?thesis
      using accepted by (auto simp: validated_event_stream_def require_def Let_def)
  qed
qed

lemma reduce_events_set:
  assumes "set evs' = set evs" "determined fl dump (normalized_events fl (set evs))"
    and "reduce_events fl dump run_id evs policy boundary = Inr s"
  shows "reduce_events fl dump run_id evs' policy boundary = Inr s"
proof -
  obtain os where os: "validated_event_stream fl dump run_id evs = Inr os"
    using assms(3) by (auto simp: reduce_events_def and_try_Inr)
  then have "validated_event_stream fl dump run_id evs' = Inr os"
    using assms(1,2) validated_event_stream_iff [of fl dump evs run_id os]
      validated_event_stream_iff [of fl dump evs' run_id os] by simp
  then show ?thesis
    using assms(3) os by (simp add: reduce_events_def)
qed

section \<open>The newest observation\<close>

definition observes :: "string \<Rightarrow> world_event \<Rightarrow> bool" where
  "observes i n \<longleftrightarrow> we_event_type n = EV_OBSERVATION \<and> payload_entity_id (we_payload n) = i"

text \<open>The time an observation can be compared by.\<close>

definition wall_time :: "world_event \<Rightarrow> int option" where
  "wall_time n =
     (if payload_field (we_payload n) ''clock_id'' = PyStr ''wall''
      then parse_utc_wall_time (payload_field (we_payload n) ''observed_at'') else None)"

text \<open>The entity state shows the time, the clock and the confidence of observation \<open>n\<close>.\<close>

definition shows_observation :: "string \<Rightarrow> world_event \<Rightarrow> world_state \<Rightarrow> bool" where
  "shows_observation i n s \<longleftrightarrow>
     opt_text (entity_last_observed_at s) i = payload_field (we_payload n) ''observed_at''
     \<and> opt_text (entity_observation_clock_ids s) i = payload_field (we_payload n) ''clock_id''
     \<and> map_of (entity_confidence s) i = Some (payload_field (we_payload n) ''confidence'')
     \<and> (\<forall>t. payload_entity_type (we_payload n) = Some t \<longrightarrow> map_of (entity_types s) i = Some t)
     \<and> (\<forall>v. map_of (we_payload n) ''pose'' = Some v \<longrightarrow> map_of (entity_poses s) i = Some v)"

text \<open>The part of the state that belongs to the observation of an entity as such.\<close>

definition same_observation :: "string \<Rightarrow> world_state \<Rightarrow> world_state \<Rightarrow> bool" where
  "same_observation i s s' \<longleftrightarrow>
     map_of (entity_last_observed_at s') i = map_of (entity_last_observed_at s) i
     \<and> map_of (entity_observation_clock_ids s') i = map_of (entity_observation_clock_ids s) i
     \<and> map_of (entity_confidence s') i = map_of (entity_confidence s) i
     \<and> map_of (entity_types s') i = map_of (entity_types s) i
     \<and> map_of (entity_poses s') i = map_of (entity_poses s) i
     \<and> applied_event_ids s' = applied_event_ids s"

lemma same_observation_trans:
  "same_observation i s s' \<Longrightarrow> same_observation i s' s'' \<Longrightarrow> same_observation i s s''"
  by (simp add: same_observation_def)

lemma same_observation_shows: "same_observation i s s' \<Longrightarrow> shows_observation i n s' \<longleftrightarrow> shows_observation i n s"
  by (simp add: same_observation_def shows_observation_def opt_text_def)

lemma append_evidence_same: "same_observation i s (append_entity_evidence j refs s)"
  by (simp add: same_observation_def append_entity_evidence_def)

lemma store_attributes_same: "same_observation i s (store_attributes j attrs md applied v s)"
  by (simp add: same_observation_def store_attributes_def append_entity_evidence_def)

lemma merge_attributes_same:
  "merge_attributes j attrs md v mode s = Inr s' \<Longrightarrow> same_observation i s s'"
  using store_attributes_same
  by (auto simp: merge_attributes_def require_Inr Let_def same_observation_def split: if_splits prod.splits)

lemma apply_observed_attributes_same:
  assumes "apply_observed_attributes fl j payload older s = Inr s'"
  shows "same_observation i s s'"
proof -
  have refl: "same_observation i s s"
    by (simp add: same_observation_def)
  show ?thesis
  proof (cases "map_of payload ''attributes''")
    case (Some raw)
    then obtain attrs md v mode where "s' = s \<or> merge_attributes j attrs md v mode s = Inr s'"
      using assms unfolding apply_observed_attributes_def Let_def
      by (auto simp: and_try_Inr require_Inr split: if_splits)
    then show ?thesis
      using refl merge_attributes_same by blast
  qed (use assms refl in \<open>simp add: apply_observed_attributes_def\<close>)
qed

lemma observe_location_same: "same_observation i s (observe_location j payload refs s)"
  by (simp add: observe_location_def same_observation_def update_location_def append_entity_evidence_def Let_def
      split: pyval.split)

lemma observe_entity_other:
  assumes "j \<noteq> i"
  shows "same_observation i s (observe_entity j payload refs s)"
proof -
  have replace: "map_of (replace_observation_metadata payload f j d) i = map_of d i" for f d
    using assms by (simp add: replace_observation_metadata_def update_conv' split: option.split pyval.split)
  show ?thesis
    using assms observe_location_same
    by (simp add: observe_entity_def Let_def same_observation_def update_conv' replace split: option.split)
qed

lemma observe_entity_applied [simp]: "applied_event_ids (observe_entity j payload refs s) = applied_event_ids s"
  using observe_location_same by (simp add: observe_entity_def Let_def same_observation_def)

lemma digit_not_space: "json_digit c \<Longrightarrow> \<not> py_isspace c"
  by (simp add: json_digit_def py_isspace_def Let_def)

lemma wall_text_not_blank:
  assumes "parse_wall_text s = Some t"
  shows "\<not> py_blank s"
proof
  assume blank: "py_blank s"
  obtain y r where "read_digits 4 s = Some (y, r)"
    using assms by (auto simp: parse_wall_text_def split: Option.bind_splits)
  then have "length (take 4 s) = 4" "list_all json_digit (take 4 s)"
    by (auto simp: read_digits_def Let_def split: if_splits)
  then obtain c where "c \<in> set (take 4 s)" "json_digit c"
    by (cases "take 4 s") auto
  then show False
    using blank digit_not_space in_set_takeD unfolding py_blank_iff by metis
qed

lemma wall_time_Some:
  assumes "wall_time n = Some t"
  obtains x where "map_of (we_payload n) ''observed_at'' = Some (PyStr x)" "\<not> py_blank x"
    "map_of (we_payload n) ''clock_id'' = Some (PyStr ''wall'')" "parse_wall_text x = Some t"
proof -
  have clock: "payload_field (we_payload n) ''clock_id'' = PyStr ''wall''"
    and time: "parse_utc_wall_time (payload_field (we_payload n) ''observed_at'') = Some t"
    using assms by (simp_all add: wall_time_def split: if_splits)
  obtain x where x: "payload_field (we_payload n) ''observed_at'' = PyStr x" "parse_wall_text x = Some t"
    using time by (auto simp: parse_utc_wall_time_def split: pyval.splits)
  show thesis
    using that [of x] x clock wall_text_not_blank [OF x(2)] by (simp add: py_get_def split: option.splits)
qed

lemma observe_entity_shows:
  assumes "wall_time n = Some t"
  shows "shows_observation i n (observe_entity i (we_payload n) refs s)"
proof -
  obtain x where x: "map_of (we_payload n) ''observed_at'' = Some (PyStr x)" "\<not> py_blank x"
    "map_of (we_payload n) ''clock_id'' = Some (PyStr ''wall'')"
    using assms by (rule wall_time_Some)
  have "\<not> py_blank ''wall''"
    by (simp add: py_blank_iff py_isspace_def)
  then have "map_of (replace_observation_metadata (we_payload n) ''observed_at'' i d) i = Some x"
    "map_of (replace_observation_metadata (we_payload n) ''clock_id'' i d) i = Some ''wall''" for d
    using x by (simp_all add: replace_observation_metadata_def update_conv')
  then show ?thesis
    using observe_location_same [of i _ i "we_payload n" refs] x(1,3)
    by (simp add: observe_entity_def Let_def shows_observation_def same_observation_def opt_text_def py_get_def
        update_conv')
qed

lemma provably_older_iff:
  assumes "shows_observation i m s" "wall_time m = Some t0" "wall_time n = Some t"
  shows "observation_is_provably_older s i (we_payload n) \<longleftrightarrow> t < t0"
proof -
  obtain x where x: "map_of (we_payload m) ''observed_at'' = Some (PyStr x)"
    "map_of (we_payload m) ''clock_id'' = Some (PyStr ''wall'')" "parse_wall_text x = Some t0"
    using assms(2) by (rule wall_time_Some)
  obtain y where y: "map_of (we_payload n) ''observed_at'' = Some (PyStr y)"
    "map_of (we_payload n) ''clock_id'' = Some (PyStr ''wall'')" "parse_wall_text y = Some t"
    using assms(3) by (rule wall_time_Some)
  have "opt_text (entity_last_observed_at s) i = PyStr x" "opt_text (entity_observation_clock_ids s) i = PyStr ''wall''"
    using assms(1) x by (simp_all add: shows_observation_def py_get_def)
  moreover from this have "i \<in> fst ` set (entity_last_observed_at s)"
    by (auto simp: opt_text_def key_iff split: option.splits)
  ultimately show ?thesis
    using x y by (simp add: observation_is_provably_older_def comparable_wall_observation_is_older_def py_get_def
        parse_utc_wall_time_def)
qed

lemma same_observation_refl: "same_observation i s s"
  by (simp add: same_observation_def)

text \<open>What one event that was not applied before does to the observation of an entity.\<close>

lemma apply_event_observation:
  assumes norm: "normalize_world_event fl None n = Inr n" and new: "we_event_id n \<notin> set (applied_event_ids s)"
    and step: "apply_event fl s n = Inr s'"
  shows "applied_event_ids s' = applied_event_ids s @ [we_event_id n]"
    and "\<not> observes i n \<or> observation_is_provably_older s i (we_payload n)
         \<Longrightarrow> shows_observation i m s' \<longleftrightarrow> shows_observation i m s"
    and "\<not> observes i n \<Longrightarrow> opt_text (entity_last_observed_at s') i = opt_text (entity_last_observed_at s) i"
    and "observes i n \<Longrightarrow> \<not> observation_is_provably_older s i (we_payload n) \<Longrightarrow> wall_time n = Some t
         \<Longrightarrow> shows_observation i n s'"
proof -
  define next_state where "next_state = s\<lparr>applied_event_ids := applied_event_ids s @ [we_event_id n],
    ws_evidence_refs := ws_evidence_refs s @ we_evidence_refs n\<rparr>"
  have shows_next: "shows_observation i m next_state \<longleftrightarrow> shows_observation i m s" for m
    by (simp add: next_state_def shows_observation_def)
  have step': "(if we_event_type n = EV_OBSERVATION then
         and_try (admit_observation s (we_payload n)) (\<lambda>_.
           apply_observation fl (we_payload n) (we_evidence_refs n) s next_state)
       else Inr next_state) = Inr s'"
    using step norm new by (auto simp: apply_event_def Let_def next_state_def split: if_splits)
  let ?j = "payload_entity_id (we_payload n)"
  let ?older = "observation_is_provably_older s ?j (we_payload n)"
  define f where "f = (if ''entity_type'' \<in> fst ` set (we_payload n)
      then next_state\<lparr>freshness_evaluated := False\<rparr> else next_state)"
  define observed where "observed = (if we_event_type n = EV_OBSERVATION \<and> \<not> ?older
    then observe_entity ?j (we_payload n) (we_evidence_refs n) f else f)"
  have fresh: "same_observation i next_state f" for i
    by (simp add: same_observation_def f_def)
  have rest: "same_observation i observed s'" for i
  proof (cases "we_event_type n = EV_OBSERVATION")
    case True
    then obtain s1 where "apply_observed_attributes fl ?j (we_payload n) ?older observed = Inr s1"
      "s' = s1 \<or> s' = append_entity_evidence ?j (we_evidence_refs n) s1"
      using step' by (auto simp: apply_observation_def observed_def f_def Let_def and_try_Inr split: if_splits)
    then show ?thesis
      using apply_observed_attributes_same append_evidence_same same_observation_trans by blast
  next
    case False
    then show ?thesis
      using step' by (simp add: observed_def f_def same_observation_def)
  qed
  have other: "same_observation i next_state observed" if "\<not> observes i n \<or> ?older \<and> observes i n" for i
  proof (cases "we_event_type n = EV_OBSERVATION \<and> \<not> ?older")
    case True
    then have "?j \<noteq> i"
      using that by (auto simp: observes_def)
    then show ?thesis
      using True same_observation_trans [OF fresh observe_entity_other] by (simp add: observed_def)
  next
    case False
    then show ?thesis
      using fresh unfolding observed_def by auto
  qed
  show "applied_event_ids s' = applied_event_ids s @ [we_event_id n]"
    using rest [of "[]"] by (simp add: observed_def f_def same_observation_def next_state_def split: if_splits)
  show "shows_observation i m s' \<longleftrightarrow> shows_observation i m s"
    if "\<not> observes i n \<or> observation_is_provably_older s i (we_payload n)"
    using that other [of i] rest [of i] shows_next same_observation_shows by (metis observes_def)
  show "opt_text (entity_last_observed_at s') i = opt_text (entity_last_observed_at s) i" if "\<not> observes i n"
    using other [of i] rest [of i] that by (simp add: same_observation_def opt_text_def next_state_def)
  show "shows_observation i n s'" if "observes i n" "\<not> observation_is_provably_older s i (we_payload n)" "wall_time n = Some t"
    using that observe_entity_shows [OF that(3)] rest [of i] same_observation_shows
    by (auto simp: observed_def observes_def)
qed


text \<open>After a list of events the entity shows a newest one of those that observed it.\<close>

definition newest_shown :: "string \<Rightarrow> world_event list \<Rightarrow> world_state \<Rightarrow> bool" where
  "newest_shown i P s \<longleftrightarrow>
     applied_event_ids s = map we_event_id P
     \<and> (if \<exists>m\<in>set P. observes i m
        then \<exists>n\<in>set P. observes i n \<and> shows_observation i n s
               \<and> (\<forall>m\<in>set P. observes i m \<longrightarrow> the (wall_time m) \<le> the (wall_time n))
        else opt_text (entity_last_observed_at s) i = PyNone)"

lemma newest_shown_step:
  assumes inv: "newest_shown i P s" and step: "apply_event fl s n = Inr s'"
    and norm: "normalize_world_event fl None n = Inr n" and new: "we_event_id n \<notin> we_event_id ` set P"
    and wall: "\<forall>m\<in>set (P @ [n]). observes i m \<longrightarrow> wall_time m \<noteq> None"
  shows "newest_shown i (P @ [n]) s'"
proof -
  have ids: "applied_event_ids s = map we_event_id P"
    using inv by (simp add: newest_shown_def)
  then have "we_event_id n \<notin> set (applied_event_ids s)"
    using new by simp
  note event = apply_event_observation [OF norm this step]
  show ?thesis
  proof (cases "observes i n")
    case False
    show ?thesis
    proof (cases "\<exists>m\<in>set P. observes i m")
      case True
      then show ?thesis
        using inv event(1) event(2) [of i] False by (auto simp: newest_shown_def)
    next
      case none: False
      then show ?thesis
        using inv event(1) event(3) [OF False] False by (auto simp: newest_shown_def)
    qed
  next
    case obs: True
    then obtain t where t: "wall_time n = Some t"
      using wall by auto
    show ?thesis
    proof (cases "\<exists>m\<in>set P. observes i m")
      case True
      then obtain m where m: "m \<in> set P" "observes i m" "shows_observation i m s"
        "\<forall>k\<in>set P. observes i k \<longrightarrow> the (wall_time k) \<le> the (wall_time m)"
        using inv by (auto simp: newest_shown_def)
      then obtain t0 where t0: "wall_time m = Some t0"
        using wall by fastforce
      note older = provably_older_iff [OF m(3) t0 t]
      have "applied_event_ids s' = map we_event_id (P @ [n])"
        using ids event(1) by simp
      moreover have "\<exists>k\<in>set (P @ [n]). observes i k \<and> shows_observation i k s'
          \<and> (\<forall>l\<in>set (P @ [n]). observes i l \<longrightarrow> the (wall_time l) \<le> the (wall_time k))"
      proof (cases "t < t0")
        case True
        then show ?thesis
          using event(2) [of i m] older m t t0 by (intro bexI [of _ m]) auto
      next
        case False
        then show ?thesis
          using event(4) [OF obs _ t] older m(4) t t0 obs by (intro bexI [of _ n]) auto
      qed
      ultimately show ?thesis
        using obs unfolding newest_shown_def by auto
    next
      case none: False
      then have "i \<notin> fst ` set (entity_last_observed_at s)"
        using inv by (auto simp: newest_shown_def opt_text_def key_iff split: option.splits)
      then have "\<not> observation_is_provably_older s i (we_payload n)"
        by (simp add: observation_is_provably_older_def)
      then have "shows_observation i n s'"
        using event(4) [OF obs _ t] by blast
      then show ?thesis
        using ids event(1) obs none by (auto simp: newest_shown_def)
    qed
  qed
qed

lemma newest_shown_replay:
  assumes "newest_shown i P s" "try_fold (apply_event fl) s evs = Inr s'"
    and "\<forall>n\<in>set evs. normalize_world_event fl None n = Inr n" "distinct (map we_event_id (P @ evs))"
    and "\<forall>m\<in>set (P @ evs). observes i m \<longrightarrow> wall_time m \<noteq> None"
  shows "newest_shown i (P @ evs) s'"
  using assms
proof (induction evs arbitrary: P s)
  case (Cons n evs)
  then obtain s1 where s1: "apply_event fl s n = Inr s1" "try_fold (apply_event fl) s1 evs = Inr s'"
    by (auto simp: and_try_Inr)
  have "newest_shown i (P @ [n]) s1"
    using Cons.prems s1(1) by (intro newest_shown_step) auto
  from Cons.IH [OF this s1(2)] show ?case
    using Cons.prems by simp
qed simp

lemma agreeing_ids:
  assumes "agreeing fl dump Q" "determined fl dump Q"
  shows "inj_on we_event_id Q"
proof (rule inj_onI)
  fix a b assume ab: "a \<in> Q" "b \<in> Q" "we_event_id a = we_event_id b"
  then have "compatible fl dump a b"
    using assms(1) by (simp add: agreeing_def)
  then have "canonical_event_content fl dump a = canonical_event_content fl dump b"
    using ab(3) by (simp add: compatible_def)
  then show "a = b"
    using assms(2) ab by (simp add: determined_def)
qed

lemma newest_shown_empty: "newest_shown i [] (empty_state run_id)"
  by (simp add: newest_shown_def empty_state_def opt_text_def)

section \<open>Properties\<close>



text \<open>Three observations of a cup, the newest of them in the middle of the stream.\<close>

definition cup_event :: "string \<Rightarrow> int \<Rightarrow> string \<Rightarrow> string \<Rightarrow> world_event" where
  "cup_event event_id seq time location =
     \<lparr>we_event_id = event_id, we_run_id = ''run'', we_sequence_no = seq, we_event_type = EV_OBSERVATION,
      we_occurred_at = time,
      we_payload =
        [(''entity_id'', PyStr ''cup''), (''entity_type'', PyStr ''cup''), (''observed_at'', PyStr time),
         (''clock_id'', PyStr ''wall''), (''source'', PyStr ''cam''), (''confidence'', PyFloat (Finite 1)),
         (''location'', PyStr location)],
      we_recorded_at = None, we_clock_id = Some WALL, we_evidence_refs = [event_id]\<rparr>"

definition cup_stream :: "world_event list" where
  "cup_stream =
     [cup_event ''a'' 1 ''2026-01-01T00:00:05Z'' ''on:table'', cup_event ''b'' 2 ''2026-01-01T00:00:09Z'' ''in:sink'',
      cup_event ''c'' 3 ''2026-01-01T00:00:07Z'' ''on:floor'']"

text \<open>A dump of the fields of an event other than its type, which all events of the example share.\<close>

definition field_dump :: "world_event \<Rightarrow> pyval option" where
  "field_dump e = Some (PyDict
     [(''event_id'', PyStr (we_event_id e)), (''run_id'', PyStr (we_run_id e)),
      (''sequence_no'', PyInt (we_sequence_no e)), (''occurred_at'', PyStr (we_occurred_at e)),
      (''payload'', PyDict (we_payload e)), (''evidence_refs'', PyList (map PyStr (we_evidence_refs e)))])"

definition cup_reduced :: world_state where
  "cup_reduced = (empty_state ''run'')\<lparr>
     entity_types := [(''cup'', ''cup'')],
     entity_last_observed_at := [(''cup'', ''2026-01-01T00:00:09Z'')],
     entity_observation_clock_ids := [(''cup'', ''wall'')],
     entity_observation_sources := [(''cup'', ''cam'')],
     entity_beliefs := [(''cup'', BELIEF_OBSERVED)],
     entity_locations := [(''cup'', ''in:sink'')],
     entity_location_evidence_refs := [(''cup'', [''b''])],
     entity_location_last_observed_at := [(''cup'', ''2026-01-01T00:00:09Z'')],
     entity_location_clock_ids := [(''cup'', ''wall'')],
     entity_location_sources := [(''cup'', ''cam'')],
     entity_location_beliefs := [(''cup'', BELIEF_OBSERVED)],
     entity_confidence := [(''cup'', PyFloat (Finite 1))],
     entity_evidence_refs := [(''cup'', [''b''])],
     ws_evidence_refs := [''a'', ''b'', ''c''],
     freshness_evaluated := False,
     applied_event_ids := [''a'', ''b'', ''c'']\<rparr>"

lemma cup_stream_reduced:
  "reduce_events exact_floats field_dump ''run'' cup_stream None None = Inr cup_reduced"
  by code_simp

lemma cup_stream_normal:
  "normalize_world_event exact_floats None (cup_event ''a'' 1 ''2026-01-01T00:00:05Z'' ''on:table'')
     = Inr (cup_event ''a'' 1 ''2026-01-01T00:00:05Z'' ''on:table'')"
  "normalize_world_event exact_floats None (cup_event ''b'' 2 ''2026-01-01T00:00:09Z'' ''in:sink'')
     = Inr (cup_event ''b'' 2 ''2026-01-01T00:00:09Z'' ''in:sink'')"
  "normalize_world_event exact_floats None (cup_event ''c'' 3 ''2026-01-01T00:00:07Z'' ''on:floor'')
     = Inr (cup_event ''c'' 3 ''2026-01-01T00:00:07Z'' ''on:floor'')"
  by code_simp+

lemma cup_stream_events: "normalized_events exact_floats (set cup_stream) = set cup_stream"
  by (auto simp: normalized_events_def cup_stream_def cup_stream_normal)

lemma cup_stream_determined: "determined exact_floats field_dump (normalized_events exact_floats (set cup_stream))"
  unfolding cup_stream_events by (auto simp: determined_def cup_stream_def cup_event_def)


lemma cup_stream_times:
  "wall_time (cup_event ''a'' 1 ''2026-01-01T00:00:05Z'' ''on:table'') = Some 63902908805000000"
  "wall_time (cup_event ''b'' 2 ''2026-01-01T00:00:09Z'' ''in:sink'') = Some 63902908809000000"
  "wall_time (cup_event ''c'' 3 ''2026-01-01T00:00:07Z'' ''on:floor'') = Some 63902908807000000"
  by code_simp+


end
