(* ===== verification/Spec2Isabelle.thy ===== *)
theory Spec2Isabelle
  imports Recovery Gpio Irq Dma UartSpi PowerManager VirtualMcu ExecutionController Reducer
begin

text \<open>
  \<^bold>\<open>Verification of the Workbench mobile home robot.\<close>

  The robot's software, under \<^verbatim>\<open>src/\<close>, takes a task as a graph of semantic actions, lets a policy decide
  on every step, dispatches the permitted actions to the device, keeps a model of the world from
  observations, checks goals on it and recovers from failures within a budget. The drivers below are
  contracts of Linux drivers with providers for tests, and a microcontroller.

  \<^bold>\<open>The program's parts and the theories that model them.\<close>

  \<^item> \<open>Prelude\<close>: Python values and strings, outcomes of operations (an exception is an \<open>Inl\<close> value and keeps
    the mutations made before it), loops that raise, and the locales that lift facts about one
    operation to every sequence of operations.
  \<^item> \<open>Contracts\<close>: \<^verbatim>\<open>libs/contracts/workbench_contracts/models.py\<close>, the actions, results and task graphs that
    pass between the parts, as records with the validators of their models.
  \<^item> \<open>ToolRegistry\<close>: \<^verbatim>\<open>services/agent_runtime/.../tool_registry.py\<close> and \<^verbatim>\<open>tool_schemas.py\<close>, the schemas of the
    tools, registration, and the validation of an action against its schema.
  \<^item> \<open>Json\<close> and \<open>JsonText\<close>: the decoder and the encoder of Python's \<^verbatim>\<open>json\<close> library, as the sources use them.
  \<^item> \<open>PolicyValidator\<close>: \<^verbatim>\<open>policy_validator.py\<close>, the scan of parameters for raw-control names (nested
    containers and JSON text included), the decision on a step, and \<^verbatim>\<open>check\<close> and \<^verbatim>\<open>enforce\<close> on a graph.
  \<^item> \<open>GraphStructure\<close> and \<open>ExecutionController\<close>: \<^verbatim>\<open>execution_controller.py\<close>, the structure check of a graph
    with its cycle search, and the execution of a graph step by step with STOP requests that may arrive
    at every call out of the controller.
  \<^item> \<open>Recovery\<close>: \<^verbatim>\<open>recovery.py\<close>, the recovery policy and its ledger.
  \<^item> \<open>ObservedAttributes\<close>, \<open>EventPayloads\<close>, \<open>Aging\<close> and \<open>Reducer\<close>: the world model.
    \<^verbatim>\<open>observed_attributes.py\<close> says which attributes an entity can have and which evidence they need;
    \<^verbatim>\<open>event_payloads.py\<close> normalizes events; \<^verbatim>\<open>aging.py\<close> says how firmly an observation is believed at a
    time; \<^verbatim>\<open>reducer.py\<close> checks a stream of events and replays it into a state.
  \<^item> \<open>Gpio\<close>, \<open>Irq\<close>, \<open>Dma\<close>, \<open>UartSpi\<close>, \<open>PowerManager\<close>: the contracts under \<^verbatim>\<open>hardware/linux_drivers/\<close> with their
    providers; the last one is \<^verbatim>\<open>pm/contract.py\<close>, suspend and resume within a budget of seconds.
  \<^item> \<open>VirtualMcu\<close>: \<^verbatim>\<open>firmware/virtual_mcu/.../state_machine.py\<close> and the frames of the device.

  The parts interact as the sources let them: the controller calls the policy validator, which calls the
  registry (\<open>runtime_env\<close> below plugs the modelled validator into the controller), and the reducer calls
  normalization, which calls the attribute vocabulary, and ageing.

  \<^bold>\<open>How the model corresponds to the code.\<close> A definition has the name of the function or method it
  models, without a leading underscore, with a prefix where two classes have methods of the same name.
  A class is a record of its fields, an enumeration a datatype. A method of an object with a lock is a
  function on the record; where a method gives the lock up, it is cut into the sections between, so that
  a list of operations is an interleaving of threads. Dictionaries are association lists in insertion
  order. Exceptions are modelled by their class, without their messages. Strings consist of code points
  below 256. Values of unknown type are \<^typ>\<open>pyval\<close>.

  What is not under \<^verbatim>\<open>src/\<close> enters as an argument: the surroundings of the controller (\<open>environment\<close>: the
  library that copies models, the policy, the adapter, the caller's own graph object), the interpreter's
  object identities and recursion limit (\<open>interpreter\<close>), the rounding and printing of doubles
  (\<open>float_ops\<close>), the dump of an event by the model library. What a theorem needs of them is a named
  hypothesis: \<open>faithful_copies\<close> (a copy equals its original), \<open>faithful_ids\<close> (different live objects have
  different identities), \<open>faithful_rounding\<close> (rounding is monotone and keeps zero). Deadlines enter as
  whether the clock has passed them at each look.

  \<^bold>\<open>What the lemmas show.\<close>

  \<^item> Runtime: the controller refines a gate that lets an action pass only with a fresh grant and an unused
    id; executions follow the graph; a pending STOP blocks the graph; the validator allows exactly the
    authorised steps and finds exactly the raw-control names; the registry accepts exactly the actions
    that its schemas admit. Together, in this theory: every action that reaches the adapter is bounded,
    clean and, where it must be, confirmed.
  \<^item> Recovery: bounded, closing when its budget is spent, complete only on evidence after the failure.
  \<^item> World model: replay does not depend on the order or repetition of deliveries and shows a newest
    observation; ageing only loses freshness; normalization is idempotent.
  \<^item> Drivers and device: no event, interrupt, transfer or frame is lost, duplicated or reordered; buffers
    have one owner; damaged frames are rejected; a stopped device stays stopped until reset; the power
    manager knows which resources are down and resumes only when all of them are.
  \<^item> Where the code does not do what it means to, a theorem exhibits it: the close races of the interrupt
    provider, the stale descriptor of the DMA provider, the oversized length of the UART session, the
    oversized budget of the power manager, and the identity reuse in the policy scan.

  \<^bold>\<open>Locales.\<close> \<open>machine_invariant\<close>, \<open>machine_relation\<close>, \<open>machine_safety\<close>, \<open>machine_history\<close> and
  \<open>numbered_stream\<close> in \<open>Prelude\<close> are interpreted on the step functions of the drivers, the ledger and the
  device; \<open>controller_invariant\<close> is interpreted three times on the operations of the controller;
  \<open>live_port\<close>, which extends \<open>byte_port\<close>, on the loopback transport of the UART session.

  \<^bold>\<open>Bounds and fuel.\<close> Loops are structural or have a termination proof, with two exceptions. The JSON decoder
  recurses on fuel, and \<open>json_loads_fuel\<close> proves that the fuel it is given, twice the length of the text, is
  enough; its recursion limit is the interpreter's. The cycle search recurses on fuel, and
  \<open>cycle_search_terminates_and_decides\<close> proves that one unit per step and one more are enough. The
  limits of depth, size and number in the policy scan are the source's own.

  \<^bold>\<open>Not modelled.\<close>
  \<^item> Of the modelled parts: texts of error messages and reports, the projection of a reduced state into the
    public snapshot with its hash, functions that return JSON schemas.
  \<^item> The verification rules of the world model (\<^verbatim>\<open>verifier.py\<close>), the planner with its language model and the
    post-action stage: texts, threads and clocks.
  \<^item> Input and output: event stores on SQLite, the HTTP backend, perception, dashboard, containers, board
    support, the CAN driver, SocketCAN and ROS 2 bridges, the kernel module, integrations.
  \<^item> Numerical code of the motion packages, which is floating-point arithmetic over a kinematics library.
  \<^item> Generators and checks of design files, scenario and schema tooling, development scripts: they produce
    and compare documents and have no state that the robot's behaviour depends on.
  \<^item> The firmware in C; the Python virtual device that stands for it in the runtime is modelled.
\<close>

section \<open>The agent runtime as a whole\<close>

text \<open>
  The surroundings of a controller that was built with the modelled policy validator: its check is
  \<^const>\<open>check\<close>, which raises or returns a report, leaves the graph it is given as it is and asks for
  no STOP. The remaining surroundings are those of \<open>env\<close>.
\<close>

definition runtime_env :: "interpreter \<Rightarrow> policy_validator \<Rightarrow> 'w environment \<Rightarrow> 'w environment" where
  "runtime_env py validator env =
     env\<lparr>env_check := (\<lambda>w graph confirmed.
        (case check py validator graph (PySet (map PyStr confirmed)) of
           Inl _ \<Rightarrow> CheckRaised
         | Inr decisions \<Rightarrow> CheckReport (Decisions decisions) (env_copy_graph env graph), [], w))\<rparr>"

lemma runtime_env_faithful [simp]: "faithful_copies (runtime_env py validator env) = faithful_copies env"
  by (simp add: faithful_copies_def runtime_env_def)

lemma faithful_copies_live: "faithful_copies (env\<lparr>env_live := f\<rparr>) = faithful_copies env"
  by (simp add: faithful_copies_def)

lemma runtime_reply:
  assumes "fst (env_check (runtime_env py validator env) w graph confirmed) = CheckReport (Decisions ds) after"
  shows "check py validator graph (PySet (map PyStr confirmed)) = Inr ds"
  using assms by (auto simp: runtime_env_def split: sum.splits)

lemma grant_SomeE:
  assumes "grant graph reply = Some action"
  obtains step d after where "tg_steps graph = [step]" "reply = CheckReport (Decisions [d]) after"
    "pd_outcome d = ALLOW" "ts_action step = action"
  using assms
  by (auto simp: grant_def split: list.splits policy_reply.splits returned_report.splits if_splits)

lemma confirmed_ids: "usable_confirmation (PySet (map PyStr confirmed)) ids \<Longrightarrow> ids = set confirmed"
  by (auto simp: usable_confirmation_def)

lemma dispatched_authorized:
  assumes "faithful_copies env" and ok: "registry_ok (pv_registry validator)" and ids: "\<forall>step_id. faithful_ids (py_id py step_id)"
    and trace: "ec_trace (fold (controller_step (runtime_env py validator env)) ops (init_controller w)) = before @ AdapterCalled action # rest"
  obtains earlier graph step confirmed reply where "before = earlier @ [PolicyChecked graph confirmed reply]"
    "tg_steps graph = [step]" "ts_action step = action"
    "authorized py (pv_registry validator) (pv_policy_config validator) (PySet (map PyStr confirmed)) step"
proof -
  let ?env = "runtime_env py validator env"
  let ?s = "fold (controller_step ?env) ops (init_controller w)"
  obtain granted where "gate (ec_trace ?s) granted (set (ec_dispatched_action_ids ?s))"
    using controller_run_gated [of ?env ops w] assms(1) unfolding gated_def behind_gate_def by auto
  from gate_call_checked [OF this trace]
  obtain earlier graph confirmed reply where before: "before = earlier @ [PolicyChecked graph confirmed reply]"
    and "grant graph reply = Some action" by blast
  then obtain step d after where steps: "tg_steps graph = [step]" "ts_action step = action"
    and reply: "reply = CheckReport (Decisions [d]) after" and allow: "pd_outcome d = ALLOW"
    by (elim grant_SomeE)
  have "answered ?env ?s"
    by (rule answered.inv_run) (simp add: answered_def init_controller_def)
  then obtain w' where "fst (env_check ?env w' graph confirmed) = reply"
    using trace before unfolding answered_def by (metis Un_iff append.assoc append_Cons in_set_conv_decomp)
  then have "check py validator graph (PySet (map PyStr confirmed)) = Inr [d]"
    using reply by (intro runtime_reply [of py validator env w' graph confirmed "[d]" after]) simp
  then have "list_all2 (decides py validator (PySet (map PyStr confirmed))) (tg_steps graph) [d]"
    using check_decides [OF ok, of graph py "PySet (map PyStr confirmed)"] ids by auto
  then have "authorized py (pv_registry validator) (pv_policy_config validator) (PySet (map PyStr confirmed)) step"
    using steps allow by (simp add: decides_def)
  then show thesis using that [OF before steps] by blast
qed

section \<open>Properties of the runtime\<close>


section \<open>A concrete runtime\<close>

definition one_graph :: task_graph where
  "one_graph = demo_graph\<lparr>tg_steps := [demo_step ''s1'' ''a1'' OBSERVE []]\<rparr>"

definition one_env :: "unit environment" where
  "one_env = demo_env\<lparr>env_live := (\<lambda>_. Inr one_graph)\<rparr>"

abbreviation one_run :: "unit controller" where
  "one_run \<equiv> fold (controller_step (runtime_env content_ids demo_validator one_env))
     [OpExecute LiveGraph (PySet [])] (init_controller ())"

abbreviation observe_cup :: semantic_action where
  "observe_cup \<equiv> ts_action (demo_step ''s1'' ''a1'' OBSERVE [])"

lemma no_parameters_clean: "find_raw_control_identifiers jd ident [] = Inr []"
  by (simp add: find_raw_control_identifiers_def scan_loop.simps scan_one_def scan_mapping_def
      MAX_SCAN_DEPTH_def MAX_SCAN_NODES_def)

lemma observe_accepted: "validate_action TOOL_SCHEMAS observe_cup = Inr (vr_ok ''a1'')"
  by code_simp

definition observe_allowed :: policy_decision where
  "observe_allowed = policy_decision_of (demo_step ''s1'' ''a1'' OBSERVE []) ALLOW POLICY_ALLOWED (Some ''v1'') []"

lemma one_check: "check content_ids demo_validator one_graph (PySet []) = Inr [observe_allowed]"
proof -
  have "snapshot_confirmed_action_ids (PySet []) = Some []" by code_simp
  moreover have reg: "pv_registry demo_validator = TOOL_SCHEMAS" by (simp add: demo_validator_def init_validator_def)
  moreover note demo_state [unfolded reg]
  moreover have "ts_action (demo_step ''s1'' ''a1'' OBSERVE []) = observe_cup" "sa_parameters observe_cup = []"
    "sa_action_type observe_cup = OBSERVE"
    by (simp_all add: demo_step_def)
  ultimately show ?thesis
    using observe_accepted
    by (simp add: check_def check_step_def one_graph_def Let_def vr_ok_def no_parameters_clean observe_allowed_def)
qed

lemma one_single: "single_step_graph one_graph (demo_step ''s1'' ''a1'' OBSERVE []) = one_graph"
  by (simp add: single_step_graph_def one_graph_def demo_graph_def)

lemma one_run_trace:
  "\<exists>reply1 reply2. ec_trace one_run =
     [PolicyChecked one_graph [] reply1, PolicyChecked one_graph [] reply2] @ AdapterCalled observe_cup # []"
proof -
  have "graph_structure_errors one_graph = []" "snapshot_confirmed_action_ids (PySet []) = Some []"
    by code_simp+
  moreover have "env_live one_env () = Inr one_graph" by (simp add: one_env_def)
  moreover have steps: "tg_steps one_graph = [demo_step ''s1'' ''a1'' OBSERVE []]" by (simp add: one_graph_def)
  ultimately show ?thesis
    by (simp add: controller_step_def execute_def run_graph_def check_policy_def and_then_def execute_step_def
        finish_sequence_def live_graph_failure_def task_graph_change_def dispatch_action_def serve_stops_def
        judge_reply_def policy_refuses_def runtime_env_def one_env_def demo_env_def init_controller_def
        one_check one_single [unfolded demo_step_def] returned_is_valid_def report_is_valid_def decision_ids_def step_ids_def
        observe_allowed_def policy_decision_of_def record_builder_def judge_result_def demo_result_def RESULT_STATES_def
        demo_step_def Let_def)
qed


end
